(* ===== verification/Prelude.thy ===== *)
theory Prelude
  imports Main "HOL-Library.Char_ord" "HOL-Library.List_Lexorder" "HOL-Library.Code_Target_Numeral"
begin

text \<open>
  Shared vocabulary of the development: the computations of the C++ code as
  state transformers with exceptions, 64-bit unsigned arithmetic on naturals with the
  wrap-around written out, and generic facts on lists that several components use.
\<close>

named_theorems exec_simps \<open>unfolding rules of the exception and state combinators\<close>
named_theorems u64_simps \<open>64-bit arithmetic that does not wrap around\<close>

declare Let_def [simp]

section \<open>Computations with state and exceptions\<close>

text \<open>
  A C++ statement changes the state and either returns a value or throws. An exception
  does not undo the changes made before it was thrown, so the state is returned on both
  paths.
\<close>

type_synonym ('s, 'e, 'a) exec = "'s \<Rightarrow> ('e + 'a) \<times> 's"

definition ret :: "'a \<Rightarrow> ('s, 'e, 'a) exec" where
  "ret x = (\<lambda>s. (Inr x, s))"

definition throw :: "'e \<Rightarrow> ('s, 'e, 'a) exec" where
  "throw e = (\<lambda>s. (Inl e, s))"

definition bindx :: "('s, 'e, 'a) exec \<Rightarrow> ('a \<Rightarrow> ('s, 'e, 'b) exec) \<Rightarrow> ('s, 'e, 'b) exec" where
  "bindx m f = (\<lambda>s. case m s of (Inl e, s') \<Rightarrow> (Inl e, s') | (Inr x, s') \<Rightarrow> f x s')"

definition catchx :: "('s, 'e, 'a) exec \<Rightarrow> ('e \<Rightarrow> ('s, 'e, 'a) exec) \<Rightarrow> ('s, 'e, 'a) exec" where
  "catchx m h = (\<lambda>s. case m s of (Inl e, s') \<Rightarrow> h e s' | (Inr x, s') \<Rightarrow> (Inr x, s'))"

definition getx :: "('s \<Rightarrow> 'a) \<Rightarrow> ('s, 'e, 'a) exec" where
  "getx f = (\<lambda>s. (Inr (f s), s))"

definition modifyx :: "('s \<Rightarrow> 's) \<Rightarrow> ('s, 'e, unit) exec" where
  "modifyx f = (\<lambda>s. (Inr (), f s))"

text \<open>A pure step that may throw, run inside a computation with state.\<close>

definition liftx :: "('e + 'a) \<Rightarrow> ('s, 'e, 'a) exec" where
  "liftx r = (\<lambda>s. (r, s))"

text \<open>A computation on one part of the state, run on the whole state.\<close>

definition zoomx :: "('t \<Rightarrow> 's) \<Rightarrow> ('s \<Rightarrow> 't \<Rightarrow> 't) \<Rightarrow> ('s, 'e, 'a) exec \<Rightarrow> ('t, 'e, 'a) exec" where
  "zoomx get put m = (\<lambda>t. case m (get t) of (r, s) \<Rightarrow> (r, put s t))"

lemma ret_app [exec_simps]: "ret x s = (Inr x, s)"
  by (simp add: ret_def)

lemma throw_app [exec_simps]: "throw e s = (Inl e, s)"
  by (simp add: throw_def)

lemma bindx_app [exec_simps]:
  "bindx m f s = (case m s of (Inl e, s') \<Rightarrow> (Inl e, s') | (Inr x, s') \<Rightarrow> f x s')"
  by (simp add: bindx_def)

lemma catchx_app [exec_simps]:
  "catchx m h s = (case m s of (Inl e, s') \<Rightarrow> h e s' | (Inr x, s') \<Rightarrow> (Inr x, s'))"
  by (simp add: catchx_def)

lemma getx_app [exec_simps]: "getx f s = (Inr (f s), s)"
  by (simp add: getx_def)

lemma modifyx_app [exec_simps]: "modifyx f s = (Inr (), f s)"
  by (simp add: modifyx_def)

lemma liftx_app [exec_simps]: "liftx r s = (r, s)"
  by (simp add: liftx_def)

lemma zoomx_app [exec_simps]: "zoomx get put m t = (case m (get t) of (r, s) \<Rightarrow> (r, put s t))"
  by (simp add: zoomx_def)

lemma bindx_InrI: "m s = (Inr x, s') \<Longrightarrow> bindx m f s = f x s'"
  by (simp add: bindx_def)

lemma bindx_InlI: "m s = (Inl e, s') \<Longrightarrow> bindx m f s = (Inl e, s')"
  by (simp add: bindx_def)

lemma bindx_InrE:
  assumes "bindx m f s = (Inr y, t)"
  obtains x s' where "m s = (Inr x, s')" and "f x s' = (Inr y, t)"
  using assms by (auto simp: bindx_def split: prod.splits sum.splits)

lemma bindx_assoc: "bindx (bindx m f) g = bindx m (\<lambda>x. bindx (f x) g)"
  by (rule ext) (auto simp: bindx_def split: prod.splits sum.splits)

section \<open>64-bit unsigned arithmetic\<close>

text \<open>
  \<open>uint64_t\<close> values are naturals below \<open>2 ^ 64\<close>; sums, differences and products wrap.
\<close>

definition add64 :: "nat \<Rightarrow> nat \<Rightarrow> nat" where
  "add64 a b = (a + b) mod 2 ^ 64"

definition sub64 :: "nat \<Rightarrow> nat \<Rightarrow> nat" where
  "sub64 a b = (a + (2 ^ 64 - b mod 2 ^ 64)) mod 2 ^ 64"

definition mul64 :: "nat \<Rightarrow> nat \<Rightarrow> nat" where
  "mul64 a b = (a * b) mod 2 ^ 64"

lemma add64_small [u64_simps]: "a + b < 2 ^ 64 \<Longrightarrow> add64 a b = a + b"
  by (simp add: add64_def)

lemma sub64_small [u64_simps]:
  assumes "b \<le> a" and "a < 2 ^ 64"
  shows "sub64 a b = a - b"
proof -
  have "sub64 a b = (a + (2 ^ 64 - b)) mod 2 ^ 64" using assms by (simp add: sub64_def)
  also have "a + (2 ^ 64 - b) = (a - b) + 2 ^ 64" using assms by simp
  also have "((a - b) + 2 ^ 64) mod 2 ^ 64 = a - b" using assms by (simp only: mod_add_self2) simp
  finally show ?thesis .
qed

lemma mul64_small [u64_simps]: "a * b < 2 ^ 64 \<Longrightarrow> mul64 a b = a * b"
  by (simp add: mul64_def)

lemma add64_less [simp]: "add64 a b < 2 ^ 64"
  by (simp add: add64_def)

lemma le_times: "0 < n \<Longrightarrow> k \<le> k * (n :: nat)"
  by (cases n) simp_all

section \<open>Lists\<close>

abbreviation NUL :: char where
  "NUL \<equiv> CHR 0x00"

text \<open>A string as \<open>c_str()\<close> hands it to a C function.\<close>

definition c_str :: "string \<Rightarrow> string" where
  "c_str s = takeWhile (\<lambda>c. c \<noteq> NUL) s"

lemma c_str_same: "NUL \<notin> set s \<Longrightarrow> c_str s = s"
  by (simp add: c_str_def) (metis takeWhile_eq_all_conv)

lemma append_replicate_snoc: "((\<lambda>d. d @ [x]) ^^ n) d = d @ replicate n x"
  by (induction n) (simp_all add: replicate_append_same)

lemma butlast_funpow: "(butlast ^^ n) d = take (length d - n) d"
  by (induction n) (simp_all add: butlast_take)

lemma count_list_remove_nth:
  "k < length xs \<Longrightarrow>
   count_list (xs[k := y]) z + (if xs ! k = z then 1 else 0)
     = count_list xs z + (if y = z then 1 else 0)"
proof (induction xs arbitrary: k)
  case Nil
  then show ?case by simp
next
  case (Cons a xs)
  show ?case
  proof (cases k)
    case 0
    then show ?thesis by simp
  next
    case (Suc j)
    with Cons.prems Cons.IH [of j] show ?thesis by auto
  qed
qed

lemma count_list_pos_iff: "0 < count_list xs x \<longleftrightarrow> x \<in> set xs"
  by (metis count_list_0_iff gr0I less_irrefl)

end
