(* ===== verification/Errors.thy ===== *)
theory Errors
  imports Prelude
begin

text \<open>
  The error type of \<open>htmpfs_error.h\<close> and \<open>error.cpp\<close>: the error codes with
  their numeric values, texts and system error numbers.
\<close>

datatype htmpfs_code =
    HTMPFS_SUCCESSFUL
  | HTMPFS_EXT_LIB_ERR
  | HTMPFS_DOUBLE_ALLOC
  | HTMPFS_ILLEGAL_ACCESS
  | HTMPFS_SNAPSHOT_VER_DEPLETED
  | HTMPFS_NO_SUCH_SNAPSHOT
  | HTMPFS_DOUBLE_SNAPSHOT
  | HTMPFS_BLOCK_NOT_FOUND
  | HTMPFS_BUFFER_ID_DEPLETED
  | HTMPFS_BUFFER_SHORT_OPS
  | HTMPFS_NOT_A_DIRECTORY
  | HTMPFS_DOUBLE_MKPATHNAME
  | HTMPFS_NO_SUCH_FILE_OR_DIR
  | HTMPFS_REQUESTED_BUFFER_NOT_FOUND
  | HTMPFS_REQUESTED_INODE_NOT_FOUND
  | HTMPFS_DIR_NOT_EMPTY
  | HTMPFS_INVALID_DENTRY_NAME
  | HTMPFS_INVALID_WRITE_INVOKE
  | HTMPFS_INVALID_READ_INVOKE
  | HTMPFS_CANNOT_REMOVE_ROOT
  | HTMPFS_CANNOT_OPEN_DEVICE
  | HTMPFS_CANNOT_LSEEK_DEVICE
  | HTMPFS_MEET_DEVICE_BOUNDARY
  | HTMPFS_BLOCK_SHORT_OPS

text \<open>
  What ends a computation early: an error of the program's own type, the
  \<open>std::out_of_range\<close> of the checked accessors \<open>at\<close>, or a step whose behaviour C++
  leaves undefined (a read past the end of an array, the use of a dangling pointer, a
  division by zero). No handler of the program catches the last one.
\<close>

datatype exc =
    HTMPFS_error_t htmpfs_code
  | Std_out_of_range
  | Undefined_behaviour

section \<open>The error table\<close>

text \<open>The system error numbers of Linux that the table and the handlers name.\<close>

definition ENOENT :: nat where "ENOENT = 2"
definition EEXIST :: nat where "EEXIST = 17"
definition ENOTDIR :: nat where "ENOTDIR = 20"
definition EISDIR :: nat where "EISDIR = 21"
definition EINVAL :: nat where "EINVAL = 22"
definition EROFS :: nat where "EROFS = 30"
definition ENOTEMPTY :: nat where "ENOTEMPTY = 39"

lemmas errno_defs = ENOENT_def EEXIST_def ENOTDIR_def EISDIR_def EINVAL_def EROFS_def ENOTEMPTY_def

text \<open>One line of \<open>_ADD_ERROR_INFORMATION_\<close> per code: its value, text and error number.\<close>

fun err_value :: "htmpfs_code \<Rightarrow> nat" where
  "err_value HTMPFS_SUCCESSFUL = 0"
| "err_value HTMPFS_EXT_LIB_ERR = 2684354561"
| "err_value HTMPFS_DOUBLE_ALLOC = 2684354562"
| "err_value HTMPFS_ILLEGAL_ACCESS = 2684354563"
| "err_value HTMPFS_SNAPSHOT_VER_DEPLETED = 2684354564"
| "err_value HTMPFS_NO_SUCH_SNAPSHOT = 2684354565"
| "err_value HTMPFS_DOUBLE_SNAPSHOT = 2684354566"
| "err_value HTMPFS_BLOCK_NOT_FOUND = 2684354567"
| "err_value HTMPFS_BUFFER_ID_DEPLETED = 2684354568"
| "err_value HTMPFS_BUFFER_SHORT_OPS = 2684354569"
| "err_value HTMPFS_NOT_A_DIRECTORY = 2684354570"
| "err_value HTMPFS_DOUBLE_MKPATHNAME = 2684354571"
| "err_value HTMPFS_NO_SUCH_FILE_OR_DIR = 2684354572"
| "err_value HTMPFS_REQUESTED_BUFFER_NOT_FOUND = 2684354573"
| "err_value HTMPFS_REQUESTED_INODE_NOT_FOUND = 2684354574"
| "err_value HTMPFS_DIR_NOT_EMPTY = 2684354577"
| "err_value HTMPFS_INVALID_DENTRY_NAME = 2684354579"
| "err_value HTMPFS_INVALID_WRITE_INVOKE = 2684354580"
| "err_value HTMPFS_INVALID_READ_INVOKE = 2684354581"
| "err_value HTMPFS_CANNOT_REMOVE_ROOT = 2684354582"
| "err_value HTMPFS_CANNOT_OPEN_DEVICE = 2684354583"
| "err_value HTMPFS_CANNOT_LSEEK_DEVICE = 2684354584"
| "err_value HTMPFS_MEET_DEVICE_BOUNDARY = 2684354585"
| "err_value HTMPFS_BLOCK_SHORT_OPS = 2684354586"

fun err_text :: "htmpfs_code \<Rightarrow> string" where
  "err_text HTMPFS_SUCCESSFUL = ''(htmpfs) Successful''"
| "err_text HTMPFS_EXT_LIB_ERR = ''(htmpfs) External library error''"
| "err_text HTMPFS_DOUBLE_ALLOC = ''(htmpfs) Double allocating in one node''"
| "err_text HTMPFS_ILLEGAL_ACCESS = ''(htmpfs) Illegal access of memory''"
| "err_text HTMPFS_SNAPSHOT_VER_DEPLETED = ''(htmpfs) Snapshot version depleted''"
| "err_text HTMPFS_NO_SUCH_SNAPSHOT = ''(htmpfs) Snapshot not found''"
| "err_text HTMPFS_DOUBLE_SNAPSHOT = ''(htmpfs) Double snapshot''"
| "err_text HTMPFS_BLOCK_NOT_FOUND = ''(htmpfs) Block not found''"
| "err_text HTMPFS_BUFFER_ID_DEPLETED = ''(htmpfs) Buffer ID depleted''"
| "err_text HTMPFS_BUFFER_SHORT_OPS = ''(htmpfs) Buffer short operation''"
| "err_text HTMPFS_NOT_A_DIRECTORY = ''(htmpfs) Inode is not a directory''"
| "err_text HTMPFS_DOUBLE_MKPATHNAME = ''(htmpfs) Pathname already exists''"
| "err_text HTMPFS_NO_SUCH_FILE_OR_DIR = ''(htmpfs) No such file or directory''"
| "err_text HTMPFS_REQUESTED_BUFFER_NOT_FOUND = ''(htmpfs) Requested buffer not found''"
| "err_text HTMPFS_REQUESTED_INODE_NOT_FOUND = ''(htmpfs) Requested inode not found''"
| "err_text HTMPFS_DIR_NOT_EMPTY = ''(htmpfs) Directory inode not empty''"
| "err_text HTMPFS_INVALID_DENTRY_NAME = ''(htmpfs) Invalid dentry name''"
| "err_text HTMPFS_INVALID_WRITE_INVOKE = ''(htmpfs) Invalid write invoke''"
| "err_text HTMPFS_INVALID_READ_INVOKE = ''(htmpfs) Invalid read invoke''"
| "err_text HTMPFS_CANNOT_REMOVE_ROOT = ''(htmpfs) Cannot remove root inode''"
| "err_text HTMPFS_CANNOT_OPEN_DEVICE = ''(htmpfs) Cannot open device''"
| "err_text HTMPFS_CANNOT_LSEEK_DEVICE = ''(htmpfs) Cannot lseek device''"
| "err_text HTMPFS_MEET_DEVICE_BOUNDARY = ''(htmpfs) Meet device boundary''"
| "err_text HTMPFS_BLOCK_SHORT_OPS = ''(htmpfs) Block short I/O operation''"

fun err_errno :: "htmpfs_code \<Rightarrow> nat" where
  "err_errno HTMPFS_SUCCESSFUL = 0"
| "err_errno HTMPFS_EXT_LIB_ERR = 1"
| "err_errno HTMPFS_DOUBLE_ALLOC = EEXIST"
| "err_errno HTMPFS_ILLEGAL_ACCESS = 1"
| "err_errno HTMPFS_SNAPSHOT_VER_DEPLETED = 1"
| "err_errno HTMPFS_NO_SUCH_SNAPSHOT = ENOENT"
| "err_errno HTMPFS_DOUBLE_SNAPSHOT = EEXIST"
| "err_errno HTMPFS_BLOCK_NOT_FOUND = 1"
| "err_errno HTMPFS_BUFFER_ID_DEPLETED = 1"
| "err_errno HTMPFS_BUFFER_SHORT_OPS = 1"
| "err_errno HTMPFS_NOT_A_DIRECTORY = ENOTDIR"
| "err_errno HTMPFS_DOUBLE_MKPATHNAME = EEXIST"
| "err_errno HTMPFS_NO_SUCH_FILE_OR_DIR = ENOENT"
| "err_errno HTMPFS_REQUESTED_BUFFER_NOT_FOUND = 1"
| "err_errno HTMPFS_REQUESTED_INODE_NOT_FOUND = 1"
| "err_errno HTMPFS_DIR_NOT_EMPTY = ENOTEMPTY"
| "err_errno HTMPFS_INVALID_DENTRY_NAME = EINVAL"
| "err_errno HTMPFS_INVALID_WRITE_INVOKE = 1"
| "err_errno HTMPFS_INVALID_READ_INVOKE = 1"
| "err_errno HTMPFS_CANNOT_REMOVE_ROOT = EISDIR"
| "err_errno HTMPFS_CANNOT_OPEN_DEVICE = 1"
| "err_errno HTMPFS_CANNOT_LSEEK_DEVICE = 1"
| "err_errno HTMPFS_MEET_DEVICE_BOUNDARY = 1"
| "err_errno HTMPFS_BLOCK_SHORT_OPS = 1"

section \<open>The exception class\<close>

record HTMPFS_error =
  error_code :: nat
  my_errno :: nat
  err_info :: string

text \<open>
  The two switches of \<open>error.cpp\<close>. The first starts with the success code, the second does
  not; the other cases are the same. A code outside them falls through to the default.
\<close>

definition switch_cases :: "htmpfs_code list" where
  "switch_cases = [HTMPFS_SUCCESSFUL, HTMPFS_EXT_LIB_ERR, HTMPFS_DOUBLE_ALLOC,
     HTMPFS_ILLEGAL_ACCESS, HTMPFS_SNAPSHOT_VER_DEPLETED, HTMPFS_NO_SUCH_SNAPSHOT,
     HTMPFS_DOUBLE_SNAPSHOT, HTMPFS_BUFFER_ID_DEPLETED, HTMPFS_BUFFER_SHORT_OPS,
     HTMPFS_NOT_A_DIRECTORY, HTMPFS_DOUBLE_MKPATHNAME, HTMPFS_NO_SUCH_FILE_OR_DIR,
     HTMPFS_REQUESTED_BUFFER_NOT_FOUND, HTMPFS_REQUESTED_INODE_NOT_FOUND, HTMPFS_DIR_NOT_EMPTY,
     HTMPFS_INVALID_DENTRY_NAME, HTMPFS_INVALID_WRITE_INVOKE, HTMPFS_INVALID_READ_INVOKE,
     HTMPFS_CANNOT_REMOVE_ROOT]"

definition what :: "HTMPFS_error \<Rightarrow> string" where
  "what e = (case find (\<lambda>c. err_value c = error_code e) switch_cases of
       Some c \<Rightarrow> err_text c
     | None \<Rightarrow> ''Unknown error'')"

definition fill_out_errno :: "HTMPFS_error \<Rightarrow> HTMPFS_error" where
  "fill_out_errno e = (case find (\<lambda>c. err_value c = error_code e) (tl switch_cases) of
       Some c \<Rightarrow> e\<lparr>my_errno := err_errno c\<rparr>
     | None \<Rightarrow> e)"

text \<open>The constructor: \<open>_errno\<close> starts as 0 and is filled in from the code.\<close>

definition new_error :: "nat \<Rightarrow> string \<Rightarrow> HTMPFS_error" where
  "new_error code msg = fill_out_errno \<lparr>error_code = code mod 2 ^ 32, my_errno = 0, err_info = msg\<rparr>"

lemma what_fill_out_errno: "what (fill_out_errno e) = what e"
  by (simp add: what_def fill_out_errno_def split: option.splits)

definition errno_of :: "htmpfs_code \<Rightarrow> nat" where
  "errno_of c = my_errno (new_error (err_value c) ''(no specified information)'')"

lemma err_value_32 [simp]: "err_value c mod 2 ^ 32 = err_value c"
  by (cases c) simp_all

lemma err_value_inj: "err_value c = err_value d \<longleftrightarrow> c = d"
  by (cases c; cases d) simp_all

lemma find_switch_case:
  "find (\<lambda>d. err_value d = err_value c) switch_cases = (if c \<in> set switch_cases then Some c else None)"
  unfolding err_value_inj switch_cases_def by auto

lemma find_errno_case:
  "find (\<lambda>d. err_value d = err_value c) (tl switch_cases) = (if c \<in> set (tl switch_cases) then Some c else None)"
  unfolding err_value_inj switch_cases_def list.sel by auto

lemma errno_of_eq: "errno_of c = (if c \<in> set switch_cases then err_errno c else 0)"
  unfolding errno_of_def new_error_def fill_out_errno_def err_value_32
  by (cases "c = HTMPFS_SUCCESSFUL") (simp_all add: find_errno_case, simp_all add: switch_cases_def)

text \<open>Codes that no switch names: the device layer and the unused block code.\<close>

lemma unnamed_codes:
  "c \<notin> set switch_cases \<longleftrightarrow>
     c \<in> {HTMPFS_BLOCK_NOT_FOUND, HTMPFS_CANNOT_OPEN_DEVICE, HTMPFS_CANNOT_LSEEK_DEVICE,
          HTMPFS_MEET_DEVICE_BOUNDARY, HTMPFS_BLOCK_SHORT_OPS}"
  by (cases c) (simp_all add: switch_cases_def)

end
