(* ===== verification/Dentry_Format.thy ===== *)
theory Dentry_Format
  imports Errors
begin

text \<open>
  The on-buffer format of a directory (\<open>directory_resolver.cpp\<close>): an 8-byte little-endian
  entry count, then one flat pack of 136 bytes per entry, 128 bytes for the name and 8 for
  the inode number. \<open>type_to_string\<close> and \<open>string_to_type\<close> copy the bytes of a value; the
  layout is that of a little-endian machine with 8-byte \<open>uint64_t\<close> and no padding.
\<close>

section \<open>Operations\<close>

record path_pack_t =
  pathname :: string
  pack_inode :: nat

record flat_path_pack_t =
  flat_pathname :: "char list"
  flat_inode :: nat

definition type_to_string_u64 :: "nat \<Rightarrow> string" where
  "type_to_string_u64 n = map (\<lambda>i. char_of (n div 256 ^ i)) [0..<8]"

definition type_to_string_flat :: "flat_path_pack_t \<Rightarrow> string" where
  "type_to_string_flat p = flat_pathname p @ type_to_string_u64 (flat_inode p)"

text \<open>
  \<open>string_to_type\<close> reads \<open>sizeof(Type)\<close> bytes at \<open>c_str()\<close>, which holds the string and one
  terminating NUL byte.
\<close>

definition c_str_bytes :: "nat \<Rightarrow> string \<Rightarrow> exc + char list" where
  "c_str_bytes n s = (if n \<le> length s + 1 then Inr (take n (s @ [NUL])) else Inl Undefined_behaviour)"

fun u64_of_bytes :: "char list \<Rightarrow> nat" where
  "u64_of_bytes [] = 0"
| "u64_of_bytes (c # cs) = of_char c + 256 * u64_of_bytes cs"

definition string_to_type_u64 :: "string \<Rightarrow> exc + nat" where
  "string_to_type_u64 s =
     (case c_str_bytes 8 s of Inl e \<Rightarrow> Inl e | Inr bs \<Rightarrow> Inr (u64_of_bytes bs))"

definition string_to_type_flat :: "string \<Rightarrow> exc + flat_path_pack_t" where
  "string_to_type_flat s =
     (case c_str_bytes 136 s of Inl e \<Rightarrow> Inl e
      | Inr bs \<Rightarrow> Inr \<lparr>flat_pathname = take 128 bs, flat_inode = u64_of_bytes (drop 128 bs)\<rparr>)"

text \<open>\<open>delete_elem_of_str_at_head\<close>: erase the first character, as often as the type has bytes.\<close>

definition delete_elem_of_str_at_head :: "nat \<Rightarrow> string \<Rightarrow> string" where
  "delete_elem_of_str_at_head n s = ((\<lambda>s. if s \<noteq> [] then tl s else s) ^^ n) s"

text \<open>\<open>strcpy\<close> from an array: the bytes up to the first NUL, which must lie in the array.\<close>

definition c_strcpy :: "char list \<Rightarrow> exc + string" where
  "c_strcpy arr = (if NUL \<in> set arr then Inr (takeWhile (\<lambda>c. c \<noteq> NUL) arr)
                   else Inl Undefined_behaviour)"

text \<open>\<open>memcpy\<close> of at most 128 bytes of the name into the zeroed array.\<close>

definition flatten_pack :: "path_pack_t \<Rightarrow> flat_path_pack_t" where
  "flatten_pack i =
     (let n = (if 128 < length (pathname i) then 128 else length (pathname i))
      in \<lparr>flat_pathname = take n (pathname i) @ replicate (128 - n) NUL, flat_inode = pack_inode i\<rparr>)"

text \<open>The string that \<open>save_current\<close> builds and the loop of \<open>refresh\<close> that reads it.\<close>

definition encode_dentry :: "path_pack_t list \<Rightarrow> string" where
  "encode_dentry path =
     foldl (\<lambda>r i. r @ type_to_string_flat (flatten_pack i)) (type_to_string_u64 (length path)) path"

fun decode_loop :: "nat \<Rightarrow> string \<Rightarrow> path_pack_t list \<Rightarrow> exc + path_pack_t list" where
  "decode_loop 0 s path = Inr path"
| "decode_loop (Suc n) s path =
     (case string_to_type_flat s of
        Inl e \<Rightarrow> Inl e
      | Inr flat \<Rightarrow>
          (case c_strcpy (flat_pathname flat) of
             Inl e \<Rightarrow> Inl e
           | Inr name \<Rightarrow>
               decode_loop n (delete_elem_of_str_at_head 136 s)
                 (path @ [\<lparr>pathname = name, pack_inode = flat_inode flat\<rparr>])))"

definition decode_dentry :: "string \<Rightarrow> exc + path_pack_t list" where
  "decode_dentry all_path =
     (if all_path = [] then Inr []
      else (case string_to_type_u64 all_path of
              Inl e \<Rightarrow> Inl e
            | Inr count \<Rightarrow> decode_loop count (delete_elem_of_str_at_head 8 all_path) []))"

section \<open>Numbers as bytes\<close>

lemma length_u64 [simp]: "length (type_to_string_u64 n) = 8"
  by (simp add: type_to_string_u64_def)

lemma u64_of_bytes_digits:
  "u64_of_bytes (map (\<lambda>i. char_of (n div 256 ^ i)) [k..<k + m]) = n div 256 ^ k mod 256 ^ m"
proof (induction m arbitrary: k)
  case 0
  then show ?case by simp
next
  case (Suc m)
  have "[k..<k + Suc m] = k # [Suc k..<Suc k + m]"
    by (simp add: upt_rec)
  then have "u64_of_bytes (map (\<lambda>i. char_of (n div 256 ^ i)) [k..<k + Suc m])
      = n div 256 ^ k mod 256 + 256 * (n div 256 ^ Suc k mod 256 ^ m)"
    using Suc.IH [of "Suc k"] by simp
  also have "n div 256 ^ Suc k = n div 256 ^ k div 256"
    by (metis div_mult2_eq power_Suc2)
  also have "n div 256 ^ k mod 256 + 256 * (n div 256 ^ k div 256 mod 256 ^ m)
      = n div 256 ^ k mod 256 ^ Suc m"
    by (simp add: mod_mult2_eq)
  finally show ?case .
qed

lemma u64_of_bytes_u64: "n < 2 ^ 64 \<Longrightarrow> u64_of_bytes (type_to_string_u64 n) = n"
  using u64_of_bytes_digits [of n 0 8] by (simp add: type_to_string_u64_def)

section \<open>Reading back what was written\<close>

lemma delete_head_eq [simp]: "delete_elem_of_str_at_head n s = drop n s"
proof -
  have "(\<lambda>s :: string. if s \<noteq> [] then tl s else s) = tl" by (auto simp: fun_eq_iff)
  moreover have "(tl ^^ n) s = drop n s"
    by (induction n) (simp_all add: tl_drop drop_Suc)
  ultimately show ?thesis by (simp only: delete_elem_of_str_at_head_def)
qed

lemma c_str_bytes_prefix: "length a = n \<Longrightarrow> c_str_bytes n (a @ s) = Inr a"
  by (simp add: c_str_bytes_def)

lemma string_to_type_u64_append: "n < 2 ^ 64 \<Longrightarrow> string_to_type_u64 (type_to_string_u64 n @ s) = Inr n"
  by (simp add: string_to_type_u64_def c_str_bytes_prefix u64_of_bytes_u64)

lemma length_flat_pathname [simp]: "length (flat_pathname (flatten_pack p)) = 128"
  by (simp add: flatten_pack_def)

lemma flat_inode_flatten [simp]: "flat_inode (flatten_pack p) = pack_inode p"
  by (simp add: flatten_pack_def)

lemma length_type_to_string_flat [simp]: "length (type_to_string_flat (flatten_pack p)) = 136"
  by (simp add: type_to_string_flat_def)

lemma string_to_type_flat_append:
  assumes "pack_inode p < 2 ^ 64"
  shows "string_to_type_flat (type_to_string_flat (flatten_pack p) @ s) = Inr (flatten_pack p)"
proof -
  have "c_str_bytes 136 (type_to_string_flat (flatten_pack p) @ s)
      = Inr (type_to_string_flat (flatten_pack p))"
    by (simp add: c_str_bytes_prefix)
  with assms show ?thesis
    by (simp add: string_to_type_flat_def type_to_string_flat_def u64_of_bytes_u64)
qed

text \<open>A name that survives the flat pack: shorter than 128 bytes, without NUL.\<close>

definition storable_name :: "string \<Rightarrow> bool" where
  "storable_name n \<longleftrightarrow> length n < 128 \<and> NUL \<notin> set n"

definition storable_pack :: "path_pack_t \<Rightarrow> bool" where
  "storable_pack p \<longleftrightarrow> storable_name (pathname p) \<and> pack_inode p < 2 ^ 64"

lemma takeWhile_NUL: "NUL \<notin> set n \<Longrightarrow> takeWhile (\<lambda>c. c \<noteq> NUL) (n @ NUL # r) = n"
  by (induction n) auto

lemma c_strcpy_flatten:
  assumes "storable_name (pathname p)"
  shows "c_strcpy (flat_pathname (flatten_pack p)) = Inr (pathname p)"
proof -
  obtain m where m: "128 - length (pathname p) = Suc m"
    using assms by (metis storable_name_def Suc_diff_Suc)
  show ?thesis
    using assms by (simp add: c_strcpy_def flatten_pack_def m storable_name_def takeWhile_NUL)
qed

text \<open>A longer name fills the whole array and leaves no terminator.\<close>

lemma c_strcpy_too_long:
  assumes "128 \<le> length (pathname p)" and "NUL \<notin> set (pathname p)"
  shows "c_strcpy (flat_pathname (flatten_pack p)) = Inl Undefined_behaviour"
proof -
  have "flat_pathname (flatten_pack p) = take 128 (pathname p)"
    using assms(1) by (auto simp: flatten_pack_def)
  moreover have "NUL \<notin> set (take 128 (pathname p))"
    using assms(2) by (meson in_set_takeD)
  ultimately show ?thesis by (simp add: c_strcpy_def)
qed

lemma encode_dentry_eq:
  "encode_dentry path =
     type_to_string_u64 (length path) @ concat (map (\<lambda>i. type_to_string_flat (flatten_pack i)) path)"
proof -
  have "foldl (\<lambda>r i. r @ type_to_string_flat (flatten_pack i)) a xs
      = a @ concat (map (\<lambda>i. type_to_string_flat (flatten_pack i)) xs)" for a xs
    by (induction xs arbitrary: a) simp_all
  then show ?thesis by (simp add: encode_dentry_def)
qed

lemma length_encode_dentry: "length (encode_dentry path) = 8 + 136 * length path"
  by (simp add: encode_dentry_eq length_concat comp_def sum_list_triv)

lemma encode_dentry_not_Nil [simp]: "encode_dentry path \<noteq> []"
  using length_encode_dentry [of path] by (metis add_is_0 list.size(3) zero_neq_numeral)

lemma pack_eta: "x @ \<lparr>pathname = pathname p, pack_inode = pack_inode p\<rparr> # y = x @ p # y"
  by simp

lemma decode_dentry_encode:
  "length path < 2 ^ 64 \<Longrightarrow> decode_dentry (encode_dentry path)
     = decode_loop (length path) (concat (map (\<lambda>i. type_to_string_flat (flatten_pack i)) path)) []"
  unfolding decode_dentry_def
  by (simp only: encode_dentry_not_Nil if_False) (simp add: encode_dentry_eq string_to_type_u64_append)

lemma decode_loop_append:
  "\<forall>p\<in>set ps. storable_pack p \<Longrightarrow>
   decode_loop (length ps + n) (concat (map (\<lambda>i. type_to_string_flat (flatten_pack i)) ps) @ s) acc
     = decode_loop n s (acc @ ps)"
proof (induction ps arbitrary: acc)
  case Nil
  then show ?case by simp
next
  case (Cons p ps)
  from Cons show ?case
    by (simp add: string_to_type_flat_append storable_pack_def c_strcpy_flatten pack_eta)
qed

lemma decode_encode_dentry:
  assumes "\<forall>p\<in>set ps. storable_pack p" and "length ps < 2 ^ 64"
  shows "decode_dentry (encode_dentry ps) = Inr ps"
proof -
  have "decode_dentry (encode_dentry ps)
      = decode_loop (length ps + 0) (concat (map (\<lambda>i. type_to_string_flat (flatten_pack i)) ps) @ []) []"
    using decode_dentry_encode [OF assms(2)] by simp
  also have "\<dots> = Inr ps"
    using decode_loop_append [OF assms(1), of 0 "[]" "[]"] by simp
  finally show ?thesis .
qed

lemma decode_too_long:
  assumes "\<forall>p\<in>set ps. storable_pack p" and "pack_inode q < 2 ^ 64"
    and "128 \<le> length (pathname q)" and "NUL \<notin> set (pathname q)"
    and "length (ps @ q # qs) < 2 ^ 64"
  shows "decode_dentry (encode_dentry (ps @ q # qs)) = Inl Undefined_behaviour"
proof -
  let ?f = "\<lambda>i. type_to_string_flat (flatten_pack i)"
  have "decode_dentry (encode_dentry (ps @ q # qs))
      = decode_loop (length ps + Suc (length qs)) (concat (map ?f ps) @ ?f q @ concat (map ?f qs)) []"
    using decode_dentry_encode [OF assms(5)] by simp
  also have "\<dots> = decode_loop (Suc (length qs)) (?f q @ concat (map ?f qs)) ps"
    using decode_loop_append [OF assms(1), of "Suc (length qs)" "?f q @ concat (map ?f qs)" "[]"]
    by (simp only: append.simps)
  also have "\<dots> = Inl Undefined_behaviour"
    using assms by (simp add: string_to_type_flat_append c_strcpy_too_long)
  finally show ?thesis .
qed

end
