(* ===== verification/Std_Map.thy ===== *)
theory Std_Map
  imports Prelude
begin

text \<open>
  The standard containers the code uses: \<open>std::map\<close> as an association list in key
  order, with the operations \<open>find\<close>, \<open>emplace\<close>, \<open>erase\<close>, \<open>size\<close> and the in-place update
  of a found entry; and \<open>std::vector::at\<close>.
\<close>

type_synonym ('k, 'v) std_map = "('k \<times> 'v) list"

section \<open>Operations\<close>

fun map_insert :: "'k::linorder \<Rightarrow> 'v \<Rightarrow> ('k, 'v) std_map \<Rightarrow> ('k, 'v) std_map" where
  "map_insert k v [] = [(k, v)]"
| "map_insert k v ((a, b) # m) =
     (if k < a then (k, v) # (a, b) # m else (a, b) # map_insert k v m)"

text \<open>\<open>emplace\<close> leaves the map alone when the key is present.\<close>

definition map_emplace :: "'k::linorder \<Rightarrow> 'v \<Rightarrow> ('k, 'v) std_map \<Rightarrow> ('k, 'v) std_map" where
  "map_emplace k v m = (case map_of m k of None \<Rightarrow> map_insert k v m | Some _ \<Rightarrow> m)"

text \<open>Writing through an iterator or a reference to the value of an existing key.\<close>

fun map_assign :: "'k \<Rightarrow> 'v \<Rightarrow> ('k, 'v) std_map \<Rightarrow> ('k, 'v) std_map" where
  "map_assign k v [] = []"
| "map_assign k v ((a, b) # m) = (if a = k then (a, v) # m else (a, b) # map_assign k v m)"

definition map_erase :: "'k \<Rightarrow> ('k, 'v) std_map \<Rightarrow> ('k, 'v) std_map" where
  "map_erase k m = filter (\<lambda>e. fst e \<noteq> k) m"

definition map_ok :: "('k::linorder, 'v) std_map \<Rightarrow> bool" where
  "map_ok m \<longleftrightarrow> sorted_wrt (<) (map fst m)"

section \<open>Laws\<close>

lemma map_of_insert:
  "map_of m k = None \<Longrightarrow> map_of (map_insert k v m) = (map_of m)(k \<mapsto> v)"
  by (induction m) (auto split: if_splits)

lemma map_of_emplace:
  "map_of (map_emplace k v m) = (if map_of m k = None then (map_of m)(k \<mapsto> v) else map_of m)"
  by (auto simp: map_emplace_def map_of_insert split: option.splits)

lemma map_of_emplace_new [simp]:
  "map_of m k = None \<Longrightarrow> map_of (map_emplace k v m) = (map_of m)(k \<mapsto> v)"
  by (simp add: map_of_emplace)

lemma map_of_assign:
  "map_of (map_assign k v m) = (if map_of m k = None then map_of m else (map_of m)(k \<mapsto> v))"
  by (induction m) (auto simp: fun_eq_iff)

lemma map_of_assign_old [simp]:
  "map_of m k = Some w \<Longrightarrow> map_of (map_assign k v m) = (map_of m)(k \<mapsto> v)"
  by (simp add: map_of_assign)

lemma map_of_erase [simp]: "map_of (map_erase k m) = (map_of m)(k := None)"
  by (induction m) (auto simp: map_erase_def fun_eq_iff)

lemma map_keys_assign [simp]: "map fst (map_assign k v m) = map fst m"
  by (induction m) auto

lemma length_map_assign [simp]: "length (map_assign k v m) = length m"
  by (induction m) auto

lemma set_keys_insert: "fst ` set (map_insert k v m) = insert k (fst ` set m)"
proof (induction m)
  case Nil
  then show ?case by simp
next
  case (Cons e m)
  then show ?case by (cases e) (simp add: insert_commute)
qed

lemma length_map_insert: "length (map_insert k v m) = Suc (length m)"
  by (induction m) auto

lemma length_map_emplace: "length (map_emplace k v m) \<le> Suc (length m)"
  by (simp add: map_emplace_def length_map_insert split: option.splits)

lemma length_map_erase: "length (map_erase k m) \<le> length m"
  by (simp add: map_erase_def)

lemma map_ok_Nil [simp]: "map_ok []"
  by (simp add: map_ok_def)

lemma map_ok_Cons: "map_ok ((a, b) # m) \<longleftrightarrow> (\<forall>x\<in>set (map fst m). a < x) \<and> map_ok m"
  by (simp add: map_ok_def)

lemma map_ok_insert: "map_ok m \<Longrightarrow> map_of m k = None \<Longrightarrow> map_ok (map_insert k v m)"
proof (induction m)
  case Nil
  then show ?case by (simp add: map_ok_def)
next
  case (Cons e m)
  obtain a b where e: "e = (a, b)" by fastforce
  show ?case
  proof (cases "k < a")
    case True
    with Cons.prems show ?thesis by (auto simp: e map_ok_Cons)
  next
    case False
    with Cons.prems have "a < k" and "map_of m k = None"
      by (auto simp: e split: if_splits)
    with False Cons show ?thesis
      by (auto simp: e map_ok_Cons set_keys_insert)
  qed
qed

lemma map_ok_emplace [simp]: "map_ok m \<Longrightarrow> map_ok (map_emplace k v m)"
  by (auto simp: map_emplace_def map_ok_insert split: option.splits)

lemma map_ok_assign [simp]: "map_ok (map_assign k v m) = map_ok m"
  by (simp add: map_ok_def)

lemma map_ok_erase [simp]: "map_ok m \<Longrightarrow> map_ok (map_erase k m)"
  by (induction m) (auto simp: map_erase_def map_ok_Cons)

lemma map_ok_distinct: "map_ok m \<Longrightarrow> distinct (map fst m)"
  by (simp add: map_ok_def strict_sorted_iff)

section \<open>The map as an interface\<close>

text \<open>
  What the pools of the file system rely on: looking a key up after each operation, and
  finitely many keys, so that a free number exists. The locale is interpreted below on
  the ordered association lists.
\<close>

locale keyed_store =
  fixes find :: "'m \<Rightarrow> nat \<Rightarrow> 'v option"
    and emplace :: "nat \<Rightarrow> 'v \<Rightarrow> 'm \<Rightarrow> 'm"
    and erase :: "nat \<Rightarrow> 'm \<Rightarrow> 'm"
    and size_of :: "'m \<Rightarrow> nat"
    and inv :: "'m \<Rightarrow> bool"
  assumes find_emplace: "find m k = None \<Longrightarrow> find (emplace k v m) = (find m)(k \<mapsto> v)"
    and find_erase: "find (erase k m) = (find m)(k := None)"
    and finite_keys: "finite {k. find m k \<noteq> None}"
    and size_card: "inv m \<Longrightarrow> size_of m = card {k. find m k \<noteq> None}"
    and inv_emplace: "inv m \<Longrightarrow> inv (emplace k v m)"
    and inv_erase: "inv m \<Longrightarrow> inv (erase k m)"
begin

lemma find_emplace_other: "find m k = None \<Longrightarrow> j \<noteq> k \<Longrightarrow> find (emplace k v m) j = find m j"
  by (simp add: find_emplace)

lemma erase_emplace: "find m k = None \<Longrightarrow> find (erase k (emplace k v m)) = find m"
  by (auto simp: find_emplace find_erase)

lemma size_emplace:
  assumes "inv m" and "find m k = None"
  shows "size_of (emplace k v m) = Suc (size_of m)"
proof -
  have "{j. find (emplace k v m) j \<noteq> None} = insert k {j. find m j \<noteq> None}"
    using assms(2) by (auto simp: find_emplace)
  then show ?thesis
    using assms finite_keys [of m] by (simp add: size_card inv_emplace)
qed

text \<open>Among the numbers from \<open>size\<close> to twice the size one is not a key.\<close>

lemma free_key_exists:
  assumes "inv m"
  shows "\<exists>k \<ge> size_of m. k \<le> 2 * size_of m \<and> find m k = None"
proof (rule ccontr)
  assume "\<not> ?thesis"
  then have "{size_of m .. 2 * size_of m} \<subseteq> {k. find m k \<noteq> None}" by auto
  then have "card {size_of m .. 2 * size_of m} \<le> card {k. find m k \<noteq> None}"
    using finite_keys card_mono by blast
  then show False using assms by (simp add: size_card)
qed

end

lemma card_keys: "map_ok m \<Longrightarrow> card {k. map_of m k \<noteq> None} = length m"
proof -
  assume ok: "map_ok m"
  have "{k. map_of m k \<noteq> None} = set (map fst m)"
    by (auto simp: map_of_eq_None_iff)
  then show ?thesis
    using ok by (metis distinct_card length_map map_ok_distinct)
qed

interpretation id_map: keyed_store map_of map_emplace map_erase length map_ok
proof
  show "finite {k. map_of m k \<noteq> None}" for m :: "(nat, 'v) std_map"
    using finite_dom_map_of [of m] by (simp add: dom_def)
qed (simp_all only: card_keys map_ok_emplace map_ok_erase map_of_emplace_new map_of_erase)

end
