(* ===== verification/Buffer_T.thy ===== *)
theory Buffer_T
  imports Errors
begin

text \<open>
  \<open>buffer_t\<close>: a resizable byte buffer, the storage of one block. Its only member is the
  byte vector \<open>data\<close>, so the class is modelled by that vector; \<open>char\<close> is a byte. A source
  or destination pointer of the caller is the list of the bytes it points to, and a copy
  that would leave the buffer or that list is undefined behaviour.
\<close>

type_synonym data_t = "char list"
type_synonym buffer_t = data_t

section \<open>Operations\<close>

text \<open>\<open>data.emplace_back(0)\<close> and \<open>data.pop_back()\<close>, repeated by the resizing loops.\<close>

definition emplace_zeros :: "nat \<Rightarrow> data_t \<Rightarrow> data_t" where
  "emplace_zeros n d = ((\<lambda>d. d @ [NUL]) ^^ n) d"

definition pop_backs :: "nat \<Rightarrow> data_t \<Rightarrow> data_t" where
  "pop_backs n d = (butlast ^^ n) d"

text \<open>The constructor: \<open>length\<close> bytes read from the given pointer, one at a time.\<close>

fun construct_loop :: "data_t \<Rightarrow> nat \<Rightarrow> nat \<Rightarrow> data_t \<Rightarrow> exc + buffer_t" where
  "construct_loop src 0 i d = Inr d"
| "construct_loop src (Suc n) i d =
     (if i < length src then construct_loop src n (Suc i) (d @ [src ! i])
      else Inl Undefined_behaviour)"

definition new_buffer_t :: "data_t \<Rightarrow> nat \<Rightarrow> exc + buffer_t" where
  "new_buffer_t src len = construct_loop src len 0 []"

text \<open>\<open>buffer[i] = data[i + offset]\<close> for \<open>i\<close> below the count; the result is what is copied.\<close>

fun read_loop :: "data_t \<Rightarrow> nat \<Rightarrow> nat \<Rightarrow> nat \<Rightarrow> exc + data_t" where
  "read_loop d 0 i offset = Inr []"
| "read_loop d (Suc n) i offset =
     (let k = add64 i offset in
      if k < length d
      then (case read_loop d n (Suc i) offset of Inl e \<Rightarrow> Inl e | Inr cs \<Rightarrow> Inr (d ! k # cs))
      else Inl Undefined_behaviour)"

definition buffer_read :: "buffer_t \<Rightarrow> nat \<Rightarrow> nat \<Rightarrow> exc + data_t" where
  "buffer_read d len offset =
     (let read_size =
        (if offset > length d then 0
         else if length d < add64 len offset then length d - offset
         else len)
      in read_loop d read_size 0 offset)"

text \<open>\<open>data[offset + i] = buffer[i]\<close> for \<open>i\<close> below the count.\<close>

fun write_loop :: "data_t \<Rightarrow> data_t \<Rightarrow> nat \<Rightarrow> nat \<Rightarrow> nat \<Rightarrow> exc + data_t" where
  "write_loop d src 0 i offset = Inr d"
| "write_loop d src (Suc n) i offset =
     (let k = add64 offset i in
      if k < length d \<and> i < length src
      then write_loop (d[k := src ! i]) src n (Suc i) offset
      else Inl Undefined_behaviour)"

text \<open>The result is the new contents and the number of bytes written.\<close>

definition buffer_write :: "buffer_t \<Rightarrow> data_t \<Rightarrow> nat \<Rightarrow> nat \<Rightarrow> bool \<Rightarrow> exc + buffer_t \<times> nat" where
  "buffer_write d src len offset resize =
     (let (d', write_size) =
        (if \<not> resize then
           (if offset > length d then (d, 0)
            else if length d < add64 len offset then (d, length d - offset)
            else (d, len))
         else if add64 len offset > length d
         then (emplace_zeros (sub64 (add64 len offset) (length d)) d, len)
         else (pop_backs (sub64 (length d) (add64 len offset)) d, len))
      in case write_loop d' src write_size 0 offset of
           Inl e \<Rightarrow> Inl e
         | Inr d'' \<Rightarrow> Inr (d'', write_size))"

definition buffer_to_string :: "buffer_t \<Rightarrow> string" where
  "buffer_to_string d = d"

definition buffer_empty :: "buffer_t \<Rightarrow> bool" where
  "buffer_empty d = (d = [])"

definition buffer_size :: "buffer_t \<Rightarrow> nat" where
  "buffer_size d = length d"

text \<open>\<open>hash64\<close> applies the standard library's string hash, a parameter here.\<close>

definition hash64 :: "(string \<Rightarrow> nat) \<Rightarrow> buffer_t \<Rightarrow> nat" where
  "hash64 std_hash d = std_hash (buffer_to_string d)"

definition buffer_truncate :: "buffer_t \<Rightarrow> nat \<Rightarrow> buffer_t" where
  "buffer_truncate d len =
     (if len > length d then emplace_zeros (len - length d) d
      else if len < length d then pop_backs (length d - len) d
      else d)"

section \<open>What the loops compute\<close>

lemma emplace_zeros_eq [simp]: "emplace_zeros n d = d @ replicate n NUL"
  by (simp add: emplace_zeros_def append_replicate_snoc)

lemma pop_backs_eq [simp]: "pop_backs n d = take (length d - n) d"
  by (simp add: pop_backs_def butlast_funpow)

lemma construct_loop_eq:
  "i + n \<le> length src \<Longrightarrow> construct_loop src n i d = Inr (d @ take n (drop i src))"
proof (induction n arbitrary: i d)
  case 0
  then show ?case by simp
next
  case (Suc n)
  then show ?case by (simp add: Cons_nth_drop_Suc [symmetric])
qed

lemma read_loop_eq:
  "i + offset + n \<le> length d \<Longrightarrow> length d < 2 ^ 64 \<Longrightarrow>
   read_loop d n i offset = Inr (take n (drop (i + offset) d))"
proof (induction n arbitrary: i)
  case 0
  then show ?case by simp
next
  case (Suc n)
  have k: "add64 i offset = i + offset" using Suc.prems by (simp add: u64_simps)
  have "read_loop d n (Suc i) offset = Inr (take n (drop (Suc i + offset) d))"
    using Suc.prems by (intro Suc.IH) simp_all
  then show ?case
    using Suc.prems by (simp add: k Cons_nth_drop_Suc [symmetric])
qed

lemma write_loop_eq:
  "offset + i + n \<le> length d \<Longrightarrow> i + n \<le> length src \<Longrightarrow> length d < 2 ^ 64 \<Longrightarrow>
   write_loop d src n i offset
     = Inr (take (offset + i) d @ take n (drop i src) @ drop (offset + i + n) d)"
proof (induction n arbitrary: i d)
  case 0
  then show ?case by simp
next
  case (Suc n)
  have k: "add64 offset i = offset + i" using Suc.prems by (simp add: u64_simps)
  let ?d = "d[offset + i := src ! i]"
  have "write_loop d src (Suc n) i offset = write_loop ?d src n (Suc i) offset"
    using Suc.prems by (simp add: k)
  also have "\<dots> = Inr (take (offset + Suc i) ?d @ take n (drop (Suc i) src) @ drop (offset + Suc i + n) ?d)"
    using Suc.prems by (intro Suc.IH) simp_all
  also have "take (offset + Suc i) ?d = take (offset + i) d @ [src ! i]"
    using Suc.prems by (simp add: take_Suc_conv_app_nth)
  also have "drop (offset + Suc i + n) ?d = drop (offset + i + Suc n) d"
    by simp
  finally show ?case
    using Suc.prems by (simp add: Cons_nth_drop_Suc [symmetric])
qed

section \<open>Functional behaviour\<close>

lemma new_buffer_t_eq: "len \<le> length src \<Longrightarrow> new_buffer_t src len = Inr (take len src)"
  by (simp add: new_buffer_t_def construct_loop_eq)

text \<open>Reading never leaves the buffer as long as \<open>offset + len\<close> does not wrap.\<close>

lemma buffer_read_eq:
  assumes "offset + len < 2 ^ 64" and "length d < 2 ^ 64"
  shows "buffer_read d len offset = Inr (take len (drop offset d))"
proof -
  have a: "add64 len offset = len + offset" using assms by (simp add: u64_simps add.commute)
  consider "offset > length d" | "offset \<le> length d" "length d < len + offset"
    | "offset \<le> length d" "len + offset \<le> length d" by linarith
  then show ?thesis
    using assms(2) by cases (simp_all add: buffer_read_def a read_loop_eq)
qed

lemma buffer_write_resize_eq:
  assumes "offset + len < 2 ^ 64" and "length d < 2 ^ 64" and "len \<le> length src"
  shows "buffer_write d src len offset True
    = Inr (take offset (d @ replicate (offset - length d) NUL) @ take len src, len)"
proof -
  have a: "add64 len offset = len + offset" using assms by (simp add: u64_simps add.commute)
  show ?thesis
  proof (cases "len + offset > length d")
    case True
    then have "sub64 (add64 len offset) (length d) = len + offset - length d"
      using assms by (simp add: a sub64_small)
    with True assms show ?thesis
      by (simp add: buffer_write_def a write_loop_eq)
  next
    case False
    then have "sub64 (length d) (add64 len offset) = length d - (len + offset)"
      using assms by (simp add: a sub64_small)
    with False assms show ?thesis
      by (simp add: buffer_write_def a write_loop_eq min_def)
  qed
qed

lemma buffer_write_fixed_eq:
  assumes "offset + len < 2 ^ 64" and "length d < 2 ^ 64" and "len \<le> length src"
    and "offset + len \<le> length d"
  shows "buffer_write d src len offset False
    = Inr (take offset d @ take len src @ drop (offset + len) d, len)"
proof -
  have a: "add64 len offset = len + offset" using assms by (simp add: u64_simps add.commute)
  show ?thesis
    using assms by (simp add: buffer_write_def a write_loop_eq)
qed

text \<open>Without resizing, what does not fit is dropped and the count says so.\<close>

lemma buffer_write_clipped:
  assumes "offset + len < 2 ^ 64" and "length d < 2 ^ 64" and "len \<le> length src"
    and "offset + len > length d"
  shows "buffer_write d src len offset False
    = Inr (take offset d @ take (length d - offset) src, length d - offset)"
proof -
  have a: "add64 len offset = len + offset" using assms by (simp add: u64_simps add.commute)
  show ?thesis
    using assms by (auto simp: buffer_write_def a write_loop_eq)
qed

lemma buffer_truncate_eq: "buffer_truncate d len = take len (d @ replicate (len - length d) NUL)"
  by (simp add: buffer_truncate_def)

lemma length_buffer_truncate [simp]: "length (buffer_truncate d len) = len"
  by (simp add: buffer_truncate_def)

end
