(* ===== verification/Buffer_Pool.thy ===== *)
theory Buffer_Pool
  imports Std_Map Buffer_T
begin

text \<open>
  The block pool of \<open>inode_smi_t\<close>: reference-counted buffers by number, the search for a
  free number (\<open>get_free_id\<close>), allocation, lookup, link and unlink.
\<close>

section \<open>State\<close>

record buffer_pack_t =
  buf_link_count :: nat
  buffer :: buffer_t

type_synonym buffer_pool_t = "(nat, buffer_pack_t) std_map"

text \<open>
  A \<open>buffer_result_t\<close> carries the number of a buffer, a pointer to it and the frozen bit.
  The pointer is to the pool's node of that number (map nodes do not move), so it is
  dereferenced through the number; a node that has been erased is a dangling pointer.
\<close>

record buffer_result_t =
  buf_id :: nat
  is_snapshoted :: bool

text \<open>
  \<open>max_size()\<close> of the two pools: \<open>PTRDIFF_MAX\<close> over the size of a tree node, 72 and 272
  bytes on a 64-bit Linux.
\<close>

definition buffer_pool_max_size :: nat where
  "buffer_pool_max_size = (2 ^ 63 - 1) div 72"

definition inode_pool_max_size :: nat where
  "inode_pool_max_size = (2 ^ 63 - 1) div 272"

section \<open>Operations\<close>

text \<open>
  The loop of \<open>get_free_id\<close>. The number it stops at is at most twice the pool's size
  (\<open>free_scan_le\<close>), so the counter stays far below \<open>2 ^ 64\<close> and \<open>id++\<close> is the successor.
\<close>

function free_scan :: "(nat, 'v) std_map \<Rightarrow> nat \<Rightarrow> nat" where
  "free_scan pool i = (if map_of pool i \<noteq> None then free_scan pool (Suc i) else i)"
  by pat_completeness auto
termination
proof (relation "measure (\<lambda>(pool, i). card {k \<in> fst ` set pool. i \<le> k})", goal_cases)
  case 1
  show ?case by simp
next
  case (2 pool i)
  then have "i \<in> fst ` set pool" by (simp add: map_of_eq_None_iff)
  then have "{k \<in> fst ` set pool. Suc i \<le> k} \<subset> {k \<in> fst ` set pool. i \<le> k}"
    by (auto simp: Suc_le_eq order_less_imp_le)
  then show ?case by (simp add: psubset_card_mono)
qed

declare free_scan.simps [simp del]

definition get_free_id :: "nat \<Rightarrow> (nat, 'v) std_map \<Rightarrow> exc + nat" where
  "get_free_id max_size pool =
     (if length pool = max_size then Inl (HTMPFS_error_t HTMPFS_BUFFER_ID_DEPLETED)
      else Inr (free_scan pool (length pool)))"

definition request_buffer_allocation :: "(buffer_pool_t, exc, buffer_result_t) exec" where
  "request_buffer_allocation =
     bindx (getx (get_free_id buffer_pool_max_size)) (\<lambda>r.
     bindx (liftx r) (\<lambda>i.
     bindx (modifyx (map_emplace i \<lparr>buf_link_count = 1, buffer = []\<rparr>)) (\<lambda>_.
     ret \<lparr>buf_id = i, is_snapshoted = False\<rparr>)))"

definition get_buffer_by_id :: "nat \<Rightarrow> (buffer_pool_t, exc, nat) exec" where
  "get_buffer_by_id i =
     bindx (getx (\<lambda>pool. map_of pool i)) (\<lambda>p.
     case p of None \<Rightarrow> throw (HTMPFS_error_t HTMPFS_REQUESTED_BUFFER_NOT_FOUND)
     | Some _ \<Rightarrow> ret i)"

definition link_buffer :: "nat \<Rightarrow> (buffer_pool_t, exc, unit) exec" where
  "link_buffer i =
     bindx (getx (\<lambda>pool. map_of pool i)) (\<lambda>p.
     case p of None \<Rightarrow> throw (HTMPFS_error_t HTMPFS_REQUESTED_BUFFER_NOT_FOUND)
     | Some pk \<Rightarrow> modifyx (map_assign i (pk\<lparr>buf_link_count := add64 (buf_link_count pk) 1\<rparr>)))"

definition unlink_buffer :: "nat \<Rightarrow> (buffer_pool_t, exc, unit) exec" where
  "unlink_buffer i =
     bindx (getx (\<lambda>pool. map_of pool i)) (\<lambda>p.
     case p of None \<Rightarrow> throw (HTMPFS_error_t HTMPFS_REQUESTED_BUFFER_NOT_FOUND)
     | Some pk \<Rightarrow>
         if buf_link_count pk = 1 then modifyx (map_erase i)
         else modifyx (map_assign i (pk\<lparr>buf_link_count := sub64 (buf_link_count pk) 1\<rparr>)))"

text \<open>Dereferencing the \<open>data\<close> pointer of a block, for reading and for writing.\<close>

definition deref_buffer :: "nat \<Rightarrow> (buffer_pool_t, exc, buffer_t) exec" where
  "deref_buffer i =
     bindx (getx (\<lambda>pool. map_of pool i)) (\<lambda>p.
     case p of None \<Rightarrow> throw Undefined_behaviour | Some pk \<Rightarrow> ret (buffer pk))"

definition store_buffer :: "nat \<Rightarrow> buffer_t \<Rightarrow> (buffer_pool_t, exc, unit) exec" where
  "store_buffer i d =
     bindx (getx (\<lambda>pool. map_of pool i)) (\<lambda>p.
     case p of None \<Rightarrow> throw Undefined_behaviour
     | Some pk \<Rightarrow> modifyx (map_assign i (pk\<lparr>buffer := d\<rparr>)))"

text \<open>\<open>data->write(...)\<close> and \<open>data->truncate(...)\<close> through that pointer.\<close>

definition pool_write :: "nat \<Rightarrow> data_t \<Rightarrow> nat \<Rightarrow> nat \<Rightarrow> bool \<Rightarrow> (buffer_pool_t, exc, nat) exec" where
  "pool_write i src len offset resize =
     bindx (deref_buffer i) (\<lambda>d.
     bindx (liftx (buffer_write d src len offset resize)) (\<lambda>(d', n).
     bindx (store_buffer i d') (\<lambda>_. ret n)))"

definition pool_truncate :: "nat \<Rightarrow> nat \<Rightarrow> (buffer_pool_t, exc, unit) exec" where
  "pool_truncate i len = bindx (deref_buffer i) (\<lambda>d. store_buffer i (buffer_truncate d len))"

section \<open>Free numbers\<close>

lemma free_scan_free: "map_of pool (free_scan pool i) = None"
proof (induction pool i rule: free_scan.induct)
  case (1 pool i)
  then show ?case by (cases "map_of pool i = None") (simp_all add: free_scan.simps [of pool i])
qed

lemma free_scan_ge: "i \<le> free_scan pool i"
proof (induction pool i rule: free_scan.induct)
  case (1 pool i)
  then show ?case by (cases "map_of pool i = None") (simp_all add: free_scan.simps [of pool i])
qed

lemma free_scan_least: "i \<le> k \<Longrightarrow> map_of pool k = None \<Longrightarrow> free_scan pool i \<le> k"
proof (induction pool i rule: free_scan.induct)
  case (1 pool i)
  show ?case
  proof (cases "map_of pool i = None")
    case True
    with 1 show ?thesis by (simp add: free_scan.simps [of pool i])
  next
    case False
    with "1.prems" have "Suc i \<le> k" by (metis le_neq_implies_less Suc_leI)
    with False 1 show ?thesis by (simp add: free_scan.simps [of pool i])
  qed
qed

lemma free_scan_le: "map_ok pool \<Longrightarrow> free_scan pool (length pool) \<le> 2 * length pool"
  using id_map.free_key_exists [of pool] free_scan_least by (meson le_trans)

lemma get_free_id_fresh: "get_free_id n pool = Inr i \<Longrightarrow> map_of pool i = None"
  by (auto simp: get_free_id_def free_scan_free split: if_splits)

section \<open>Equations of the pool operations\<close>

lemma request_buffer_allocation_eq:
  assumes "length pool < buffer_pool_max_size"
  obtains i where "map_of pool i = None"
    and "request_buffer_allocation pool
      = (Inr \<lparr>buf_id = i, is_snapshoted = False\<rparr>, map_emplace i \<lparr>buf_link_count = 1, buffer = []\<rparr> pool)"
proof
  show "map_of pool (free_scan pool (length pool)) = None" by (rule free_scan_free)
  show "request_buffer_allocation pool
      = (Inr \<lparr>buf_id = free_scan pool (length pool), is_snapshoted = False\<rparr>,
         map_emplace (free_scan pool (length pool)) \<lparr>buf_link_count = 1, buffer = []\<rparr> pool)"
    using assms by (simp add: request_buffer_allocation_def get_free_id_def exec_simps)
qed

lemma request_buffer_allocation_depleted:
  "length pool = buffer_pool_max_size \<Longrightarrow>
   request_buffer_allocation pool = (Inl (HTMPFS_error_t HTMPFS_BUFFER_ID_DEPLETED), pool)"
  by (simp add: request_buffer_allocation_def get_free_id_def exec_simps)

lemma deref_buffer_eq [simp]:
  "map_of pool i = Some p \<Longrightarrow> deref_buffer i pool = (Inr (buffer p), pool)"
  by (simp add: deref_buffer_def exec_simps)

lemma store_buffer_eq [simp]:
  "map_of pool i = Some p \<Longrightarrow> store_buffer i d pool = (Inr (), map_assign i (p\<lparr>buffer := d\<rparr>) pool)"
  by (simp add: store_buffer_def exec_simps)

lemma link_buffer_eq [simp]:
  "map_of pool i = Some p \<Longrightarrow> link_buffer i pool
     = (Inr (), map_assign i (p\<lparr>buf_link_count := add64 (buf_link_count p) 1\<rparr>) pool)"
  by (simp add: link_buffer_def exec_simps)

lemma unlink_buffer_eq:
  "map_of pool i = Some p \<Longrightarrow> unlink_buffer i pool
     = (Inr (), if buf_link_count p = 1 then map_erase i pool
                else map_assign i (p\<lparr>buf_link_count := sub64 (buf_link_count p) 1\<rparr>) pool)"
  by (simp add: unlink_buffer_def exec_simps)

lemma pool_write_eq:
  "map_of pool i = Some p \<Longrightarrow> buffer_write (buffer p) src len offset resize = Inr (d, n) \<Longrightarrow>
   pool_write i src len offset resize pool = (Inr n, map_assign i (p\<lparr>buffer := d\<rparr>) pool)"
  by (simp add: pool_write_def exec_simps)

lemma pool_truncate_eq:
  "map_of pool i = Some p \<Longrightarrow>
   pool_truncate i len pool = (Inr (), map_assign i (p\<lparr>buffer := buffer_truncate (buffer p) len\<rparr>) pool)"
  by (simp add: pool_truncate_def exec_simps)

text \<open>
  The search for a free number ends for every pool, at the least number from the pool's size
  on that is not taken, which is at most twice the size.
\<close>

lemma free_number_found:
  assumes "map_ok pool" and "length pool \<noteq> max_size"
  shows "\<exists>k. get_free_id max_size pool = Inr k \<and> map_of pool k = None \<and> length pool \<le> k \<and> k \<le> 2 * length pool
    \<and> (\<forall>j. length pool \<le> j \<and> map_of pool j = None \<longrightarrow> k \<le> j)"
  using assms by (simp add: get_free_id_def free_scan_free free_scan_ge free_scan_least free_scan_le)

end
