(* ===== verification/Path_T.thy ===== *)
theory Path_T
  imports Errors
begin

text \<open>
  \<open>path_t\<close>: a path name split at its slashes, and the snapshot prefix
  \<open>/.snapshot/version\<close> of \<open>if_snapshot\<close> and \<open>make_path_with_version\<close>. The class keeps
  the vector of components; the first one is the empty string that stands for the root.
\<close>

type_synonym path_t = "string list"

definition FILESYSTEM_ROOT_INODE_NUMBER :: nat where
  "FILESYSTEM_ROOT_INODE_NUMBER = 0"

definition FILESYSTEM_CUR_MODIFIABLE_VER :: string where
  "FILESYSTEM_CUR_MODIFIABLE_VER = ''current''"

abbreviation slash :: char where
  "slash \<equiv> CHR ''/''"

section \<open>Operations\<close>

text \<open>The loop of the constructor: the components so far and the one being read.\<close>

fun path_loop :: "string \<Rightarrow> string \<Rightarrow> path_t \<Rightarrow> path_t \<times> string" where
  "path_loop [] cur p = (p, cur)"
| "path_loop (c # cs) cur p =
     (if c = slash
      then (if cur = [] then path_loop cs cur p else path_loop cs [] (p @ [cur]))
      else path_loop cs (cur @ [c]) p)"

definition new_path_t :: "string \<Rightarrow> path_t" where
  "new_path_t given_path =
     (let (p, cur) = path_loop given_path [] ['''']
      in if cur \<noteq> [] then p @ [cur] else p)"

text \<open>\<open>last\<close> and \<open>pop_end\<close> step back from \<open>end\<close>, which an empty vector does not allow.\<close>

definition path_last :: "path_t \<Rightarrow> exc + string" where
  "path_last p = (if p = [] then Inl Undefined_behaviour else Inr (last p))"

definition path_pop_end :: "path_t \<Rightarrow> exc + string \<times> path_t" where
  "path_pop_end p = (if p = [] then Inl Undefined_behaviour else Inr (last p, butlast p))"

fun path_to_string :: "path_t \<Rightarrow> string" where
  "path_to_string [] = []"
| "path_to_string (i # p) = (if i = [] then path_to_string p else ''/'' @ i @ path_to_string p)"

text \<open>
  \<open>if_snapshot\<close>: the version a path selects and the path inside that version, which is
  appended to the string the caller passes (the early returns overwrite it, or leave it).
\<close>

definition if_snapshot :: "string \<Rightarrow> string \<Rightarrow> exc + string \<times> string" where
  "if_snapshot path output =
     (if path = ''/'' then Inr (FILESYSTEM_CUR_MODIFIABLE_VER, path)
      else (case tl (new_path_t path) of
        [] \<Rightarrow> Inr (FILESYSTEM_CUR_MODIFIABLE_VER, output)
      | head # tail \<Rightarrow>
          (if head = ''.snapshot'' then
             (case tail of
                [] \<Rightarrow> Inl (HTMPFS_error_t HTMPFS_INVALID_DENTRY_NAME)
              | version # rest \<Rightarrow>
                  Inr (version, foldl (\<lambda>out i. out @ ''/'' @ i) output rest))
           else Inr (FILESYSTEM_CUR_MODIFIABLE_VER, path))))"

definition make_path_with_version :: "string \<Rightarrow> string \<Rightarrow> string" where
  "make_path_with_version path version =
     (if version = FILESYSTEM_CUR_MODIFIABLE_VER then path
      else ''/.snapshot/'' @ version @ path)"

section \<open>The components of a path\<close>

text \<open>A name that can be a component: not empty, no slash in it.\<close>

definition component :: "string \<Rightarrow> bool" where
  "component n \<longleftrightarrow> n \<noteq> [] \<and> slash \<notin> set n"

definition components :: "string \<Rightarrow> string list" where
  "components s = tl (new_path_t s)"

lemma path_loop_prefix:
  "path_loop s cur (q @ p) = (q @ fst (path_loop s cur p), snd (path_loop s cur p))"
proof (induction s arbitrary: cur p)
  case Nil
  then show ?case by simp
next
  case (Cons c cs)
  then show ?case by (cases "c = slash"; cases "cur = []") simp_all
qed

lemma path_loop_components:
  "\<forall>n\<in>set p. component n \<Longrightarrow> slash \<notin> set cur \<Longrightarrow>
   (\<forall>n\<in>set (fst (path_loop s cur p)). component n) \<and> slash \<notin> set (snd (path_loop s cur p))"
proof (induction s arbitrary: cur p)
  case Nil
  then show ?case by simp
next
  case (Cons c cs)
  have IH: "(\<forall>n\<in>set (fst (path_loop cs cur' p')). component n) \<and> slash \<notin> set (snd (path_loop cs cur' p'))"
    if "\<forall>n\<in>set p'. component n" and "slash \<notin> set cur'" for cur' p'
    using that by (rule Cons.IH)
  show ?case
  proof (cases "c = slash")
    case True
    note c = True
    show ?thesis
    proof (cases "cur = []")
      case True
      have eq: "path_loop (c # cs) cur p = path_loop cs [] p" by (simp add: c True)
      show ?thesis unfolding eq by (rule IH) (use Cons.prems(1) in simp_all)
    next
      case False
      have eq: "path_loop (c # cs) cur p = path_loop cs [] (p @ [cur])"
        using False by (simp add: c)
      have "\<forall>n\<in>set (p @ [cur]). component n"
        using False Cons.prems by (simp add: component_def)
      then show ?thesis unfolding eq by (rule IH) simp
    qed
  next
    case False
    have eq: "path_loop (c # cs) cur p = path_loop cs (cur @ [c]) p"
      using False by simp
    have "slash \<notin> set (cur @ [c])"
      using False Cons.prems(2) by auto
    then show ?thesis unfolding eq by (intro IH Cons.prems(1))
  qed
qed

lemma path_loop_root: "path_loop s cur [''''] = ('''' # fst (path_loop s cur []), snd (path_loop s cur []))"
  using path_loop_prefix [of s cur "['''']" "[]"] by (simp add: split_beta)

lemma new_path_t_eq: "new_path_t s = '''' # components s"
  by (simp add: components_def new_path_t_def path_loop_root)

lemma components_eq:
  "components s = (let (r, c) = path_loop s [] [] in if c = [] then r else r @ [c])"
  by (simp add: components_def new_path_t_def path_loop_root split_beta)

lemma components_component: "n \<in> set (components s) \<Longrightarrow> component n"
  using path_loop_components [of "[]" "[]" s]
  by (auto simp: components_eq component_def split_beta split: if_splits)

lemma components_Nil [simp]: "components [] = []" and components_slash [simp]: "components ''/'' = []"
  by (simp_all add: components_eq)

lemma path_loop_no_slash: "slash \<notin> set n \<Longrightarrow> path_loop (n @ s) cur p = path_loop s (cur @ n) p"
  by (induction n arbitrary: cur) auto

text \<open>Reading one more component from a path that starts with a slash.\<close>

lemma path_loop_flush:
  "cur \<noteq> [] \<Longrightarrow> path_loop (slash # s) cur p = (let (r, c) = path_loop s [] [] in (p @ cur # r, c))"
  using path_loop_prefix [of s "[]" "p @ [cur]" "[]"] by (simp add: split_beta)

lemma components_slash_Cons [simp]: "components (slash # s) = components s"
  by (simp add: components_eq)

lemma components_name: "component n \<Longrightarrow> components n = [n]"
  using path_loop_no_slash [of n "[]" "[]" "[]"] by (simp add: components_eq component_def)

lemma components_Cons:
  assumes "component n"
  shows "components (n @ slash # s) = n # components s"
proof -
  have "path_loop (n @ slash # s) [] [] = path_loop (slash # s) n []"
    using assms by (simp add: path_loop_no_slash component_def)
  also have "\<dots> = (let (r, c) = path_loop s [] [] in (n # r, c))"
    using assms path_loop_flush [of n s "[]"] by (simp add: component_def)
  finally show ?thesis by (simp add: components_eq split_beta)
qed

lemma path_loop_append: "path_loop (s @ t) cur p = (case path_loop s cur p of (q, c) \<Rightarrow> path_loop t c q)"
  by (induction s arbitrary: cur p) simp_all

text \<open>A slash between two strings keeps their components apart.\<close>

lemma components_append: "components (s @ slash # t) = components s @ components t"
proof -
  obtain q c where q: "path_loop s [] [] = (q, c)" by (cases "path_loop s [] []")
  show ?thesis
    using path_loop_prefix [of t "[]" q "[]"] path_loop_prefix [of t "[]" "q @ [c]" "[]"]
    by (simp add: components_eq path_loop_append q split_beta)
qed

lemma components_snoc: "slash \<notin> set n \<Longrightarrow> components (s @ slash # n) = components s @ (if n = [] then [] else [n])"
  by (simp add: components_append components_name component_def)

section \<open>Printing and parsing again\<close>

lemma path_to_string_root [simp]: "path_to_string ('''' # p) = path_to_string p"
  by simp

text \<open>What the printer writes is empty or starts with a slash.\<close>

lemma components_append_printed:
  "component n \<Longrightarrow> components (n @ path_to_string p) = n # components (path_to_string p)"
proof (induction p)
  case Nil
  then show ?case by (simp add: components_name)
next
  case (Cons i p)
  then show ?case by (cases "i = []") (simp_all add: components_Cons)
qed

lemma components_path_to_string:
  "\<forall>n\<in>set p. component n \<Longrightarrow> components (path_to_string p) = p"
proof (induction p)
  case Nil
  then show ?case by simp
next
  case (Cons n p)
  then have "n \<noteq> []" by (simp add: component_def)
  with Cons show ?case by (simp add: components_append_printed)
qed

lemma components_printed_path: "components (path_to_string (new_path_t s)) = components s"
  by (simp add: new_path_t_eq components_path_to_string components_component)

section \<open>The snapshot prefix\<close>

lemma foldl_slash:
  "foldl (\<lambda>out i. out @ ''/'' @ i) out rest = out @ concat (map (\<lambda>i. ''/'' @ i) rest)"
  by (induction rest arbitrary: out) simp_all

lemma printed_components:
  "\<forall>n\<in>set rest. component n \<Longrightarrow> concat (map (\<lambda>i. ''/'' @ i) rest) = path_to_string rest"
  by (induction rest) (auto simp: component_def)

lemma if_snapshot_current:
  assumes "components path \<noteq> []" and "hd (components path) \<noteq> ''.snapshot''"
  shows "if_snapshot path out = Inr (FILESYSTEM_CUR_MODIFIABLE_VER, path)"
  using assms by (auto simp: if_snapshot_def new_path_t_eq split: list.splits)

lemma if_snapshot_root: "if_snapshot ''/'' out = Inr (FILESYSTEM_CUR_MODIFIABLE_VER, ''/'')"
  by (simp add: if_snapshot_def)

lemma if_snapshot_nothing: "components path = [] \<Longrightarrow> if_snapshot path out = Inr (FILESYSTEM_CUR_MODIFIABLE_VER, if path = ''/'' then path else out)"
  by (simp add: if_snapshot_def new_path_t_eq)

lemma if_snapshot_version:
  assumes "components path = ''.snapshot'' # v # rest"
  shows "if_snapshot path out = Inr (v, out @ path_to_string rest)"
proof -
  have "\<forall>n\<in>set rest. component n"
    using assms by (metis components_component list.set_intros(2))
  moreover have "path \<noteq> ''/''" using assms by auto
  ultimately show ?thesis
    using assms by (simp add: if_snapshot_def new_path_t_eq foldl_slash printed_components
        del: append.simps(2))
qed

lemma if_snapshot_no_version:
  assumes "components path = [''.snapshot'']"
  shows "if_snapshot path out = Inl (HTMPFS_error_t HTMPFS_INVALID_DENTRY_NAME)"
proof -
  have "path \<noteq> ''/''" using assms by auto
  with assms show ?thesis by (simp add: if_snapshot_def new_path_t_eq)
qed

lemma component_snapshot [simp]: "component ''.snapshot''"
  by (simp add: component_def)

lemma components_with_version:
  assumes "component v" and "v \<noteq> FILESYSTEM_CUR_MODIFIABLE_VER" and "\<forall>n\<in>set p. component n"
  shows "components (make_path_with_version (path_to_string p) v) = ''.snapshot'' # v # p"
proof -
  have 1: "make_path_with_version (path_to_string p) v
      = slash # (''.snapshot'' @ slash # (v @ path_to_string p))"
    using assms(2) by (simp add: make_path_with_version_def)
  have 2: "components (slash # (''.snapshot'' @ slash # (v @ path_to_string p)))
      = ''.snapshot'' # components (v @ path_to_string p)"
    by (simp only: components_slash_Cons components_Cons [OF component_snapshot])
  have 3: "components (v @ path_to_string p) = v # p"
    using assms by (simp add: components_append_printed components_path_to_string)
  show ?thesis by (simp only: 1 2 3)
qed

lemma if_snapshot_with_version:
  assumes "component v" and "v \<noteq> FILESYSTEM_CUR_MODIFIABLE_VER" and "\<forall>n\<in>set p. component n"
  shows "if_snapshot (make_path_with_version (path_to_string p) v) [] = Inr (v, path_to_string p)"
  using if_snapshot_version [OF components_with_version [OF assms]] by simp

end
