(* ===== verification/Inode.thy ===== *)
theory Inode
  imports Buffer_Pool Path_T
begin

text \<open>
  \<open>inode_t\<close> (\<open>htmpfs.h\<close>, \<open>htmpfs.cpp\<close>): a file or directory as a list of blocks per
  version. Its methods work on the inode itself and on the file system's block pool, so
  their state is the pair of the two.
\<close>

section \<open>State\<close>

record timespec =
  tv_sec :: int
  tv_nsec :: int

record stat =
  st_dev :: nat
  st_ino :: nat
  st_nlink :: nat
  st_mode :: nat
  st_uid :: nat
  st_gid :: nat
  st_size :: int
  st_atim :: timespec
  st_mtim :: timespec
  st_ctim :: timespec

definition zero_stat :: stat where
  "zero_stat = (let z = \<lparr>tv_sec = 0, tv_nsec = 0\<rparr> in
     \<lparr>st_dev = 0, st_ino = 0, st_nlink = 0, st_mode = 0, st_uid = 0, st_gid = 0, st_size = 0,
      st_atim = z, st_mtim = z, st_ctim = z\<rparr>)"

record inode_t =
  block_size :: nat
  inode_id :: nat
  is_dentry :: bool
  buffer_map :: "(string, buffer_result_t list) std_map"
  fs_stat :: stat

type_synonym ist = "inode_t \<times> buffer_pool_t"

definition new_inode_t :: "nat \<Rightarrow> nat \<Rightarrow> bool \<Rightarrow> inode_t" where
  "new_inode_t bs i dentry =
     \<lparr>block_size = bs, inode_id = i, is_dentry = dentry,
      buffer_map = map_emplace FILESYSTEM_CUR_MODIFIABLE_VER [] [], fs_stat = zero_stat\<rparr>"

section \<open>Access to the block lists\<close>

definition on_pool :: "(buffer_pool_t, exc, 'a) exec \<Rightarrow> (ist, exc, 'a) exec" where
  "on_pool m = zoomx snd (\<lambda>p s. (fst s, p)) m"

definition the_block_size :: "(ist, exc, nat) exec" where
  "the_block_size = getx (\<lambda>s. block_size (fst s))"

text \<open>\<open>buffer_map.at(version)\<close>, and the assignment through the reference it returns.\<close>

definition blocks_at :: "string \<Rightarrow> (ist, exc, buffer_result_t list) exec" where
  "blocks_at v = bindx (getx (\<lambda>s. map_of (buffer_map (fst s)) v)) (\<lambda>r.
     case r of None \<Rightarrow> throw Std_out_of_range | Some bl \<Rightarrow> ret bl)"

definition set_blocks :: "string \<Rightarrow> buffer_result_t list \<Rightarrow> (ist, exc, unit) exec" where
  "set_blocks v bl = modifyx (\<lambda>(i, bp). (i\<lparr>buffer_map := map_assign v bl (buffer_map i)\<rparr>, bp))"

abbreviation current_blocks :: "(ist, exc, buffer_result_t list) exec" where
  "current_blocks \<equiv> blocks_at FILESYSTEM_CUR_MODIFIABLE_VER"

abbreviation set_current_blocks :: "buffer_result_t list \<Rightarrow> (ist, exc, unit) exec" where
  "set_current_blocks \<equiv> set_blocks FILESYSTEM_CUR_MODIFIABLE_VER"

text \<open>\<open>std::vector::at\<close> checks the index, \<open>operator[]\<close> does not.\<close>

definition vec_at :: "'a list \<Rightarrow> nat \<Rightarrow> exc + 'a" where
  "vec_at xs k = (if k < length xs then Inr (xs ! k) else Inl Std_out_of_range)"

definition vec_index :: "'a list \<Rightarrow> nat \<Rightarrow> exc + 'a" where
  "vec_index xs k = (if k < length xs then Inr (xs ! k) else Inl Undefined_behaviour)"

text \<open>\<open>VERIFY_DATA_OPS_LEN\<close>.\<close>

definition verify_len :: "nat \<Rightarrow> nat \<Rightarrow> ('s, exc, unit) exec" where
  "verify_len done len = (if done \<noteq> len then throw (HTMPFS_error_t HTMPFS_BUFFER_SHORT_OPS) else ret ())"

text \<open>\<open>n / block_size + (n % block_size != 0)\<close>, the number of blocks that hold \<open>n\<close> bytes.\<close>

definition block_count :: "nat \<Rightarrow> nat \<Rightarrow> nat" where
  "block_count n bs = n div bs + (if n mod bs \<noteq> 0 then 1 else 0)"

section \<open>Size\<close>

fun data_size_loop :: "buffer_result_t list \<Rightarrow> nat \<Rightarrow> (buffer_pool_t, exc, nat) exec" where
  "data_size_loop [] sz = ret sz"
| "data_size_loop (b # bl) sz =
     bindx (deref_buffer (buf_id b)) (\<lambda>d. data_size_loop bl (add64 sz (length d)))"

definition current_data_size :: "string \<Rightarrow> (ist, exc, nat) exec" where
  "current_data_size v = bindx (getx (\<lambda>s. map_of (buffer_map (fst s)) v)) (\<lambda>r.
     case r of None \<Rightarrow> throw (HTMPFS_error_t HTMPFS_NO_SUCH_SNAPSHOT)
     | Some bl \<Rightarrow> on_pool (data_size_loop bl 0))"

section \<open>Truncation\<close>

text \<open>
  One round of the copy-on-write loops: a block that a snapshot froze is replaced by a
  new buffer with the same bytes. The same loop body stands in \<open>write\<close> once and in
  \<open>truncate\<close> twice.
\<close>

definition cow_block :: "nat \<Rightarrow> (ist, exc, unit) exec" where
  "cow_block k =
     bindx current_blocks (\<lambda>bl.
     bindx (liftx (vec_index bl k)) (\<lambda>frozen_buffer.
     if is_snapshoted frozen_buffer then
       bindx the_block_size (\<lambda>bs.
       bindx (on_pool (deref_buffer (buf_id frozen_buffer))) (\<lambda>d.
       bindx (liftx (buffer_read d bs 0)) (\<lambda>tmp.
       bindx (on_pool request_buffer_allocation) (\<lambda>new_buffer.
       bindx (on_pool (pool_write (buf_id new_buffer) tmp (length tmp) 0 True)) (\<lambda>_.
       set_current_blocks (bl[k := new_buffer]))))))
     else ret ()))"

text \<open>\<open>n\<close> rounds of the loop from block \<open>k\<close> on.\<close>

fun cow_range :: "nat \<Rightarrow> nat \<Rightarrow> (ist, exc, unit) exec" where
  "cow_range 0 k = ret ()"
| "cow_range (Suc n) k = bindx (cow_block k) (\<lambda>_. cow_range n (Suc k))"

fun append_buffers :: "nat \<Rightarrow> (ist, exc, unit) exec" where
  "append_buffers 0 = ret ()"
| "append_buffers (Suc n) =
     bindx (on_pool request_buffer_allocation) (\<lambda>result.
     bindx current_blocks (\<lambda>bl.
     bindx (set_current_blocks (bl @ [result])) (\<lambda>_. append_buffers n)))"

fun drop_buffers :: "nat \<Rightarrow> (ist, exc, unit) exec" where
  "drop_buffers 0 = ret ()"
| "drop_buffers (Suc n) =
     bindx current_blocks (\<lambda>bl.
     if bl = [] then throw Undefined_behaviour
     else
       let last_buffer = last bl in
       bindx (if \<not> is_snapshoted last_buffer then on_pool (unlink_buffer (buf_id last_buffer)) else ret ())
         (\<lambda>_. bindx (set_current_blocks (butlast bl)) (\<lambda>_. drop_buffers n)))"

definition truncate_at :: "nat \<Rightarrow> nat \<Rightarrow> (ist, exc, unit) exec" where
  "truncate_at k len =
     bindx current_blocks (\<lambda>bl. bindx (liftx (vec_at bl k)) (\<lambda>b. on_pool (pool_truncate (buf_id b) len)))"

text \<open>\<open>n\<close> full blocks, from the one after \<open>starting_buffer + i - 1\<close> on.\<close>

fun truncate_full :: "nat \<Rightarrow> nat \<Rightarrow> nat \<Rightarrow> (ist, exc, unit) exec" where
  "truncate_full 0 starting i = ret ()"
| "truncate_full (Suc n) starting i =
     bindx the_block_size (\<lambda>bs.
     bindx (truncate_at (add64 starting i) bs) (\<lambda>_. truncate_full n starting (Suc i)))"

definition inode_truncate :: "nat \<Rightarrow> (ist, exc, unit) exec" where
  "inode_truncate len =
     bindx current_blocks (\<lambda>bl.
     bindx the_block_size (\<lambda>bs.
     let current_bank_size = mul64 (length bl) bs; offset = 0 in
     if bs = 0 then throw Undefined_behaviour
     else
     bindx
       (if current_bank_size < len then
          (let wanted_size = len - current_bank_size in
           bindx (append_buffers (block_count wanted_size bs)) (\<lambda>_.
           bindx current_blocks (\<lambda>bl'.
           let start = offset div bs in cow_range (length bl' - start) start)))
        else
          (let lost_buffer_count = sub64 (length bl) (block_count len bs) in
           bindx (drop_buffers lost_buffer_count) (\<lambda>_.
           let start = offset div bs in cow_range (block_count (offset + len) bs - start) start)))
       (\<lambda>_.
        let offset_for_starting_buffer = offset mod bs;
            starting_buffer = (if offset = 0 \<or> offset < bs then 0
                               else if offset = bs then 1 else offset div bs);
            write_length_in_starting_buffer =
              (if bs - offset_for_starting_buffer \<ge> len then len else bs - offset_for_starting_buffer);
            remaining_write_length = len - write_length_in_starting_buffer;
            full_block_operation_count = remaining_write_length div bs;
            write_length_in_last_buffer = remaining_write_length mod bs in
        if len = 0 then ret ()
        else
          bindx (truncate_at starting_buffer write_length_in_starting_buffer) (\<lambda>_.
          bindx (truncate_full full_block_operation_count starting_buffer 1) (\<lambda>_.
          if write_length_in_last_buffer \<noteq> 0
          then truncate_at (add64 (add64 starting_buffer full_block_operation_count) 1) write_length_in_last_buffer
          else ret ())))))"

section \<open>Writing\<close>

definition write_at :: "nat \<Rightarrow> data_t \<Rightarrow> nat \<Rightarrow> nat \<Rightarrow> bool \<Rightarrow> (ist, exc, unit) exec" where
  "write_at k src len offset resize =
     bindx current_blocks (\<lambda>bl.
     bindx (liftx (vec_at bl k)) (\<lambda>b.
     bindx (on_pool (pool_write (buf_id b) src len offset resize)) (\<lambda>n. verify_len n len)))"

text \<open>\<open>buffer + write_length_in_starting_buffer + (i - 1) * block_size\<close> is the source of round \<open>i\<close>.\<close>

fun write_full :: "nat \<Rightarrow> data_t \<Rightarrow> nat \<Rightarrow> nat \<Rightarrow> nat \<Rightarrow> bool \<Rightarrow> (ist, exc, unit) exec" where
  "write_full 0 src first starting i resize = ret ()"
| "write_full (Suc n) src first starting i resize =
     bindx the_block_size (\<lambda>bs.
     bindx (write_at (add64 starting i) (drop (first + (i - 1) * bs) src) bs 0 resize) (\<lambda>_.
     write_full n src first starting (Suc i) resize))"

text \<open>
  The three block writes that both branches of \<open>write\<close> end with: the starting block, the
  full blocks, the last block.
\<close>

definition write_out :: "data_t \<Rightarrow> nat \<Rightarrow> nat \<Rightarrow> bool \<Rightarrow> (ist, exc, unit) exec" where
  "write_out src sz offset resize =
     bindx the_block_size (\<lambda>bs.
     let offset_for_starting_buffer = offset mod bs;
         starting_buffer = offset div bs;
         write_length_in_starting_buffer =
           (if bs - offset_for_starting_buffer \<ge> sz then sz else bs - offset_for_starting_buffer);
         remaining_write_length = sz - write_length_in_starting_buffer;
         full_block_operation_count = remaining_write_length div bs;
         write_length_in_last_buffer = remaining_write_length mod bs in
     bindx (write_at starting_buffer src write_length_in_starting_buffer offset_for_starting_buffer resize) (\<lambda>_.
     bindx (write_full full_block_operation_count src write_length_in_starting_buffer starting_buffer 1 resize) (\<lambda>_.
     if write_length_in_last_buffer \<noteq> 0
     then write_at (add64 (add64 starting_buffer full_block_operation_count) 1)
            (drop (write_length_in_starting_buffer + full_block_operation_count * bs) src)
            write_length_in_last_buffer 0 resize
     else ret ())))"

definition inode_write :: "data_t \<Rightarrow> nat \<Rightarrow> nat \<Rightarrow> bool \<Rightarrow> bool \<Rightarrow> (ist, exc, nat) exec" where
  "inode_write src len offset resize dentry_only =
     bindx (getx (\<lambda>s. is_dentry (fst s))) (\<lambda>dentry.
     if dentry \<and> \<not> dentry_only then throw (HTMPFS_error_t HTMPFS_INVALID_WRITE_INVOKE)
     else if len = 0 then ret 0
     else
     bindx current_blocks (\<lambda>_.
     bindx the_block_size (\<lambda>bs.
     if bs = 0 then throw Undefined_behaviour
     else if resize then
       bindx (inode_truncate (add64 offset len)) (\<lambda>_.
       bindx (write_out src len offset True) (\<lambda>_. ret len))
     else
       bindx (current_data_size FILESYSTEM_CUR_MODIFIABLE_VER) (\<lambda>size.
       if offset > size then ret 0
       else
         let write_size = (if add64 offset len > size then size - offset else len);
             start = offset div bs;
             finish = block_count (add64 offset write_size) bs in
         bindx (cow_range (finish - start) start) (\<lambda>_.
         bindx (write_out src write_size offset False) (\<lambda>_. ret write_size))))))"

section \<open>Reading\<close>

definition read_at :: "buffer_result_t list \<Rightarrow> nat \<Rightarrow> nat \<Rightarrow> nat \<Rightarrow> (ist, exc, data_t) exec" where
  "read_at bl k len offset =
     bindx (liftx (vec_at bl k)) (\<lambda>b.
     bindx (on_pool (deref_buffer (buf_id b))) (\<lambda>d.
     bindx (liftx (buffer_read d len offset)) (\<lambda>cs.
     bindx (verify_len (length cs) len) (\<lambda>_. ret cs))))"

fun read_full :: "nat \<Rightarrow> buffer_result_t list \<Rightarrow> nat \<Rightarrow> nat \<Rightarrow> (ist, exc, data_t) exec" where
  "read_full 0 bl starting i = ret []"
| "read_full (Suc n) bl starting i =
     bindx the_block_size (\<lambda>bs.
     bindx (read_at bl (add64 starting i) bs 0) (\<lambda>cs.
     bindx (read_full n bl starting (Suc i)) (\<lambda>more_cs. ret (cs @ more_cs))))"

text \<open>The result is the bytes stored at \<open>buffer\<close>; their number is the value returned.\<close>

definition inode_read :: "string \<Rightarrow> nat \<Rightarrow> nat \<Rightarrow> (ist, exc, data_t) exec" where
  "inode_read v len offset =
     (if len = 0 then ret []
      else
      bindx (getx (\<lambda>s. map_of (buffer_map (fst s)) v)) (\<lambda>found.
      if found = None then throw (HTMPFS_error_t HTMPFS_NO_SUCH_SNAPSHOT)
      else
      bindx (blocks_at v) (\<lambda>bl.
      bindx (current_data_size v) (\<lambda>size.
      bindx the_block_size (\<lambda>bs.
      if offset > size then ret []
      else
        let read_size = (if add64 offset len > size then size - offset else len);
            offset_for_starting_buffer = offset mod bs;
            starting_buffer = offset div bs;
            read_length_in_starting_buffer =
              (if bs - offset_for_starting_buffer \<ge> read_size then read_size
               else bs - offset_for_starting_buffer);
            remaining_write_length = read_size - read_length_in_starting_buffer;
            full_block_operation_count = remaining_write_length div bs;
            read_length_in_last_buffer = remaining_write_length mod bs in
        if bs = 0 then throw Undefined_behaviour
        else
        bindx (read_at bl starting_buffer read_length_in_starting_buffer offset_for_starting_buffer) (\<lambda>c1.
        bindx (read_full full_block_operation_count bl starting_buffer 1) (\<lambda>c2.
        bindx (if read_length_in_last_buffer \<noteq> 0
               then read_at bl (add64 (add64 starting_buffer full_block_operation_count) 1)
                      read_length_in_last_buffer 0
               else ret []) (\<lambda>c3.
        ret (c1 @ c2 @ c3)))))))))"

definition inode_to_string :: "string \<Rightarrow> (ist, exc, string) exec" where
  "inode_to_string v =
     bindx (getx (\<lambda>s. buffer_map (fst s) = [])) (\<lambda>no_map.
     if no_map then ret []
     else
     bindx (current_data_size v) (\<lambda>size.
     if size = 0 then ret []
     else
     bindx (blocks_at v) (\<lambda>bl.
     bindx the_block_size (\<lambda>bs.
     bindx (inode_read v (add64 (mul64 bs (length bl)) 1) 0) (\<lambda>buf.
     bindx (current_data_size v) (\<lambda>size'.
     if length buf \<noteq> size' then throw (HTMPFS_error_t HTMPFS_BUFFER_SHORT_OPS)
     else ret buf))))))"

section \<open>Snapshot volumes\<close>

text \<open>The loop over the current blocks from index \<open>k\<close>: freeze, copy the entry, link the buffer.\<close>

fun freeze_loop :: "nat \<Rightarrow> nat \<Rightarrow> buffer_result_t list \<Rightarrow> (ist, exc, buffer_result_t list) exec" where
  "freeze_loop 0 k new_volume = ret new_volume"
| "freeze_loop (Suc n) k new_volume =
     bindx current_blocks (\<lambda>bl.
     let b = (bl ! k)\<lparr>is_snapshoted := True\<rparr> in
     bindx (set_current_blocks (bl[k := b])) (\<lambda>_.
     bindx (on_pool (link_buffer (buf_id b))) (\<lambda>_.
     freeze_loop n (Suc k) (new_volume @ [b]))))"

definition create_new_volume :: "string \<Rightarrow> (ist, exc, unit) exec" where
  "create_new_volume v =
     bindx (getx (\<lambda>s. map_of (buffer_map (fst s)) v)) (\<lambda>found.
     if found \<noteq> None then throw (HTMPFS_error_t HTMPFS_DOUBLE_SNAPSHOT)
     else
     bindx current_blocks (\<lambda>bl.
     bindx (freeze_loop (length bl) 0 []) (\<lambda>new_volume.
     modifyx (\<lambda>(i, bp). (i\<lparr>buffer_map := map_emplace v new_volume (buffer_map i)\<rparr>, bp)))))"

fun unlink_all :: "buffer_result_t list \<Rightarrow> (buffer_pool_t, exc, unit) exec" where
  "unlink_all [] = ret ()"
| "unlink_all (b # bl) = bindx (unlink_buffer (buf_id b)) (\<lambda>_. unlink_all bl)"

definition delete_volume :: "string \<Rightarrow> (ist, exc, unit) exec" where
  "delete_volume v =
     bindx (getx (\<lambda>s. map_of (buffer_map (fst s)) v)) (\<lambda>found.
     if v = FILESYSTEM_CUR_MODIFIABLE_VER \<or> found = None
     then throw (HTMPFS_error_t HTMPFS_NO_SUCH_SNAPSHOT)
     else
     bindx (blocks_at v) (\<lambda>bl.
     bindx (on_pool (unlink_all bl)) (\<lambda>_.
     modifyx (\<lambda>(i, bp). (i\<lparr>buffer_map := map_erase v (buffer_map i)\<rparr>, bp)))))"

end
