(* ===== verification/Chunks.thy ===== *)
theory Chunks
  imports Inode
begin

text \<open>
  The mathematics of a byte string cut into blocks: \<open>chunk\<close> cuts it, \<open>overwrite\<close>
  overwrites a part, \<open>resized\<close> cuts or pads it with zeros. The lemmas say how a change of
  one block is a change of the whole string.
\<close>

definition chunk :: "nat \<Rightarrow> 'a list \<Rightarrow> 'a list list" where
  "chunk bs c = map (\<lambda>k. take bs (drop (k * bs) c)) [0..<block_count (length c) bs]"

definition overwrite :: "nat \<Rightarrow> 'a list \<Rightarrow> 'a list \<Rightarrow> 'a list" where
  "overwrite p d c = take p c @ d @ drop (p + length d) c"

definition resized :: "nat \<Rightarrow> data_t \<Rightarrow> data_t" where
  "resized n c = take n (c @ replicate (n - length c) NUL)"

section \<open>Counting blocks\<close>

lemma less_block_count:
  assumes "0 < bs"
  shows "k < block_count n bs \<longleftrightarrow> k * bs < n"
proof
  assume k: "k < block_count n bs"
  show "k * bs < n"
  proof (cases "n mod bs = 0")
    case True
    with k have "k < n div bs" by (simp add: block_count_def)
    then have "k * bs < n div bs * bs" using assms by simp
    with True show ?thesis by (metis add.right_neutral div_mult_mod_eq)
  next
    case False
    with k have "k \<le> n div bs" by (simp add: block_count_def)
    then have "k * bs \<le> n div bs * bs" by simp
    with False show ?thesis by (metis div_mult_mod_eq le_neq_implies_less less_add_same_cancel1
          gr0I order_le_less_trans)
  qed
next
  assume k: "k * bs < n"
  show "k < block_count n bs"
  proof (rule ccontr)
    assume "\<not> ?thesis"
    then have "block_count n bs \<le> k" by simp
    then have "block_count n bs * bs \<le> k * bs" by (rule mult_le_mono1)
    moreover have "n \<le> block_count n bs * bs"
    proof (cases "n mod bs = 0")
      case True
      then show ?thesis by (simp add: block_count_def) (metis mod_0_imp_dvd dvd_div_mult_self order_refl)
    next
      case False
      have "n = n div bs * bs + n mod bs" by simp
      also have "\<dots> \<le> n div bs * bs + bs"
        using mod_less_divisor [OF assms, of n] by (simp only: add_le_cancel_left)
      finally show ?thesis using False by (simp add: block_count_def add.commute)
    qed
    ultimately show False using k by linarith
  qed
qed

lemma block_count_ge: "0 < bs \<Longrightarrow> n \<le> block_count n bs * bs"
  using less_block_count [of bs "block_count n bs" n] by simp

lemma block_count_le_iff: "0 < bs \<Longrightarrow> block_count n bs \<le> k \<longleftrightarrow> n \<le> k * bs"
  using less_block_count [of bs k n] by (simp add: linorder_not_less [symmetric])

lemma block_count_mono: "0 < bs \<Longrightarrow> m \<le> n \<Longrightarrow> block_count m bs \<le> block_count n bs"
  by (meson block_count_ge block_count_le_iff le_trans)

lemma block_count_0 [simp]: "block_count 0 bs = 0"
  by (simp add: block_count_def)

lemma block_count_less: "0 < bs \<Longrightarrow> block_count n bs * bs < n + bs"
proof (cases "block_count n bs")
  case (Suc k)
  moreover assume "0 < bs"
  ultimately show ?thesis using less_block_count [of bs k n] by simp
qed simp

lemma block_count_le_self: "0 < bs \<Longrightarrow> block_count n bs \<le> n"
  by (simp add: block_count_le_iff)

text \<open>Growing by \<open>n - k * bs\<close> bytes from \<open>k\<close> blocks ends with the blocks of \<open>n\<close> bytes.\<close>

lemma block_count_grow:
  assumes "0 < bs" and "k * bs \<le> n"
  shows "k + block_count (n - k * bs) bs = block_count n bs"
proof -
  have n: "n = (n - k * bs) + k * bs" using assms(2) by simp
  have "n div bs = (n - k * bs) div bs + k" and "n mod bs = (n - k * bs) mod bs"
    using assms(1) by (subst n, simp)+
  then show ?thesis by (simp add: block_count_def)
qed

section \<open>Cutting and joining\<close>

lemma length_chunk [simp]: "length (chunk bs c) = block_count (length c) bs"
  by (simp add: chunk_def)

lemma nth_chunk: "k < block_count (length c) bs \<Longrightarrow> chunk bs c ! k = take bs (drop (k * bs) c)"
  by (simp add: chunk_def)

lemma concat_chunk_take: "concat (map (\<lambda>k. take bs (drop (k * bs) c)) [0..<m]) = take (m * bs) c"
proof (induction m)
  case 0
  then show ?case by simp
next
  case (Suc m)
  then show ?case by (simp add: add.commute [of bs] take_add)
qed

lemma concat_chunk: "0 < bs \<Longrightarrow> concat (chunk bs c) = c"
  using block_count_ge [of bs "length c"] by (simp add: chunk_def concat_chunk_take)

lemma chunk_Nil [simp]: "chunk bs [] = []"
  by (simp add: chunk_def)

lemma length_nth_chunk:
  "0 < bs \<Longrightarrow> k < block_count (length c) bs \<Longrightarrow> length (chunk bs c ! k) = min bs (length c - k * bs)"
  by (simp add: nth_chunk min.commute)

section \<open>Overwriting\<close>

lemma length_overwrite: "p + length d \<le> length c \<Longrightarrow> length (overwrite p d c) = length c"
  by (simp add: overwrite_def)

lemma nth_overwrite:
  "p + length d \<le> length c \<Longrightarrow> i < length c \<Longrightarrow>
   overwrite p d c ! i = (if p \<le> i \<and> i < p + length d then d ! (i - p) else c ! i)"
  by (auto simp: overwrite_def nth_append min_def)

lemma overwrite_Nil [simp]: "overwrite p [] c = c"
  by (simp add: overwrite_def)

lemma overwrite_overwrite:
  assumes "p + length d + length e \<le> length c"
  shows "overwrite (p + length d) e (overwrite p d c) = overwrite p (d @ e) c"
  by (rule nth_equalityI)
    (use assms in \<open>auto simp: length_overwrite nth_overwrite nth_append\<close>)

lemma overwrite_take:
  assumes "p + a + b \<le> length c" and "a + b \<le> length src"
  shows "overwrite (p + a) (take b (drop a src)) (overwrite p (take a src) c) = overwrite p (take (a + b) src) c"
proof -
  have a: "length (take a src) = a" and b: "length (take b (drop a src)) = b" using assms(2) by simp_all
  have "overwrite (p + length (take a src)) (take b (drop a src)) (overwrite p (take a src) c)
      = overwrite p (take a src @ take b (drop a src)) c"
    by (rule overwrite_overwrite) (simp only: a b assms(1))
  then show ?thesis by (simp only: a take_add)
qed

lemma take_overwrite: "p \<le> length c \<Longrightarrow> take p (overwrite p d c) = take p c"
  by (simp add: overwrite_def)

lemma chunk_update:
  assumes bs: "0 < bs" and fit: "ofs + length d \<le> bs" and inside: "k * bs + ofs + length d \<le> length c"
    and k: "k < block_count (length c) bs"
  shows "(chunk bs c)[k := overwrite ofs d (chunk bs c ! k)] = chunk bs (overwrite (k * bs + ofs) d c)"
proof (rule nth_equalityI)
  show "length ((chunk bs c)[k := overwrite ofs d (chunk bs c ! k)]) = length (chunk bs (overwrite (k * bs + ofs) d c))"
    using inside by (simp add: length_overwrite)
next
  fix j
  assume "j < length ((chunk bs c)[k := overwrite ofs d (chunk bs c ! k)])"
  then have j: "j < block_count (length c) bs" by simp
  have len: "length (overwrite (k * bs + ofs) d c) = length c" using inside by (simp add: length_overwrite)
  have rhs: "chunk bs (overwrite (k * bs + ofs) d c) ! j = take bs (drop (j * bs) (overwrite (k * bs + ofs) d c))"
    using j by (simp add: nth_chunk len)
  show "(chunk bs c)[k := overwrite ofs d (chunk bs c ! k)] ! j = chunk bs (overwrite (k * bs + ofs) d c) ! j"
  proof (cases "j = k")
    case True
    have lk: "length (chunk bs c ! k) = min bs (length c - k * bs)"
      using bs k by (rule length_nth_chunk)
    have "overwrite ofs d (chunk bs c ! k) = take bs (drop (k * bs) (overwrite (k * bs + ofs) d c))"
    proof (rule nth_equalityI)
      show "length (overwrite ofs d (chunk bs c ! k)) = length (take bs (drop (k * bs) (overwrite (k * bs + ofs) d c)))"
        using fit inside by (simp add: length_overwrite lk)
    next
      fix i
      assume "i < length (overwrite ofs d (chunk bs c ! k))"
      then have "i < min bs (length c - k * bs)"
        using fit inside by (simp add: length_overwrite lk)
      then have i: "i < bs" "k * bs + i < length c" by auto
      have "overwrite ofs d (chunk bs c ! k) ! i
          = (if ofs \<le> i \<and> i < ofs + length d then d ! (i - ofs) else c ! (k * bs + i))"
        using i fit inside k by (subst nth_overwrite) (simp_all add: lk nth_chunk)
      also have "\<dots> = overwrite (k * bs + ofs) d c ! (k * bs + i)"
        using i inside by (subst nth_overwrite) simp_all
      finally show "overwrite ofs d (chunk bs c ! k) ! i = take bs (drop (k * bs) (overwrite (k * bs + ofs) d c)) ! i"
        using i by (simp add: len)
    qed
    with True rhs k show ?thesis by simp
  next
    case False
    have "take bs (drop (j * bs) (overwrite (k * bs + ofs) d c)) = take bs (drop (j * bs) c)"
    proof (rule nth_equalityI)
      fix i
      assume "i < length (take bs (drop (j * bs) (overwrite (k * bs + ofs) d c)))"
      then have "i < min bs (length c - j * bs)" by (simp add: len min.commute)
      then have i: "i < bs" "j * bs + i < length c" by auto
      have "\<not> (k * bs + ofs \<le> j * bs + i \<and> j * bs + i < k * bs + ofs + length d)"
      proof (cases "j < k")
        case True
        then have "Suc j * bs \<le> k * bs" by (intro mult_le_mono1) simp
        then show ?thesis using i by simp
      next
        case False
        with \<open>j \<noteq> k\<close> have "Suc k * bs \<le> j * bs" by (intro mult_le_mono1) simp
        then show ?thesis using fit by simp
      qed
      then show "take bs (drop (j * bs) (overwrite (k * bs + ofs) d c)) ! i = take bs (drop (j * bs) c) ! i"
        using i inside by (auto simp: len nth_overwrite)
    qed (simp add: len)
    with False j show ?thesis by (simp add: rhs nth_chunk)
  qed
qed

section \<open>Resizing\<close>

lemma length_resize [simp]: "length (resized n c) = n"
  by (simp add: resized_def)

lemma nth_resize: "i < n \<Longrightarrow> resized n c ! i = (if i < length c then c ! i else NUL)"
  by (simp add: resized_def nth_append)

lemma resize_self [simp]: "resized (length c) c = c"
  by (simp add: resized_def)

lemma resize_resize: "m \<le> n \<Longrightarrow> resized m (resized n c) = resized m c"
  by (rule nth_equalityI) (simp_all add: nth_resize)

lemma resize_shrink: "n \<le> length c \<Longrightarrow> resized n c = take n c"
  by (simp add: resized_def)

lemma chunk_resize_nth:
  assumes "0 < bs" and "k < block_count n bs"
  shows "buffer_truncate (take bs (drop (k * bs) c)) (min bs (n - k * bs)) = chunk bs (resized n c) ! k"
proof (rule nth_equalityI)
  show "length (buffer_truncate (take bs (drop (k * bs) c)) (min bs (n - k * bs)))
      = length (chunk bs (resized n c) ! k)"
    using assms by (simp add: length_nth_chunk)
next
  fix i
  assume "i < length (buffer_truncate (take bs (drop (k * bs) c)) (min bs (n - k * bs)))"
  then have "i < min bs (n - k * bs)" by simp
  then have "i < bs" "k * bs + i < n" by auto
  then show "buffer_truncate (take bs (drop (k * bs) c)) (min bs (n - k * bs)) ! i = chunk bs (resized n c) ! k ! i"
    using assms(2) by (auto simp: buffer_truncate_eq nth_append nth_chunk nth_resize)
qed

section \<open>A range of bytes as starting, full and last block\<close>

text \<open>
  The lengths the code computes for a range of \<open>n\<close> bytes at \<open>offset\<close>: the part in the
  starting block, the number of full blocks and the rest.
\<close>

definition first_len :: "nat \<Rightarrow> nat \<Rightarrow> nat \<Rightarrow> nat" where
  "first_len bs offset n = (if bs - offset mod bs \<ge> n then n else bs - offset mod bs)"

definition full_count :: "nat \<Rightarrow> nat \<Rightarrow> nat \<Rightarrow> nat" where
  "full_count bs offset n = (n - first_len bs offset n) div bs"

definition last_len :: "nat \<Rightarrow> nat \<Rightarrow> nat \<Rightarrow> nat" where
  "last_len bs offset n = (n - first_len bs offset n) mod bs"

lemma first_le: "first_len bs offset n \<le> n"
  by (simp add: first_len_def)

lemma first_fits:
  assumes "0 < bs"
  shows "offset mod bs + first_len bs offset n \<le> bs"
proof -
  have "offset mod bs \<le> bs" using mod_less_divisor [OF assms, of offset] by (rule less_imp_le)
  moreover have "first_len bs offset n \<le> bs - offset mod bs" by (simp add: first_len_def)
  ultimately show ?thesis by linarith
qed

lemma range_total: "first_len bs offset n + full_count bs offset n * bs + last_len bs offset n = n"
proof -
  have "full_count bs offset n * bs + last_len bs offset n = n - first_len bs offset n"
    by (simp only: full_count_def last_len_def div_mult_mod_eq)
  then show ?thesis using first_le [of bs offset n] by simp
qed

lemma last_less: "0 < bs \<Longrightarrow> last_len bs offset n < bs"
  by (simp add: last_len_def)

text \<open>If the range goes past the starting block, the next block starts where the first part ends.\<close>

lemma next_block:
  assumes "0 < bs" and "0 < full_count bs offset n \<or> 0 < last_len bs offset n"
  shows "offset + first_len bs offset n = Suc (offset div bs) * bs"
proof -
  have "0 < full_count bs offset n * bs + last_len bs offset n" using assms by auto
  then have "first_len bs offset n < n" using range_total [of bs offset n] by linarith
  then have "first_len bs offset n = bs - offset mod bs" by (auto simp: first_len_def split: if_splits)
  moreover have "offset mod bs < bs" using assms(1) by simp
  ultimately have "offset mod bs + first_len bs offset n = bs" by simp
  then show ?thesis by (metis add.assoc add.commute div_mult_mod_eq mult_Suc)
qed

lemma full_position:
  assumes "0 < bs" and "i < full_count bs offset n \<or> (i = full_count bs offset n \<and> 0 < last_len bs offset n)"
  shows "offset + first_len bs offset n + i * bs = (offset div bs + Suc i) * bs"
proof -
  have "0 < full_count bs offset n \<or> 0 < last_len bs offset n" using assms(2) by auto
  from next_block [OF assms(1) this] show ?thesis by (simp add: algebra_simps)
qed

end
