(* ===== verification/Ownership.thy ===== *)
theory Ownership
  imports Chunks
begin

text \<open>
  Who may write which buffer. \<open>owned ext bl pool\<close> relates the current block list of an inode
  to the pool: every block is in the pool, its link count covers this reference and the
  \<open>ext\<close> references from elsewhere (other versions, other inodes), and a block without the
  frozen bit is referenced from nowhere else. Every operation on the current version keeps it
  and leaves the buffers that others reference untouched (\<open>keeps\<close>).
\<close>

section \<open>The contents of a block list\<close>

definition bdata :: "buffer_pool_t \<Rightarrow> nat \<Rightarrow> data_t" where
  "bdata bp i = (case map_of bp i of None \<Rightarrow> [] | Some p \<Rightarrow> buffer p)"

definition contents :: "buffer_pool_t \<Rightarrow> buffer_result_t list \<Rightarrow> data_t list" where
  "contents bp bl = map (\<lambda>b. bdata bp (buf_id b)) bl"

definition ids :: "buffer_result_t list \<Rightarrow> nat set" where
  "ids bl = buf_id ` set bl"

lemma length_contents [simp]: "length (contents bp bl) = length bl"
  by (simp add: contents_def)

lemma contents_Nil [simp]: "contents bp [] = []"
  by (simp add: contents_def)

lemma contents_append [simp]: "contents bp (bl @ bl') = contents bp bl @ contents bp bl'"
  by (simp add: contents_def)

lemma nth_contents [simp]: "k < length bl \<Longrightarrow> contents bp bl ! k = bdata bp (buf_id (bl ! k))"
  by (simp add: contents_def)

lemma contents_butlast [simp]: "contents bp (butlast bl) = butlast (contents bp bl)"
  by (simp add: contents_def map_butlast)

lemma contents_cong: "(\<And>i. i \<in> ids bl \<Longrightarrow> bdata bp' i = bdata bp i) \<Longrightarrow> contents bp' bl = contents bp bl"
  by (simp add: contents_def ids_def)

lemma contents_flag_update:
  "k < length bl \<Longrightarrow> contents bp (bl[k := (bl ! k)\<lparr>is_snapshoted := f\<rparr>]) = contents bp bl"
  by (simp add: contents_def map_update) (metis list_update_id map_update length_map nth_map)

lemma bdata_assign [simp]:
  "map_of bp i = Some p \<Longrightarrow> bdata (map_assign i q bp) = (bdata bp)(i := buffer q)"
  by (auto simp: bdata_def fun_eq_iff)

lemma bdata_emplace [simp]:
  "map_of bp i = None \<Longrightarrow> bdata (map_emplace i q bp) = (bdata bp)(i := buffer q)"
  by (auto simp: bdata_def fun_eq_iff)

lemma map_upd_distinct:
  assumes "distinct (map buf_id bl)" and "k < length bl"
  shows "map (\<lambda>b. (f(buf_id (bl ! k) := d)) (buf_id b)) bl = (map (\<lambda>b. f (buf_id b)) bl)[k := d]"
proof (rule nth_equalityI)
  fix j
  assume "j < length (map (\<lambda>b. (f(buf_id (bl ! k) := d)) (buf_id b)) bl)"
  then have j: "j < length bl" by simp
  then have "buf_id (bl ! j) = buf_id (bl ! k) \<longleftrightarrow> j = k"
    using assms nth_eq_iff_index_eq [of "map buf_id bl" j k] by simp
  then show "map (\<lambda>b. (f(buf_id (bl ! k) := d)) (buf_id b)) bl ! j = (map (\<lambda>b. f (buf_id b)) bl)[k := d] ! j"
    using j by (simp add: nth_list_update)
qed simp

lemma contents_assign:
  assumes "distinct (map buf_id bl)" and "k < length bl" and "map_of bp (buf_id (bl ! k)) = Some p"
  shows "contents (map_assign (buf_id (bl ! k)) q bp) bl = (contents bp bl)[k := buffer q]"
  using map_upd_distinct [OF assms(1,2)] assms(3) by (simp add: contents_def)

lemma contents_other: "j \<notin> ids bl \<Longrightarrow> map (\<lambda>b. (f(j := d)) (buf_id b)) bl = map (\<lambda>b. f (buf_id b)) bl"
  by (auto simp: ids_def)

section \<open>Ownership\<close>

definition linked :: "(nat \<Rightarrow> nat) \<Rightarrow> nat set \<Rightarrow> buffer_pool_t \<Rightarrow> nat \<Rightarrow> bool" where
  "linked ext own bp i \<longleftrightarrow>
     (case map_of bp i of None \<Rightarrow> False
      | Some p \<Rightarrow> ext i + (if i \<in> own then 1 else 0) \<le> buf_link_count p \<and> buf_link_count p < 2 ^ 64)"

definition owned :: "(nat \<Rightarrow> nat) \<Rightarrow> buffer_result_t list \<Rightarrow> buffer_pool_t \<Rightarrow> bool" where
  "owned ext bl bp \<longleftrightarrow>
     map_ok bp \<and> distinct (map buf_id bl) \<and>
     (\<forall>i. 0 < ext i \<or> i \<in> ids bl \<longrightarrow> linked ext (ids bl) bp i) \<and>
     (\<forall>b\<in>set bl. \<not> is_snapshoted b \<longrightarrow> ext (buf_id b) = 0)"

lemma linkedI:
  "map_of bp i = Some p \<Longrightarrow> ext i + (if i \<in> own then 1 else 0) \<le> buf_link_count p \<Longrightarrow>
   buf_link_count p < 2 ^ 64 \<Longrightarrow> linked ext own bp i"
  by (simp add: linked_def)

lemma linkedE:
  assumes "linked ext own bp i"
  obtains p where "map_of bp i = Some p" and "ext i + (if i \<in> own then 1 else 0) \<le> buf_link_count p"
    and "buf_link_count p < 2 ^ 64"
  using assms by (auto simp: linked_def split: option.splits)

lemma linked_cong:
  "linked ext own bp i \<Longrightarrow> map_of bp' i = map_of bp i \<Longrightarrow> (i \<in> own' \<Longrightarrow> i \<in> own) \<Longrightarrow> linked ext own' bp' i"
  by (auto simp: linked_def split: option.splits if_splits)

lemma ownedI:
  assumes "map_ok bp" and "distinct (map buf_id bl)"
    and "\<And>i. 0 < ext i \<or> i \<in> ids bl \<Longrightarrow> linked ext (ids bl) bp i"
    and "\<And>b. b \<in> set bl \<Longrightarrow> \<not> is_snapshoted b \<Longrightarrow> ext (buf_id b) = 0"
  shows "owned ext bl bp"
  using assms by (simp add: owned_def)

lemma owned_linked: "owned ext bl bp \<Longrightarrow> 0 < ext i \<or> i \<in> ids bl \<Longrightarrow> linked ext (ids bl) bp i"
  unfolding owned_def by blast

lemma owned_ok: "owned ext bl bp \<Longrightarrow> map_ok bp"
  by (simp add: owned_def)

lemma owned_unfrozen_block: "owned ext bl bp \<Longrightarrow> b \<in> set bl \<Longrightarrow> \<not> is_snapshoted b \<Longrightarrow> ext (buf_id b) = 0"
  by (simp add: owned_def)

definition keeps :: "(nat \<Rightarrow> nat) \<Rightarrow> buffer_pool_t \<Rightarrow> buffer_pool_t \<Rightarrow> bool" where
  "keeps ext bp bp' \<longleftrightarrow> (\<forall>i. 0 < ext i \<longrightarrow> map_of bp' i = map_of bp i)"

text \<open>The effect of an operation that allocates at most \<open>n\<close> buffers.\<close>

definition evolves :: "(nat \<Rightarrow> nat) \<Rightarrow> buffer_pool_t \<Rightarrow> nat \<Rightarrow> buffer_result_t list \<Rightarrow> buffer_pool_t \<Rightarrow> bool" where
  "evolves ext bp n bl' bp' \<longleftrightarrow> owned ext bl' bp' \<and> keeps ext bp bp' \<and> length bp' \<le> length bp + n"

lemma evolves_refl: "owned ext bl bp \<Longrightarrow> evolves ext bp 0 bl bp"
  by (simp add: evolves_def keeps_def)

lemma evolves_trans:
  "evolves ext bp n bl1 bp1 \<Longrightarrow> evolves ext bp1 m bl2 bp2 \<Longrightarrow> evolves ext bp (n + m) bl2 bp2"
  by (auto simp: evolves_def keeps_def)

lemma evolves_mono: "evolves ext bp n bl' bp' \<Longrightarrow> n \<le> m \<Longrightarrow> evolves ext bp m bl' bp'"
  by (auto simp: evolves_def)

lemma evolves_owned [simp]: "evolves ext bp n bl' bp' \<Longrightarrow> owned ext bl' bp'"
  by (simp add: evolves_def)

lemma evolves_length: "evolves ext bp n bl' bp' \<Longrightarrow> length bp' \<le> length bp + n"
  by (simp add: evolves_def)

lemma evolves_keeps: "evolves ext bp n bl' bp' \<Longrightarrow> keeps ext bp bp'"
  by (simp add: evolves_def)

lemma owned_distinct: "owned ext bl bp \<Longrightarrow> distinct (map buf_id bl)"
  by (simp add: owned_def)

lemma nth_ids: "k < length bl \<Longrightarrow> buf_id (bl ! k) \<in> ids bl"
  by (simp add: ids_def)

lemma owned_present:
  assumes "owned ext bl bp" and "k < length bl"
  obtains p where "map_of bp (buf_id (bl ! k)) = Some p"
  using owned_linked [OF assms(1)] nth_ids [OF assms(2)] by (blast elim: linkedE)

lemma owned_fresh:
  assumes "owned ext bl bp" and "map_of bp i = None"
  shows "ext i = 0" and "i \<notin> ids bl"
proof -
  have "\<not> linked ext (ids bl) bp i" using assms(2) by (simp add: linked_def)
  then have "\<not> (0 < ext i \<or> i \<in> ids bl)" using owned_linked [OF assms(1)] by blast
  then show "ext i = 0" and "i \<notin> ids bl" by simp_all
qed

lemma owned_unfrozen:
  "owned ext bl bp \<Longrightarrow> k < length bl \<Longrightarrow> \<not> is_snapshoted (bl ! k) \<Longrightarrow> ext (buf_id (bl ! k)) = 0"
  using owned_unfrozen_block nth_mem by blast

section \<open>Elementary changes\<close>

lemma ids_snoc [simp]: "ids (bl @ [b]) = insert (buf_id b) (ids bl)"
  by (auto simp: ids_def)

lemma ids_Nil [simp]: "ids [] = {}"
  by (simp add: ids_def)

lemma ids_replace:
  "distinct (map buf_id bl) \<Longrightarrow> k < length bl \<Longrightarrow>
   ids (bl[k := b]) = insert (buf_id b) (ids bl - {buf_id (bl ! k)})"
  using set_update_distinct [of "map buf_id bl" k "buf_id b"]
  by (simp add: ids_def map_update flip: set_map)

text \<open>A new empty buffer at the end of the list.\<close>

lemma keeps_emplace: "owned ext bl bp \<Longrightarrow> map_of bp i = None \<Longrightarrow> keeps ext bp (map_emplace i q bp)"
  using owned_fresh(1) [of ext bl bp i] by (auto simp: keeps_def)

lemma evolves_append:
  assumes own: "owned ext bl bp" and i: "map_of bp i = None"
  shows "evolves ext bp 1 (bl @ [\<lparr>buf_id = i, is_snapshoted = False\<rparr>])
           (map_emplace i \<lparr>buf_link_count = 1, buffer = d\<rparr> bp)"
proof -
  let ?bl = "bl @ [\<lparr>buf_id = i, is_snapshoted = False\<rparr>]"
  let ?bp = "map_emplace i \<lparr>buf_link_count = 1, buffer = d\<rparr> bp"
  note fresh = owned_fresh [OF own i]
  have "owned ext ?bl ?bp"
  proof (rule ownedI)
    show "linked ext (ids ?bl) ?bp j" if j: "0 < ext j \<or> j \<in> ids ?bl" for j
    proof (cases "j = i")
      case True
      then show ?thesis using fresh i by (simp add: linked_def)
    next
      case False
      then have "linked ext (ids bl) bp j" using j by (intro owned_linked [OF own]) auto
      then show ?thesis by (rule linked_cong) (use False i in auto)
    qed
  next
    show "distinct (map buf_id ?bl)" using owned_distinct [OF own] fresh(2) by (simp add: ids_def)
  qed (use owned_ok [OF own] owned_unfrozen_block [OF own] fresh in auto)
  then show ?thesis
    using keeps_emplace [OF own i] length_map_emplace [of i _ bp] by (simp add: evolves_def)
qed

text \<open>A block replaced by a new buffer.\<close>

lemma evolves_replace:
  assumes own: "owned ext bl bp" and i: "map_of bp i = None" and k: "k < length bl"
  shows "evolves ext bp 1 (bl[k := \<lparr>buf_id = i, is_snapshoted = False\<rparr>])
           (map_emplace i \<lparr>buf_link_count = 1, buffer = d\<rparr> bp)"
proof -
  let ?bl = "bl[k := \<lparr>buf_id = i, is_snapshoted = False\<rparr>]"
  let ?bp = "map_emplace i \<lparr>buf_link_count = 1, buffer = d\<rparr> bp"
  note fresh = owned_fresh [OF own i] and dist = owned_distinct [OF own]
  have ids: "ids ?bl = insert i (ids bl - {buf_id (bl ! k)})"
    using ids_replace [OF dist k] by simp
  have "owned ext ?bl ?bp"
  proof (rule ownedI)
    show "linked ext (ids ?bl) ?bp j" if j: "0 < ext j \<or> j \<in> ids ?bl" for j
    proof (cases "j = i")
      case True
      then show ?thesis using fresh i by (simp add: linked_def)
    next
      case False
      then have "linked ext (ids bl) bp j" using j by (intro owned_linked [OF own]) (auto simp: ids)
      then show ?thesis by (rule linked_cong) (use False i in \<open>auto simp: ids\<close>)
    qed
  next
    show "distinct (map buf_id ?bl)"
      using dist fresh(2) by (simp add: map_update distinct_list_update ids_def)
  next
    show "ext (buf_id b) = 0" if "b \<in> set ?bl" and "\<not> is_snapshoted b" for b
      using that set_update_subset_insert [of bl k] owned_unfrozen_block [OF own] fresh(1) by fastforce
  qed (use owned_ok [OF own] in simp)
  then show ?thesis
    using keeps_emplace [OF own i] length_map_emplace [of i _ bp] by (simp add: evolves_def)
qed

text \<open>New contents for a block that is not frozen.\<close>

lemma evolves_assign:
  assumes own: "owned ext bl bp" and k: "k < length bl" and free: "\<not> is_snapshoted (bl ! k)"
    and p: "map_of bp (buf_id (bl ! k)) = Some p"
  shows "evolves ext bp 0 bl (map_assign (buf_id (bl ! k)) (p\<lparr>buffer := d\<rparr>) bp)"
proof -
  let ?bp = "map_assign (buf_id (bl ! k)) (p\<lparr>buffer := d\<rparr>) bp"
  have "owned ext bl ?bp"
  proof (rule ownedI)
    show "linked ext (ids bl) ?bp j" if "0 < ext j \<or> j \<in> ids bl" for j
    proof -
      have l: "linked ext (ids bl) bp j" using that by (rule owned_linked [OF own])
      show ?thesis
      proof (cases "j = buf_id (bl ! k)")
        case True
        with l p show ?thesis by (auto simp: linked_def)
      next
        case False
        with l p show ?thesis by (auto simp: linked_def)
      qed
    qed
  qed (use owned_ok [OF own] owned_distinct [OF own] owned_unfrozen_block [OF own] in auto)
  moreover have "keeps ext bp ?bp"
    using owned_unfrozen [OF own k free] p by (auto simp: keeps_def)
  ultimately show ?thesis by (simp add: evolves_def)
qed

text \<open>The last block dropped: its buffer is given back unless it is frozen.\<close>

lemma ids_butlast:
  assumes "distinct (map buf_id bl)" and "bl \<noteq> []"
  shows "ids (butlast bl) = ids bl - {buf_id (last bl)}"
proof -
  obtain ys y where "bl = ys @ [y]" using assms(2) by (meson rev_exhaust)
  with assms(1) show ?thesis by (auto simp: ids_def)
qed

lemma owned_butlast:
  assumes own: "owned ext bl bp" and ne: "bl \<noteq> []"
  shows "owned ext (butlast bl) bp"
proof (rule ownedI)
  note ids = ids_butlast [OF owned_distinct [OF own] ne]
  show "linked ext (ids (butlast bl)) bp j" if "0 < ext j \<or> j \<in> ids (butlast bl)" for j
  proof -
    have "linked ext (ids bl) bp j" using that by (intro owned_linked [OF own]) (auto simp: ids)
    then show ?thesis by (rule linked_cong) (auto simp: ids)
  qed
  show "distinct (map buf_id (butlast bl))"
    using owned_distinct [OF own] by (simp add: map_butlast distinct_butlast)
qed (use owned_ok [OF own] owned_unfrozen_block [OF own] in \<open>auto dest: in_set_butlastD\<close>)

text \<open>A pool that agrees with \<open>bp\<close> outside a number nobody references is as good.\<close>

lemma owned_unreferenced:
  assumes own: "owned ext bl bp" and "ext j = 0" and "j \<notin> ids bl"
    and "map_ok bp'" and same: "\<And>i. i \<noteq> j \<Longrightarrow> map_of bp' i = map_of bp i"
  shows "owned ext bl bp'"
proof (rule ownedI)
  show "linked ext (ids bl) bp' i" if i: "0 < ext i \<or> i \<in> ids bl" for i
  proof -
    have "i \<noteq> j" using i assms(2,3) by auto
    then show ?thesis using owned_linked [OF own i] same by (auto intro: linked_cong)
  qed
qed (use assms owned_distinct [OF own] owned_unfrozen_block [OF own] in auto)

lemma unlink_last:
  assumes "owned ext bl bp" and "bl \<noteq> []" and "\<not> is_snapshoted (last bl)"
  obtains bp' where "unlink_buffer (buf_id (last bl)) bp = (Inr (), bp')"
    and "evolves ext bp 0 (butlast bl) bp'"
    and "contents bp' (butlast bl) = butlast (contents bp bl)"
proof -
  let ?j = "buf_id (last bl)"
  note dist = owned_distinct [OF assms(1)]
  have last_in: "last bl \<in> set bl" using assms(2) by simp
  have ext0: "ext ?j = 0" using owned_unfrozen_block [OF assms(1) last_in assms(3)] .
  have "?j \<in> ids bl" using last_in by (simp add: ids_def)
  then obtain p where p: "map_of bp ?j = Some p"
    using owned_linked [OF assms(1), of ?j] by (blast elim: linkedE)
  define bp' where "bp' = (if buf_link_count p = 1 then map_erase ?j bp
                else map_assign ?j (p\<lparr>buf_link_count := sub64 (buf_link_count p) 1\<rparr>) bp)"
  have run: "unlink_buffer ?j bp = (Inr (), bp')" using p by (simp add: unlink_buffer_eq bp'_def)
  have other: "i \<noteq> ?j \<Longrightarrow> map_of bp' i = map_of bp i" for i using p by (simp add: bp'_def)
  have ok: "map_ok bp'" using assms(1) by (simp add: bp'_def owned_ok)
  have notin: "?j \<notin> ids (butlast bl)" by (simp add: ids_butlast [OF dist assms(2)])
  have "owned ext (butlast bl) bp'"
    using owned_butlast [OF assms(1,2)] ext0 notin ok other by (rule owned_unreferenced)
  moreover have "keeps ext bp bp'" using other ext0 by (metis keeps_def less_irrefl)
  moreover have "length bp' \<le> length bp"
    by (simp add: bp'_def length_map_erase)
  ultimately have ev: "evolves ext bp 0 (butlast bl) bp'" by (simp add: evolves_def)
  have "contents bp' (butlast bl) = contents bp (butlast bl)"
  proof (rule contents_cong)
    fix i assume "i \<in> ids (butlast bl)"
    then have "i \<noteq> ?j" using notin by auto
    then show "bdata bp' i = bdata bp i" by (simp add: bdata_def other)
  qed
  then have "contents bp' (butlast bl) = butlast (contents bp bl)" by simp
  with run ev show thesis by (rule that)
qed

end
