(* ===== verification/Inode_Truncate.thy ===== *)
theory Inode_Truncate
  imports Ownership
begin

text \<open>
  Correctness of \<open>inode_t::truncate\<close>: under the ownership invariant it succeeds, resizes the
  byte string of the current version, leaves every block of that version unfrozen and no
  buffer that others reference changed.
\<close>

section \<open>The inode with another current block list\<close>

abbreviation cur :: "inode_t \<Rightarrow> buffer_result_t list option" where
  "cur i \<equiv> map_of (buffer_map i) FILESYSTEM_CUR_MODIFIABLE_VER"

definition with_cur :: "inode_t \<Rightarrow> buffer_result_t list \<Rightarrow> inode_t" where
  "with_cur i bl = i\<lparr>buffer_map := map_assign FILESYSTEM_CUR_MODIFIABLE_VER bl (buffer_map i)\<rparr>"

lemma map_assign_assign [simp]: "map_assign k v (map_assign k w m) = map_assign k v m"
  by (induction m) auto

lemma map_assign_same: "map_of m k = Some v \<Longrightarrow> map_assign k v m = m"
  by (induction m) auto

lemma cur_with_cur [simp]: "cur i = Some bl \<Longrightarrow> cur (with_cur i bl') = Some bl'"
  by (simp add: with_cur_def)

lemma with_cur_with_cur [simp]: "with_cur (with_cur i bl) bl' = with_cur i bl'"
  by (simp add: with_cur_def)

lemma with_cur_same: "cur i = Some bl \<Longrightarrow> with_cur i bl = i"
  by (simp add: with_cur_def map_assign_same)

lemma with_cur_fields [simp]:
  "block_size (with_cur i bl) = block_size i"
  "inode_id (with_cur i bl) = inode_id i"
  "is_dentry (with_cur i bl) = is_dentry i"
  "fs_stat (with_cur i bl) = fs_stat i"
  by (simp_all add: with_cur_def)

lemma map_of_with_cur:
  "v \<noteq> FILESYSTEM_CUR_MODIFIABLE_VER \<Longrightarrow> map_of (buffer_map (with_cur i bl)) v = map_of (buffer_map i) v"
  by (simp add: with_cur_def map_of_assign)

lemma map_keys_with_cur [simp]: "map fst (buffer_map (with_cur i bl)) = map fst (buffer_map i)"
  by (simp add: with_cur_def)

lemma blocks_at_eq [simp]: "map_of (buffer_map i) v = Some bl \<Longrightarrow> blocks_at v (i, bp) = (Inr bl, (i, bp))"
  by (simp add: blocks_at_def exec_simps)

lemma set_current_blocks_eq [simp]: "set_current_blocks bl (i, bp) = (Inr (), (with_cur i bl, bp))"
  by (simp add: set_blocks_def exec_simps with_cur_def)

lemma the_block_size_eq [simp]: "the_block_size (i, bp) = (Inr (block_size i), (i, bp))"
  by (simp add: the_block_size_def exec_simps)

lemma on_pool_eq: "on_pool m (i, bp) = (case m bp of (r, bp') \<Rightarrow> (r, (i, bp')))"
  by (simp add: on_pool_def exec_simps)

lemmas inode_exec = exec_simps on_pool_eq vec_at_def vec_index_def verify_len_def

section \<open>Copy on write\<close>

lemma cow_block_thawed:
  "cur i = Some bl \<Longrightarrow> k < length bl \<Longrightarrow> \<not> is_snapshoted (bl ! k) \<Longrightarrow> cow_block k (i, bp) = (Inr (), (i, bp))"
  by (simp add: cow_block_def inode_exec)

text \<open>The loop body on a frozen block: the new buffer has the same bytes.\<close>

lemma cow_block_frozen:
  assumes cur: "cur i = Some bl" and own: "owned ext bl bp" and k: "k < length bl"
    and frozen: "is_snapshoted (bl ! k)"
    and size: "length (contents bp bl ! k) \<le> block_size i" and bs: "block_size i < 2 ^ 64"
    and room: "length bp < buffer_pool_max_size"
  obtains bl' bp' where "cow_block k (i, bp) = (Inr (), (with_cur i bl', bp'))"
    and "evolves ext bp 1 bl' bp'" and "contents bp' bl' = contents bp bl"
    and "\<exists>j. bl' = bl[k := \<lparr>buf_id = j, is_snapshoted = False\<rparr>]"
proof -
  obtain p where p: "map_of bp (buf_id (bl ! k)) = Some p" using own k by (rule owned_present)
  have d: "bdata bp (buf_id (bl ! k)) = buffer p" by (simp add: bdata_def p)
  have read: "buffer_read (buffer p) (block_size i) 0 = Inr (buffer p)"
    using size bs k by (simp add: buffer_read_eq d)
  obtain j where j: "map_of bp j = None"
    and alloc: "request_buffer_allocation bp
      = (Inr \<lparr>buf_id = j, is_snapshoted = False\<rparr>, map_emplace j \<lparr>buf_link_count = 1, buffer = []\<rparr> bp)"
    using room by (rule request_buffer_allocation_eq)
  let ?fresh = "map_emplace j \<lparr>buf_link_count = 1, buffer = []\<rparr> bp"
  let ?bp = "map_assign j \<lparr>buf_link_count = 1, buffer = buffer p\<rparr> ?fresh"
  let ?bl = "bl[k := \<lparr>buf_id = j, is_snapshoted = False\<rparr>]"
  have "buffer_write [] (buffer p) (length (buffer p)) 0 True = Inr (buffer p, length (buffer p))"
    using size bs k by (simp add: buffer_write_resize_eq d)
  then have wr: "pool_write j (buffer p) (length (buffer p)) 0 True ?fresh = (Inr (length (buffer p)), ?bp)"
    using j by (simp add: pool_write_eq)
  have run: "cow_block k (i, bp) = (Inr (), (with_cur i ?bl, ?bp))"
    using cur k frozen p read by (simp add: cow_block_def inode_exec alloc wr del: One_nat_def)
  have ev1: "evolves ext bp 1 ?bl ?fresh" using own j k by (rule evolves_replace)
  have "evolves ext ?fresh 0 ?bl (map_assign (buf_id (?bl ! k)) (\<lparr>buf_link_count = 1, buffer = []\<rparr>\<lparr>buffer := buffer p\<rparr>) ?fresh)"
    using evolves_owned [OF ev1] k j by (intro evolves_assign) simp_all
  then have ev2: "evolves ext ?fresh 0 ?bl ?bp" using k by simp
  have ev: "evolves ext bp 1 ?bl ?bp" using evolves_trans [OF ev1 ev2] by simp
  have "contents ?bp ?bl = contents bp bl"
  proof -
    have notin: "j \<notin> ids bl" using owned_fresh(2) [OF own j] .
    have "contents ?bp ?bl = map (\<lambda>b. ((bdata bp)(j := buffer p)) (buf_id b)) ?bl"
      using j by (simp add: contents_def)
    also have "\<dots> = (map (\<lambda>b. ((bdata bp)(j := buffer p)) (buf_id b)) bl)[k := buffer p]"
      by (simp add: map_update)
    also have "\<dots> = contents bp bl"
      unfolding contents_other [OF notin] using k d
      by (metis contents_def list_update_id nth_contents)
    finally show ?thesis .
  qed
  with run ev show thesis by (rule that) blast
qed

definition thawed :: "buffer_result_t list \<Rightarrow> nat \<Rightarrow> nat \<Rightarrow> bool" where
  "thawed bl k n \<longleftrightarrow> (\<forall>j. k \<le> j \<and> j < n \<and> j < length bl \<longrightarrow> \<not> is_snapshoted (bl ! j))"

lemma cow_range_ok:
  assumes "cur i = Some bl" and "owned ext bl bp" and "k + n \<le> length bl"
    and "\<forall>c\<in>set (contents bp bl). length c \<le> block_size i" and "block_size i < 2 ^ 64"
    and "length bp + n \<le> buffer_pool_max_size" and "thawed bl s k" and "s \<le> k"
  shows "\<exists>bl' bp'. cow_range n k (i, bp) = (Inr (), (with_cur i bl', bp'))
     \<and> evolves ext bp n bl' bp' \<and> contents bp' bl' = contents bp bl \<and> thawed bl' s (k + n)
     \<and> length bl' = length bl"
  using assms
proof (induction n arbitrary: i bl bp k)
  case 0
  then show ?case
    by (intro exI [of _ bl] exI [of _ bp]) (simp add: exec_simps with_cur_same evolves_refl)
next
  case (Suc n)
  have k: "k < length bl" using Suc.prems(3) by simp
  have "\<exists>bl1 bp1. cow_block k (i, bp) = (Inr (), (with_cur i bl1, bp1)) \<and> evolves ext bp 1 bl1 bp1
      \<and> contents bp1 bl1 = contents bp bl \<and> thawed bl1 s (Suc k) \<and> length bl1 = length bl"
  proof (cases "is_snapshoted (bl ! k)")
    case False
    then have "thawed bl s (Suc k)" using Suc.prems(7) by (auto simp: thawed_def less_Suc_eq)
    moreover have "cow_block k (i, bp) = (Inr (), (with_cur i bl, bp))"
      using False k Suc.prems(1) by (simp add: cow_block_thawed with_cur_same)
    moreover have "evolves ext bp 1 bl bp"
      using evolves_mono [OF evolves_refl [OF Suc.prems(2)], of 1] by simp
    ultimately show ?thesis by blast
  next
    case True
    have "length (contents bp bl ! k) \<le> block_size i"
      using Suc.prems(4) k by (simp only: length_contents nth_mem)
    moreover have "length bp < buffer_pool_max_size" using Suc.prems(6) by simp
    ultimately obtain bl' bp' where run: "cow_block k (i, bp) = (Inr (), (with_cur i bl', bp'))"
      "evolves ext bp 1 bl' bp'" "contents bp' bl' = contents bp bl"
      and upd: "\<exists>j. bl' = bl[k := \<lparr>buf_id = j, is_snapshoted = False\<rparr>]"
      using cow_block_frozen [OF Suc.prems(1,2) k True _ Suc.prems(5)] by blast
    have "thawed bl' s (Suc k)" and "length bl' = length bl"
      using upd Suc.prems(7) k by (auto simp: thawed_def nth_list_update less_Suc_eq)
    with run show ?thesis by blast
  qed
  then obtain bl1 bp1 where c1: "cow_block k (i, bp) = (Inr (), (with_cur i bl1, bp1))"
    and ev1: "evolves ext bp 1 bl1 bp1" and co1: "contents bp1 bl1 = contents bp bl"
    and th1: "thawed bl1 s (Suc k)" and len1: "length bl1 = length bl" by blast
  have "length bp1 \<le> length bp + 1" using ev1 by (rule evolves_length)
  then have "\<exists>bl' bp'. cow_range n (Suc k) (with_cur i bl1, bp1) = (Inr (), (with_cur (with_cur i bl1) bl', bp'))
     \<and> evolves ext bp1 n bl' bp' \<and> contents bp' bl' = contents bp1 bl1 \<and> thawed bl' s (Suc k + n)
     \<and> length bl' = length bl1"
    using Suc.prems ev1 co1 th1 len1 by (intro Suc.IH) simp_all
  then obtain bl2 bp2 where c2: "cow_range n (Suc k) (with_cur i bl1, bp1) = (Inr (), (with_cur i bl2, bp2))"
    and ev2: "evolves ext bp1 n bl2 bp2" and co2: "contents bp2 bl2 = contents bp1 bl1"
    and th2: "thawed bl2 s (Suc k + n)" and len2: "length bl2 = length bl1" by auto
  have "cow_range (Suc n) k (i, bp) = (Inr (), (with_cur i bl2, bp2))"
    by (simp add: exec_simps c1 c2)
  moreover have "evolves ext bp (Suc n) bl2 bp2" using evolves_trans [OF ev1 ev2] by simp
  ultimately show ?case using co1 co2 th2 len1 len2 by (intro exI [of _ bl2] exI [of _ bp2]) simp
qed

section \<open>Growing and shrinking the block list\<close>

lemma append_buffers_ok:
  assumes "cur i = Some bl" and "owned ext bl bp" and "length bp + n \<le> buffer_pool_max_size"
  shows "\<exists>bl' bp'. append_buffers n (i, bp) = (Inr (), (with_cur i bl', bp'))
     \<and> evolves ext bp n bl' bp' \<and> contents bp' bl' = contents bp bl @ replicate n []
     \<and> take (length bl) bl' = bl \<and> length bl' = length bl + n
     \<and> thawed bl' (length bl) (length bl')"
  using assms
proof (induction n arbitrary: i bl bp)
  case 0
  then show ?case
    by (intro exI [of _ bl] exI [of _ bp]) (auto simp: exec_simps with_cur_same evolves_refl thawed_def)
next
  case (Suc n)
  have "length bp < buffer_pool_max_size" using Suc.prems(3) by simp
  then obtain j where j: "map_of bp j = None" and alloc: "request_buffer_allocation bp
      = (Inr \<lparr>buf_id = j, is_snapshoted = False\<rparr>, map_emplace j \<lparr>buf_link_count = 1, buffer = []\<rparr> bp)"
    by (rule request_buffer_allocation_eq)
  let ?b = "\<lparr>buf_id = j, is_snapshoted = False\<rparr>"
  let ?fresh = "map_emplace j \<lparr>buf_link_count = 1, buffer = []\<rparr> bp"
  have ev1: "evolves ext bp 1 (bl @ [?b]) ?fresh" using Suc.prems(2) j by (rule evolves_append)
  have co1: "contents ?fresh (bl @ [?b]) = contents bp bl @ [[]]"
    using j contents_other [OF owned_fresh(2) [OF Suc.prems(2) j], of "bdata bp" "[]"]
    by (simp add: contents_def)
  have "length ?fresh \<le> length bp + 1" using ev1 by (rule evolves_length)
  then obtain bl2 bp2 where run: "append_buffers n (with_cur i (bl @ [?b]), ?fresh) = (Inr (), (with_cur i bl2, bp2))"
    and ev2: "evolves ext ?fresh n bl2 bp2"
    and co2: "contents bp2 bl2 = contents ?fresh (bl @ [?b]) @ replicate n []"
    and tk2: "take (length (bl @ [?b])) bl2 = bl @ [?b]" and len2: "length bl2 = length (bl @ [?b]) + n"
    and th2: "thawed bl2 (length (bl @ [?b])) (length bl2)"
    using Suc.IH [of "with_cur i (bl @ [?b])" "bl @ [?b]" ?fresh] Suc.prems ev1 by auto
  have "append_buffers (Suc n) (i, bp) = (Inr (), (with_cur i bl2, bp2))"
    using Suc.prems(1) run by (simp add: inode_exec alloc del: One_nat_def)
  moreover have "evolves ext bp (Suc n) bl2 bp2" using evolves_trans [OF ev1 ev2] by simp
  moreover have "contents bp2 bl2 = contents bp bl @ replicate (Suc n) []"
    using co1 co2 by (simp add: replicate_append_same)
  moreover have "take (length bl) bl2 = bl"
    using arg_cong [OF tk2, of "take (length bl)"] by (simp add: min_def)
  moreover have "\<not> is_snapshoted (bl2 ! length bl)"
  proof -
    have "bl2 ! length bl = take (length (bl @ [?b])) bl2 ! length bl" by simp
    then show ?thesis by (simp only: tk2) simp
  qed
  then have "thawed bl2 (length bl) (length bl2)"
    using th2 unfolding thawed_def by (metis Suc_leI le_neq_implies_less length_append_singleton)
  ultimately show ?case using len2 by (intro exI [of _ bl2] exI [of _ bp2]) simp
qed

lemma drop_buffers_ok:
  assumes "cur i = Some bl" and "owned ext bl bp" and "n \<le> length bl"
  shows "\<exists>bl' bp'. drop_buffers n (i, bp) = (Inr (), (with_cur i bl', bp'))
     \<and> evolves ext bp 0 bl' bp' \<and> contents bp' bl' = take (length bl - n) (contents bp bl)
     \<and> length bl' = length bl - n"
  using assms
proof (induction n arbitrary: i bl bp)
  case 0
  then show ?case
    by (intro exI [of _ bl] exI [of _ bp]) (simp add: exec_simps with_cur_same evolves_refl)
next
  case (Suc n)
  have ne: "bl \<noteq> []" using Suc.prems(3) by auto
  let ?step = "if \<not> is_snapshoted (last bl) then on_pool (unlink_buffer (buf_id (last bl))) else ret ()"
  have "\<exists>bp1. ?step (i, bp) = (Inr (), (i, bp1)) \<and> evolves ext bp 0 (butlast bl) bp1
      \<and> contents bp1 (butlast bl) = butlast (contents bp bl)"
  proof (cases "is_snapshoted (last bl)")
    case True
    moreover have "evolves ext bp 0 (butlast bl) bp"
      using evolves_refl [OF owned_butlast [OF Suc.prems(2) ne]] .
    ultimately show ?thesis by (simp add: exec_simps)
  next
    case False
    then obtain bp1 where "unlink_buffer (buf_id (last bl)) bp = (Inr (), bp1)"
      "evolves ext bp 0 (butlast bl) bp1" "contents bp1 (butlast bl) = butlast (contents bp bl)"
      by (rule unlink_last [OF Suc.prems(2) ne])
    with False show ?thesis by (simp add: on_pool_eq)
  qed
  then obtain bp1 where step: "?step (i, bp) = (Inr (), (i, bp1))"
    and ev1: "evolves ext bp 0 (butlast bl) bp1" and co1: "contents bp1 (butlast bl) = butlast (contents bp bl)"
    by blast
  have "n \<le> length (butlast bl)" using Suc.prems(3) by simp
  then obtain bl2 bp2 where run: "drop_buffers n (with_cur i (butlast bl), bp1) = (Inr (), (with_cur i bl2, bp2))"
    and ev2: "evolves ext bp1 0 bl2 bp2"
    and co2: "contents bp2 bl2 = take (length (butlast bl) - n) (contents bp1 (butlast bl))"
    and len2: "length bl2 = length (butlast bl) - n"
    using Suc.IH [of "with_cur i (butlast bl)" "butlast bl" bp1] Suc.prems(1) ev1
    by (auto simp del: contents_butlast)
  have "drop_buffers (Suc n) (i, bp) = (Inr (), (with_cur i bl2, bp2))"
    using Suc.prems(1) ne run step by (simp add: bindx_app)
  moreover have "evolves ext bp 0 bl2 bp2" using evolves_trans [OF ev1 ev2] by simp
  moreover have "contents bp2 bl2 = take (length bl - Suc n) (contents bp bl)"
    using Suc.prems(3) by (simp add: co2 co1 take_butlast del: contents_butlast)
  ultimately show ?case using len2 by (intro exI [of _ bl2] exI [of _ bp2]) simp
qed

section \<open>Resizing the blocks\<close>

lemma truncate_at_ok:
  assumes "cur i = Some bl" and own: "owned ext bl bp" and k: "k < length bl" and free: "\<not> is_snapshoted (bl ! k)"
  obtains bp' where "truncate_at k len (i, bp) = (Inr (), (i, bp'))" and "evolves ext bp 0 bl bp'"
    and "contents bp' bl = (contents bp bl)[k := buffer_truncate (contents bp bl ! k) len]"
proof -
  obtain p where p: "map_of bp (buf_id (bl ! k)) = Some p" using own k by (rule owned_present)
  let ?bp = "map_assign (buf_id (bl ! k)) (p\<lparr>buffer := buffer_truncate (buffer p) len\<rparr>) bp"
  have "truncate_at k len (i, bp) = (Inr (), (i, ?bp))"
    using assms(1) k p by (simp add: truncate_at_def inode_exec pool_truncate_eq)
  moreover have "evolves ext bp 0 bl ?bp" using own k free p by (rule evolves_assign)
  moreover have "contents ?bp bl = (contents bp bl)[k := buffer_truncate (contents bp bl ! k) len]"
    using contents_assign [OF owned_distinct [OF own] k p] k p by (simp add: bdata_def)
  ultimately show thesis by (rule that)
qed

lemma truncate_full_ok:
  assumes "cur i = Some bl" and "owned ext bl bp" and "starting + j + n \<le> length bl"
    and "thawed bl 0 (length bl)" and "length bl < 2 ^ 64"
  shows "\<exists>bp'. truncate_full n starting j (i, bp) = (Inr (), (i, bp')) \<and> evolves ext bp 0 bl bp'
     \<and> (\<forall>k<length bl. contents bp' bl ! k =
          (if starting + j \<le> k \<and> k < starting + j + n
           then buffer_truncate (contents bp bl ! k) (block_size i) else contents bp bl ! k))"
  using assms
proof (induction n arbitrary: bp j)
  case 0
  then show ?case by (intro exI [of _ bp]) (auto simp: exec_simps evolves_refl)
next
  case (Suc n)
  have k: "starting + j < length bl" using Suc.prems(3) by simp
  then have free: "\<not> is_snapshoted (bl ! (starting + j))" using Suc.prems(4) by (simp add: thawed_def)
  have add: "add64 starting j = starting + j" using Suc.prems(5) k by (simp add: u64_simps)
  obtain bp1 where run1: "truncate_at (starting + j) (block_size i) (i, bp) = (Inr (), (i, bp1))"
    and ev1: "evolves ext bp 0 bl bp1"
    and co1: "contents bp1 bl = (contents bp bl)[starting + j :=
                buffer_truncate (contents bp bl ! (starting + j)) (block_size i)]"
    using Suc.prems(1,2) k free by (rule truncate_at_ok)
  have "starting + Suc j + n \<le> length bl" using Suc.prems(3) by simp
  from Suc.IH [OF Suc.prems(1) evolves_owned [OF ev1] this Suc.prems(4,5)]
  obtain bp2 where run2: "truncate_full n starting (Suc j) (i, bp1) = (Inr (), (i, bp2))"
    and ev2: "evolves ext bp1 0 bl bp2"
    and co2: "\<forall>k<length bl. contents bp2 bl ! k =
          (if starting + Suc j \<le> k \<and> k < starting + Suc j + n
           then buffer_truncate (contents bp1 bl ! k) (block_size i) else contents bp1 bl ! k)"
    by blast
  have "truncate_full (Suc n) starting j (i, bp) = (Inr (), (i, bp2))"
    by (simp add: bindx_app add run1 run2)
  moreover have "evolves ext bp 0 bl bp2" using evolves_trans [OF ev1 ev2] by simp
  moreover have "contents bp2 bl ! m =
      (if starting + j \<le> m \<and> m < starting + j + Suc n
       then buffer_truncate (contents bp bl ! m) (block_size i) else contents bp bl ! m)"
    if "m < length bl" for m
    using co2 that by (cases "m = starting + j") (simp_all add: co1 nth_list_update del: nth_contents)
  ultimately show ?case by blast
qed

text \<open>The three steps that end \<open>truncate\<close> give block \<open>k\<close> of \<open>len\<close> bytes its size.\<close>

lemma resize_blocks_ok:
  assumes cur: "cur i = Some bl" and own: "owned ext bl bp" and th: "thawed bl 0 (length bl)"
    and bs: "0 < block_size i" and len: "0 < len" "len < 2 ^ 64"
    and count: "length bl = block_count len (block_size i)"
  shows "\<exists>bp'. bindx (truncate_at 0 (first_len (block_size i) 0 len)) (\<lambda>_.
          bindx (truncate_full (full_count (block_size i) 0 len) 0 1) (\<lambda>_.
          if last_len (block_size i) 0 len \<noteq> 0
          then truncate_at (add64 (add64 0 (full_count (block_size i) 0 len)) 1) (last_len (block_size i) 0 len)
          else ret ())) (i, bp) = (Inr (), (i, bp'))
     \<and> evolves ext bp 0 bl bp'
     \<and> (\<forall>k<length bl. contents bp' bl ! k =
          buffer_truncate (contents bp bl ! k) (min (block_size i) (len - k * block_size i)))"
proof -
  let ?bs = "block_size i" and ?f = "first_len (block_size i) 0 len"
  let ?n = "full_count (block_size i) 0 len" and ?l = "last_len (block_size i) 0 len"
  have total: "?f + ?n * ?bs + ?l = len" by (rule range_total)
  have pos: "?f + m * ?bs = Suc m * ?bs" if "m < ?n \<or> (m = ?n \<and> 0 < ?l)" for m
    using full_position [OF bs that] by simp
  have lt: "k < length bl \<longleftrightarrow> k * ?bs < len" for k
    unfolding count by (rule less_block_count [OF bs])
  have f: "?f = min ?bs len" by (simp add: first_len_def min_def)
  have n: "Suc ?n \<le> length bl" "?n = length bl - Suc (if ?l = 0 then 0 else 1)"
    and lk: "0 < ?l \<longrightarrow> Suc ?n < length bl"
  proof -
    have ub: "length bl \<le> k \<longleftrightarrow> len \<le> k * ?bs" for k using lt [of k] by (simp add: not_less [symmetric])
    have a: "len \<le> (?n + (if ?l = 0 then 1 else 2)) * ?bs"
    proof (cases "0 < ?n \<or> 0 < ?l")
      case True
      then have "?f = ?bs" using next_block [OF bs True] by simp
      then show ?thesis using total last_less [OF bs, of 0 len] by (simp add: algebra_simps)
    next
      case False
      then show ?thesis using total f by simp
    qed
    have b: "(?n + (if ?l = 0 then 0 else 1)) * ?bs < len"
    proof (cases "0 < ?n \<or> 0 < ?l")
      case True
      then have "?f = ?bs" using next_block [OF bs True] by simp
      then show ?thesis using total bs by (simp add: algebra_simps)
    next
      case False
      then show ?thesis using len by simp
    qed
    show "Suc ?n \<le> length bl" using lt [of ?n] b by (simp split: if_splits)
    show "0 < ?l \<longrightarrow> Suc ?n < length bl"
    proof
      assume "0 < ?l"
      then show "Suc ?n < length bl" using lt [of "Suc ?n"] b by simp
    qed
    show "?n = length bl - Suc (if ?l = 0 then 0 else 1)"
      using ub [of "?n + (if ?l = 0 then 1 else 2)"] a lt [of "?n + (if ?l = 0 then 0 else 1)"] b
      by (simp split: if_splits)
  qed
  have small: "length bl < 2 ^ 64" using block_count_le_self [OF bs, of len] count len by simp
  have free: "k < length bl \<Longrightarrow> \<not> is_snapshoted (bl ! k)" for k using th by (simp add: thawed_def)
  have "0 < length bl" using n(1) by linarith
  from truncate_at_ok [OF cur own this free [OF this], of ?f]
  obtain bp1 where run1: "truncate_at 0 ?f (i, bp) = (Inr (), (i, bp1))" and ev1: "evolves ext bp 0 bl bp1"
    and co1: "contents bp1 bl = (contents bp bl)[0 := buffer_truncate (contents bp bl ! 0) ?f]" .
  from truncate_full_ok [OF cur evolves_owned [OF ev1] _ th small, of 0 1 ?n] n(1)
  obtain bp2 where run2: "truncate_full ?n 0 1 (i, bp1) = (Inr (), (i, bp2))" and ev2: "evolves ext bp1 0 bl bp2"
    and co2: "\<forall>k<length bl. contents bp2 bl ! k =
          (if 1 \<le> k \<and> k < 1 + ?n then buffer_truncate (contents bp1 bl ! k) ?bs else contents bp1 bl ! k)"
    by auto
  let ?last = "if ?l \<noteq> 0 then truncate_at (add64 (add64 0 ?n) 1) ?l else ret ()"
  have "\<exists>bp3. ?last (i, bp2) = (Inr (), (i, bp3)) \<and> evolves ext bp2 0 bl bp3
      \<and> (\<forall>k<length bl. contents bp3 bl ! k =
          (if k = Suc ?n \<and> ?l \<noteq> 0 then buffer_truncate (contents bp2 bl ! k) ?l else contents bp2 bl ! k))"
  proof (cases "?l = 0")
    case True
    then show ?thesis using evolves_refl [OF evolves_owned [OF ev2]] by (simp add: exec_simps)
  next
    case False
    then have k: "Suc ?n < length bl" using lk by simp
    have add: "add64 (add64 0 ?n) 1 = Suc ?n" using k small by (simp add: u64_simps)
    obtain bp3 where "truncate_at (Suc ?n) ?l (i, bp2) = (Inr (), (i, bp3))" "evolves ext bp2 0 bl bp3"
      "contents bp3 bl = (contents bp2 bl)[Suc ?n := buffer_truncate (contents bp2 bl ! Suc ?n) ?l]"
      using truncate_at_ok [OF cur evolves_owned [OF ev2] k free [OF k]] .
    with False k show ?thesis
      by (intro exI [of _ bp3]) (simp add: add nth_list_update del: nth_contents One_nat_def)
  qed
  then obtain bp3 where run3: "?last (i, bp2) = (Inr (), (i, bp3))" and ev3: "evolves ext bp2 0 bl bp3"
    and co3: "\<forall>k<length bl. contents bp3 bl ! k =
          (if k = Suc ?n \<and> ?l \<noteq> 0 then buffer_truncate (contents bp2 bl ! k) ?l else contents bp2 bl ! k)"
    by blast
  have "contents bp3 bl ! k = buffer_truncate (contents bp bl ! k) (min ?bs (len - k * ?bs))"
    if k: "k < length bl" for k
  proof -
    have "k \<le> ?n \<or> (k = Suc ?n \<and> ?l \<noteq> 0)"
      using k n(1,2) by (cases "?l = 0") (simp; linarith)+
    then consider "k = 0" | "1 \<le> k" "k < 1 + ?n" | "k = Suc ?n" "?l \<noteq> 0" by linarith
    then show ?thesis
    proof cases
      case 1
      then show ?thesis using co3 co2 co1 k f by (simp del: nth_contents)
    next
      case 2
      then obtain m where m: "k = Suc m" "m < ?n" by (cases k) auto
      have "Suc m * ?bs \<le> ?n * ?bs" using m(2) by (intro mult_le_mono1) simp
      moreover have "?f = ?bs" using pos [of m] m(2) by simp
      ultimately have "k * ?bs + ?bs \<le> len" using total unfolding m(1) by linarith
      then have "min ?bs (len - k * ?bs) = ?bs" by simp
      then show ?thesis using co3 co2 co1 k 2 by (simp add: m(1) del: nth_contents)
    next
      case 3
      then have "?f + ?n * ?bs = k * ?bs" using pos [of ?n] by simp
      then have "len - k * ?bs = ?l" using total by simp
      then have "min ?bs (len - k * ?bs) = ?l" using last_less [OF bs, of 0 len] by simp
      then show ?thesis using co3 co2 co1 k 3 by (simp del: nth_contents)
    qed
  qed
  moreover have "evolves ext bp 0 bl bp3"
    using evolves_trans [OF evolves_trans [OF ev1 ev2] ev3] by simp
  ultimately show ?thesis using run1 run2 run3 by (intro exI [of _ bp3]) (simp add: bindx_app)
qed

section \<open>Truncate\<close>

text \<open>
  The first half of \<open>truncate\<close>: the block list gets its new length, and no block of it is
  frozen any more. Block \<open>k\<close> holds what the old string has at its place.
\<close>

definition adjust_blocks :: "nat \<Rightarrow> nat \<Rightarrow> buffer_result_t list \<Rightarrow> (ist, exc, unit) exec" where
  "adjust_blocks len bs bl =
     (if length bl * bs < len then
        bindx (append_buffers (block_count (len - length bl * bs) bs)) (\<lambda>_.
        bindx current_blocks (\<lambda>bl'. cow_range (length bl') 0))
      else
        bindx (drop_buffers (length bl - block_count len bs)) (\<lambda>_. cow_range (block_count len bs) 0))"

lemma chunk_lengths: "x \<in> set (chunk bs c) \<Longrightarrow> length x \<le> bs"
  by (auto simp: chunk_def)

lemma evolves_length_max:
  "evolves ext bp n bl bp' \<Longrightarrow> length bp + n + m \<le> k \<Longrightarrow> length bp' + m \<le> k"
  using evolves_length [of ext bp n bl bp'] by linarith

lemma thawed_take: "take n bl = xs \<Longrightarrow> length xs = n \<Longrightarrow> thawed xs 0 m \<Longrightarrow> m \<le> n \<Longrightarrow> thawed bl 0 m"
  unfolding thawed_def by (metis length_take min_less_iff_conj nth_take order_less_le_trans)

lemma adjust_blocks_ok:
  assumes cur: "cur i = Some bl" and own: "owned ext bl bp" and bs: "0 < block_size i" "block_size i < 2 ^ 64"
    and co: "contents bp bl = chunk (block_size i) c"
    and room: "length bp + 2 * block_count len (block_size i) \<le> buffer_pool_max_size"
  shows "\<exists>bl' bp'. adjust_blocks len (block_size i) bl (i, bp) = (Inr (), (with_cur i bl', bp'))
     \<and> evolves ext bp (2 * block_count len (block_size i)) bl' bp'
     \<and> length bl' = block_count len (block_size i) \<and> thawed bl' 0 (length bl')
     \<and> (\<forall>k<length bl'. contents bp' bl' ! k = take (block_size i) (drop (k * block_size i) c))"
proof -
  let ?bs = "block_size i" and ?m = "block_count len (block_size i)"
  have lc: "length bl = block_count (length c) ?bs"
    using arg_cong [OF co, of length] by simp
  have "\<exists>bl1 bp1. (if length bl * ?bs < len then append_buffers (block_count (len - length bl * ?bs) ?bs)
            else drop_buffers (length bl - ?m)) (i, bp) = (Inr (), (with_cur i bl1, bp1))
      \<and> evolves ext bp ?m bl1 bp1 \<and> length bl1 = ?m
      \<and> (\<forall>k<?m. contents bp1 bl1 ! k = take ?bs (drop (k * ?bs) c))"
  proof (cases "length bl * ?bs < len")
    case True
    let ?n = "block_count (len - length bl * ?bs) ?bs"
    have m: "length bl + ?n = ?m" using True bs(1) by (intro block_count_grow) simp_all
    have "length bp + ?n \<le> buffer_pool_max_size" using room m by linarith
    from append_buffers_ok [OF cur own this] obtain bl1 bp1
      where run: "append_buffers ?n (i, bp) = (Inr (), (with_cur i bl1, bp1))"
        and ev: "evolves ext bp ?n bl1 bp1" and co1: "contents bp1 bl1 = contents bp bl @ replicate ?n []"
        and len1: "length bl1 = length bl + ?n" by blast
    have "contents bp1 bl1 ! k = take ?bs (drop (k * ?bs) c)" if "k < ?m" for k
    proof (cases "k < length bl")
      case True
      then show ?thesis using lc by (simp add: co1 co nth_append nth_chunk del: nth_contents)
    next
      case False
      then have "length c \<le> k * ?bs" using lc block_count_le_iff [OF bs(1), of "length c" k] by simp
      moreover have "k - length bl < ?n" using that False m by linarith
      ultimately show ?thesis using False by (simp add: co1 nth_append del: nth_contents)
    qed
    with run evolves_mono [OF ev, of ?m] len1 m True show ?thesis by auto
  next
    case False
    have le: "?m \<le> length bl" using False block_count_le_iff [OF bs(1)] by simp
    from drop_buffers_ok [OF cur own, of "length bl - ?m"] obtain bl1 bp1
      where run: "drop_buffers (length bl - ?m) (i, bp) = (Inr (), (with_cur i bl1, bp1))"
        and ev: "evolves ext bp 0 bl1 bp1"
        and co1: "contents bp1 bl1 = take (length bl - (length bl - ?m)) (contents bp bl)"
        and len1: "length bl1 = length bl - (length bl - ?m)" by auto
    have "contents bp1 bl1 ! k = take ?bs (drop (k * ?bs) c)" if "k < ?m" for k
      using that le lc by (simp add: co1 co nth_chunk del: nth_contents)
    with run evolves_mono [OF ev, of ?m] len1 le False show ?thesis by auto
  qed
  then obtain bl1 bp1 where run1: "(if length bl * ?bs < len then append_buffers (block_count (len - length bl * ?bs) ?bs)
            else drop_buffers (length bl - ?m)) (i, bp) = (Inr (), (with_cur i bl1, bp1))"
    and ev1: "evolves ext bp ?m bl1 bp1" and len1: "length bl1 = ?m"
    and co1: "\<forall>k<?m. contents bp1 bl1 ! k = take ?bs (drop (k * ?bs) c)" by blast
  have sizes: "\<forall>x\<in>set (contents bp1 bl1). length x \<le> block_size (with_cur i bl1)"
  proof
    fix x
    assume "x \<in> set (contents bp1 bl1)"
    then obtain k where "k < ?m" "x = contents bp1 bl1 ! k"
      using len1 by (metis in_set_conv_nth length_contents)
    then show "length x \<le> block_size (with_cur i bl1)" using co1 by (simp del: nth_contents)
  qed
  have "length bp1 + ?m \<le> buffer_pool_max_size" using evolves_length_max [OF ev1] room by simp
  with cow_range_ok [of "with_cur i bl1" bl1 ext bp1 0 ?m 0] cur ev1 len1 sizes bs(2)
  obtain bl2 bp2 where run2: "cow_range ?m 0 (with_cur i bl1, bp1) = (Inr (), (with_cur i bl2, bp2))"
    and ev2: "evolves ext bp1 ?m bl2 bp2" and co2: "contents bp2 bl2 = contents bp1 bl1"
    and th2: "thawed bl2 0 ?m" and len2: "length bl2 = length bl1"
    by (auto simp: thawed_def)
  have "adjust_blocks len ?bs bl (i, bp) = (Inr (), (with_cur i bl2, bp2))"
    using run1 run2 len1 cur by (cases "length bl * ?bs < len") (simp_all add: adjust_blocks_def bindx_app)
  moreover have "evolves ext bp (2 * ?m) bl2 bp2" using evolves_trans [OF ev1 ev2] by (simp add: mult_2)
  ultimately show ?thesis
    using co1 co2 th2 len1 len2 by (intro exI [of _ bl2] exI [of _ bp2]) (simp del: nth_contents)
qed

lemma inode_truncate_split:
  assumes cur: "cur i = Some bl" and bs: "0 < block_size i" and bank: "length bl * block_size i < 2 ^ 64"
  shows "inode_truncate len (i, bp) =
    bindx (adjust_blocks len (block_size i) bl) (\<lambda>_.
      if len = 0 then ret () else
      bindx (truncate_at 0 (first_len (block_size i) 0 len)) (\<lambda>_.
      bindx (truncate_full (full_count (block_size i) 0 len) 0 1) (\<lambda>_.
      if last_len (block_size i) 0 len \<noteq> 0
      then truncate_at (add64 (add64 0 (full_count (block_size i) 0 len)) 1) (last_len (block_size i) 0 len)
      else ret ()))) (i, bp)"
proof -
  let ?bs = "block_size i"
  have mul: "mul64 (length bl) ?bs = length bl * ?bs" using bank by (rule mul64_small)
  have sub: "sub64 (length bl) (block_count len ?bs) = length bl - block_count len ?bs"
    if "\<not> length bl * ?bs < len"
  proof (rule sub64_small)
    show "block_count len ?bs \<le> length bl" using that block_count_le_iff [OF bs] by simp
    have "length bl * 1 \<le> length bl * ?bs" using bs by (intro mult_le_mono2) simp
    then show "length bl < 2 ^ 64" using bank by linarith
  qed
  show ?thesis
    using cur bs by (cases "length bl * ?bs < len")
      (simp_all add: inode_truncate_def adjust_blocks_def first_len_def full_count_def last_len_def
        mul sub bindx_assoc bindx_app cong: if_cong)
qed

lemma inode_truncate_ok:
  assumes cur: "cur i = Some bl" and own: "owned ext bl bp" and bs: "0 < block_size i"
    and co: "contents bp bl = chunk (block_size i) c"
    and small: "length c + block_size i < 2 ^ 64" "len < 2 ^ 64"
    and room: "length bp + 2 * block_count len (block_size i) \<le> buffer_pool_max_size"
  shows "\<exists>bl' bp'. inode_truncate len (i, bp) = (Inr (), (with_cur i bl', bp'))
     \<and> evolves ext bp (2 * block_count len (block_size i)) bl' bp'
     \<and> contents bp' bl' = chunk (block_size i) (resized len c) \<and> thawed bl' 0 (length bl')"
proof -
  let ?bs = "block_size i" and ?m = "block_count len (block_size i)"
  have lc: "length bl = block_count (length c) ?bs" using arg_cong [OF co, of length] by simp
  have "block_count (length c) ?bs * ?bs < length c + ?bs" by (rule block_count_less [OF bs])
  then have bank: "length bl * ?bs < 2 ^ 64" using small(1) unfolding lc by linarith
  have bs64: "?bs < 2 ^ 64" using small(1) by linarith
  obtain bl1 bp1 where run1: "adjust_blocks len ?bs bl (i, bp) = (Inr (), (with_cur i bl1, bp1))"
    and ev1: "evolves ext bp (2 * ?m) bl1 bp1" and len1: "length bl1 = ?m" and th1: "thawed bl1 0 (length bl1)"
    and co1: "\<forall>k<length bl1. contents bp1 bl1 ! k = take ?bs (drop (k * ?bs) c)"
    using adjust_blocks_ok [OF cur own bs bs64 co room] by blast
  note split = inode_truncate_split [OF cur bs bank, of len bp]
  show ?thesis
  proof (cases "len = 0")
    case True
    then have "inode_truncate len (i, bp) = (Inr (), (with_cur i bl1, bp1))"
      unfolding split by (simp add: bindx_app run1 [unfolded True] ret_app)
    then show ?thesis using ev1 len1 th1 True by (auto simp: resized_def)
  next
    case False
    have c1: "cur (with_cur i bl1) = Some bl1" using cur by simp
    have bs1: "block_size (with_cur i bl1) = ?bs" by simp
    from resize_blocks_ok [OF c1 evolves_owned [OF ev1] th1, unfolded bs1, OF bs _ small(2) len1] False
    obtain bp2 where run2: "bindx (truncate_at 0 (first_len ?bs 0 len)) (\<lambda>_.
          bindx (truncate_full (full_count ?bs 0 len) 0 1) (\<lambda>_.
          if last_len ?bs 0 len \<noteq> 0
          then truncate_at (add64 (add64 0 (full_count ?bs 0 len)) 1) (last_len ?bs 0 len)
          else ret ())) (with_cur i bl1, bp1) = (Inr (), (with_cur i bl1, bp2))"
      and ev2: "evolves ext bp1 0 bl1 bp2"
      and co2: "\<forall>k<length bl1. contents bp2 bl1 ! k = buffer_truncate (contents bp1 bl1 ! k) (min ?bs (len - k * ?bs))"
      by blast
    have "inode_truncate len (i, bp) = (Inr (), (with_cur i bl1, bp2))"
      unfolding split bindx_app [of "adjust_blocks len ?bs bl"] run1 using False run2 by simp
    moreover have "contents bp2 bl1 = chunk ?bs (resized len c)"
    proof (rule nth_equalityI)
      fix k
      assume "k < length (contents bp2 bl1)"
      then have k: "k < length bl1" by simp
      then have "contents bp2 bl1 ! k
          = buffer_truncate (take ?bs (drop (k * ?bs) c)) (min ?bs (len - k * ?bs))"
        using co1 co2 by (simp del: nth_contents)
      also have "\<dots> = chunk ?bs (resized len c) ! k"
        using k len1 by (intro chunk_resize_nth [OF bs]) simp
      finally show "contents bp2 bl1 ! k = chunk ?bs (resized len c) ! k" .
    qed (simp add: len1)
    ultimately show ?thesis using evolves_trans [OF ev1 ev2] th1 by auto
  qed
qed

end
