(* ===== verification/Inode_Rw.thy ===== *)
theory Inode_Rw
  imports Inode_Truncate
begin

text \<open>
  Correctness of \<open>inode_t::write\<close>, \<open>read\<close> and \<open>to_string\<close>: the blocks of a version that
  hold the chunks of a byte string \<open>c\<close> are read and written as that string.
\<close>

section \<open>Size\<close>

definition present :: "buffer_pool_t \<Rightarrow> buffer_result_t list \<Rightarrow> bool" where
  "present bp bl \<longleftrightarrow> (\<forall>b\<in>set bl. map_of bp (buf_id b) \<noteq> None)"

lemma owned_is_present: "owned ext bl bp \<Longrightarrow> present bp bl"
  using owned_fresh(2) by (fastforce simp: present_def ids_def)

lemma data_size_loop_eq:
  "present bp bl \<Longrightarrow> sz + length (concat (contents bp bl)) < 2 ^ 64 \<Longrightarrow>
   data_size_loop bl sz bp = (Inr (sz + length (concat (contents bp bl))), bp)"
proof (induction bl arbitrary: sz)
  case Nil
  then show ?case by (simp add: exec_simps)
next
  case (Cons b bl)
  then obtain p where p: "map_of bp (buf_id b) = Some p" by (auto simp: present_def)
  have d: "bdata bp (buf_id b) = buffer p" by (simp add: bdata_def p)
  have "add64 sz (length (buffer p)) = sz + length (buffer p)"
    using Cons.prems(2) d by (simp add: contents_def u64_simps)
  moreover have "data_size_loop bl (sz + length (buffer p)) bp
      = (Inr (sz + length (buffer p) + length (concat (contents bp bl))), bp)"
    using Cons.prems d by (intro Cons.IH) (simp_all add: present_def contents_def)
  ultimately show ?case using p d by (simp add: exec_simps contents_def)
qed

text \<open>The blocks of a version hold the byte string \<open>c\<close>.\<close>

definition holds :: "nat \<Rightarrow> buffer_pool_t \<Rightarrow> buffer_result_t list \<Rightarrow> data_t \<Rightarrow> bool" where
  "holds bs bp bl c \<longleftrightarrow> 0 < bs \<and> present bp bl \<and> contents bp bl = chunk bs c \<and> length c + bs < 2 ^ 64"

lemma holds_length: "holds bs bp bl c \<Longrightarrow> length bl = block_count (length c) bs"
  unfolding holds_def by (metis length_chunk length_contents)

lemma current_data_size_eq:
  assumes "map_of (buffer_map i) v = Some bl" and "holds bs bp bl c"
  shows "current_data_size v (i, bp) = (Inr (length c), (i, bp))"
proof -
  have "length (concat (contents bp bl)) = length c"
    using assms(2) by (simp add: holds_def concat_chunk)
  then show ?thesis
    using assms data_size_loop_eq [of bp bl 0]
    by (simp add: current_data_size_def inode_exec holds_def)
qed

lemma current_data_size_missing:
  "map_of (buffer_map i) v = None \<Longrightarrow>
   current_data_size v (i, bp) = (Inl (HTMPFS_error_t HTMPFS_NO_SUCH_SNAPSHOT), (i, bp))"
  by (simp add: current_data_size_def inode_exec)

section \<open>Reading\<close>

lemma read_at_ok:
  assumes h: "holds bs bp bl c" and k: "k < length bl" and fit: "ofs + n \<le> bs" "k * bs + ofs + n \<le> length c"
  shows "read_at bl k n ofs (i, bp) = (Inr (take n (drop (k * bs + ofs) c)), (i, bp))"
proof -
  obtain p where p: "map_of bp (buf_id (bl ! k)) = Some p"
    using h k by (auto simp: holds_def present_def) (metis nth_mem option.exhaust)
  have "contents bp bl ! k = chunk bs c ! k" using h by (simp only: holds_def)
  then have d: "buffer p = take bs (drop (k * bs) c)"
    using k holds_length [OF h] by (simp add: nth_chunk bdata_def p)
  have "buffer_read (buffer p) n ofs = Inr (take n (drop ofs (buffer p)))"
  proof (rule buffer_read_eq)
    have "length (buffer p) \<le> bs" by (simp add: d)
    then show "length (buffer p) < 2 ^ 64" using h by (simp add: holds_def)
    show "ofs + n < 2 ^ 64" using h fit by (simp add: holds_def)
  qed
  also have "take n (drop ofs (buffer p)) = take n (drop (k * bs + ofs) c)"
    using fit by (simp add: d drop_take min_def add.commute)
  finally show ?thesis
    using k p fit by (simp add: read_at_def inode_exec)
qed

lemma read_full_ok:
  assumes h: "holds (block_size i) bp bl c" and "(starting + j + n) * block_size i \<le> length c"
  shows "read_full n bl starting j (i, bp)
    = (Inr (take (n * block_size i) (drop ((starting + j) * block_size i) c)), (i, bp))"
  using assms(2)
proof (induction n arbitrary: j)
  case 0
  then show ?case by (simp add: exec_simps)
next
  case (Suc n)
  let ?bs = "block_size i"
  have bs: "0 < ?bs" and len: "length c + ?bs < 2 ^ 64" using h by (simp_all add: holds_def)
  have le: "(starting + j) * ?bs + ?bs + n * ?bs \<le> length c" using Suc.prems by (simp add: algebra_simps)
  then have "(starting + j) * ?bs < length c" using bs by linarith
  then have k: "starting + j < length bl" using holds_length [OF h] less_block_count [OF bs] by simp
  have "starting + j \<le> (starting + j) * ?bs" using bs by (rule le_times)
  then have add: "add64 starting j = starting + j" using le len by (intro add64_small) linarith
  have r1: "read_at bl (starting + j) ?bs 0 (i, bp) = (Inr (take ?bs (drop ((starting + j) * ?bs) c)), (i, bp))"
    using read_at_ok [OF h k, of 0 ?bs] le by simp
  have "(starting + Suc j + n) * ?bs \<le> length c" using Suc.prems by simp
  from Suc.IH [OF this] have r2: "read_full n bl starting (Suc j) (i, bp)
      = (Inr (take (n * ?bs) (drop (?bs + (starting + j) * ?bs) c)), (i, bp))"
    by (simp add: algebra_simps)
  show ?case
    using r1 r2 by (simp add: bindx_app add ret_app take_add)
qed

lemma take_parts:
  "take a (drop p c) @ take b (drop (p + a) c) @ take d (drop (p + a + b) c) = take (a + b + d) (drop p c)"
proof -
  have "take (a + (b + d)) (drop p c) = take a (drop p c) @ take b (drop (a + p) c) @ take d (drop (b + (a + p)) c)"
    by (simp only: take_add drop_drop)
  then show ?thesis by (simp only: ac_simps)
qed

lemma inode_read_ok:
  assumes v: "map_of (buffer_map i) v = Some bl" and h: "holds (block_size i) bp bl c"
    and nw: "offset + len < 2 ^ 64" and in_file: "offset < length c \<or> length c mod block_size i \<noteq> 0"
  shows "inode_read v len offset (i, bp) = (Inr (take len (drop offset c)), (i, bp))"
proof -
  let ?bs = "block_size i"
  define sz where "sz = min len (length c - offset)"
  let ?f = "first_len ?bs offset sz" and ?n = "full_count ?bs offset sz" and ?l = "last_len ?bs offset sz"
  have bs: "0 < ?bs" and len: "length c + ?bs < 2 ^ 64" using h by (simp_all add: holds_def)
  have add: "add64 offset len = offset + len" using nw by (rule add64_small)
  have size: "current_data_size v (i, bp) = (Inr (length c), (i, bp))"
    using v h by (rule current_data_size_eq)
  consider "len = 0" | "len \<noteq> 0" "offset > length c" | "len \<noteq> 0" "offset \<le> length c" by linarith
  then show ?thesis
  proof cases
    case 1
    then show ?thesis by (simp add: inode_read_def exec_simps)
  next
    case 2
    then show ?thesis using v by (simp add: inode_read_def exec_simps size)
  next
    case 3
    have total: "?f + ?n * ?bs + ?l = sz" by (rule range_total)
    have end_ok: "offset + sz \<le> length c" using 3(2) unfolding sz_def by linarith
    have start: "offset div ?bs * ?bs + offset mod ?bs = offset" by simp
    have "offset div ?bs * ?bs < length c"
    proof (cases "offset < length c")
      case True
      then show ?thesis using start by linarith
    next
      case False
      then have "offset = length c" "offset mod ?bs \<noteq> 0" using 3(2) in_file by auto
      then show ?thesis using start by linarith
    qed
    then have k0: "offset div ?bs < length bl" using holds_length [OF h] less_block_count [OF bs] by simp
    have r1: "read_at bl (offset div ?bs) ?f (offset mod ?bs) (i, bp) = (Inr (take ?f (drop offset c)), (i, bp))"
      using read_at_ok [OF h k0 first_fits [OF bs]] total end_ok by simp
    have r2: "read_full ?n bl (offset div ?bs) 1 (i, bp) = (Inr (take (?n * ?bs) (drop (offset + ?f) c)), (i, bp))"
    proof (cases "?n = 0")
      case True
      then show ?thesis by (simp add: exec_simps)
    next
      case False
      then have pos: "offset + ?f = Suc (offset div ?bs) * ?bs" by (intro next_block [OF bs]) simp
      then have "(offset div ?bs + 1 + ?n) * ?bs \<le> length c"
        using total end_ok by (simp add: algebra_simps)
      from read_full_ok [OF h this] show ?thesis by (simp add: pos)
    qed
    have r3: "(if ?l \<noteq> 0 then read_at bl (add64 (add64 (offset div ?bs) ?n) 1) ?l 0 else ret []) (i, bp)
        = (Inr (take ?l (drop (offset + ?f + ?n * ?bs) c)), (i, bp))"
    proof (cases "?l = 0")
      case True
      then show ?thesis by (simp add: exec_simps)
    next
      case False
      then have pos: "offset + ?f + ?n * ?bs = (offset div ?bs + Suc ?n) * ?bs"
        by (intro full_position [OF bs]) simp
      then have lt: "(offset div ?bs + Suc ?n) * ?bs + ?l \<le> length c" using total end_ok by linarith
      then have "(offset div ?bs + Suc ?n) * ?bs < length c" using False by linarith
      then have k: "offset div ?bs + Suc ?n < length bl"
        using holds_length [OF h] less_block_count [OF bs] by simp
      have "offset div ?bs + Suc ?n \<le> (offset div ?bs + Suc ?n) * ?bs" using bs by (rule le_times)
      then have small: "offset div ?bs + Suc ?n < 2 ^ 64" using lt len by linarith
      then have "add64 (add64 (offset div ?bs) ?n) 1 = offset div ?bs + Suc ?n" by (simp add: u64_simps)
      then show ?thesis
        using read_at_ok [OF h k, of 0 ?l i] lt last_less [OF bs, of offset sz] False by (simp add: pos)
    qed
    have sz: "(if add64 offset len > length c then length c - offset else len) = sz"
      using 3(2) by (auto simp: add sz_def min_def)
    have "inode_read v len offset (i, bp)
        = (Inr (take ?f (drop offset c) @ take (?n * ?bs) (drop (offset + ?f) c)
             @ take ?l (drop (offset + ?f + ?n * ?bs) c)), (i, bp))"
      using 3 v bs r1 r2 r3 size
      by (cases "?l = 0") (simp_all add: inode_read_def bindx_app getx_app sz ret_app
          del: One_nat_def flip: first_len_def full_count_def last_len_def)
    also have "take ?f (drop offset c) @ take (?n * ?bs) (drop (offset + ?f) c)
             @ take ?l (drop (offset + ?f + ?n * ?bs) c) = take sz (drop offset c)"
      unfolding take_parts total ..
    also have "\<dots> = take len (drop offset c)"
      by (auto simp: sz_def min_def)
    finally show ?thesis .
  qed
qed

text \<open>
  At the end of a string that fills its last block (or of an empty one), the starting block
  does not exist and \<open>at\<close> throws.
\<close>

lemma inode_read_at_end:
  assumes v: "map_of (buffer_map i) v = Some bl" and h: "holds (block_size i) bp bl c"
    and "length c + len < 2 ^ 64" and "0 < len" and aligned: "length c mod block_size i = 0"
  shows "inode_read v len (length c) (i, bp) = (Inl Std_out_of_range, (i, bp))"
proof -
  have bs: "0 < block_size i" using h by (simp add: holds_def)
  have "length bl = length c div block_size i"
    using holds_length [OF h] aligned by (simp add: block_count_def)
  then show ?thesis
    using assms(3,4) v bs current_data_size_eq [OF v h]
    by (simp add: inode_read_def exec_simps add64_small read_at_def vec_at_def)
qed

lemma inode_to_string_ok:
  assumes v: "map_of (buffer_map i) v = Some bl" and h: "holds (block_size i) bp bl c"
    and room: "length c + block_size i + 1 < 2 ^ 64"
  shows "inode_to_string v (i, bp) = (Inr c, (i, bp))"
proof (cases "c = []")
  case True
  then show ?thesis
    using v current_data_size_eq [OF v h] by (simp add: inode_to_string_def exec_simps)
next
  case False
  let ?bs = "block_size i"
  have bs: "0 < ?bs" using h by (simp add: holds_def)
  have ne: "buffer_map i \<noteq> []" using v by auto
  have len: "length bl * ?bs < length c + ?bs" "length c \<le> length bl * ?bs"
    unfolding holds_length [OF h] by (rule block_count_less [OF bs], rule block_count_ge [OF bs])
  then have cap: "add64 (mul64 ?bs (length bl)) 1 = length bl * ?bs + 1"
    using room by (simp add: mul64_small add64_small mult.commute)
  have "inode_read v (length bl * ?bs + 1) 0 (i, bp) = (Inr (take (length bl * ?bs + 1) (drop 0 c)), (i, bp))"
    using len(1) room False by (intro inode_read_ok [OF v h]) simp_all
  then show ?thesis
    using v ne False current_data_size_eq [OF v h] len(2)
    by (simp add: inode_to_string_def bindx_app getx_app cap ret_app del: One_nat_def)
qed

section \<open>Writing\<close>

lemma owned_holds:
  "owned ext bl bp \<Longrightarrow> 0 < bs \<Longrightarrow> contents bp bl = chunk bs c \<Longrightarrow> length c + bs < 2 ^ 64 \<Longrightarrow> holds bs bp bl c"
  by (simp add: holds_def owned_is_present)

text \<open>
  One block write. With \<open>resize\<close> the buffer is cut after the written bytes, so there the
  range has to end where the block ends.
\<close>

lemma write_at_ok:
  assumes cur: "cur i = Some bl" and own: "owned ext bl bp" and bs: "0 < bs"
    and co: "contents bp bl = chunk bs c" and len: "length c + bs < 2 ^ 64"
    and k: "k < length bl" and free: "\<not> is_snapshoted (bl ! k)" and src: "n \<le> length src"
    and fit: "ofs + n \<le> bs" "k * bs + ofs + n \<le> length c"
    and cut: "resize \<longrightarrow> ofs + n = min bs (length c - k * bs)"
  shows "\<exists>bp'. write_at k src n ofs resize (i, bp) = (Inr (), (i, bp')) \<and> evolves ext bp 0 bl bp'
     \<and> contents bp' bl = chunk bs (overwrite (k * bs + ofs) (take n src) c)"
proof -
  obtain p where p: "map_of bp (buf_id (bl ! k)) = Some p" using own k by (rule owned_present)
  have kc: "k < block_count (length c) bs" using k arg_cong [OF co, of length] by simp
  have "contents bp bl ! k = chunk bs c ! k" by (simp only: co)
  then have d: "buffer p = chunk bs c ! k" using k by (simp add: bdata_def p)
  have ld: "length (buffer p) = min bs (length c - k * bs)" unfolding d by (rule length_nth_chunk [OF bs kc])
  have small: "length (buffer p) < 2 ^ 64" "ofs + n < 2 ^ 64" using ld len fit by simp_all
  have inside: "ofs + n \<le> length (buffer p)" using ld fit by simp
  have wr: "buffer_write (buffer p) src n ofs resize = Inr (overwrite ofs (take n src) (buffer p), n)"
  proof (cases resize)
    case True
    then have "ofs + n = length (buffer p)" using cut ld by simp
    then show ?thesis using True small src
      by (simp add: buffer_write_resize_eq overwrite_def min_def)
  next
    case False
    then show ?thesis using small src inside by (simp add: buffer_write_fixed_eq overwrite_def min_def)
  qed
  let ?bp = "map_assign (buf_id (bl ! k)) (p\<lparr>buffer := overwrite ofs (take n src) (buffer p)\<rparr>) bp"
  have "write_at k src n ofs resize (i, bp) = (Inr (), (i, ?bp))"
    using cur k by (simp add: write_at_def inode_exec pool_write_eq [OF p wr])
  moreover have "evolves ext bp 0 bl ?bp" using own k free p by (rule evolves_assign)
  moreover have "contents ?bp bl = (chunk bs c)[k := overwrite ofs (take n src) (chunk bs c ! k)]"
    using contents_assign [OF owned_distinct [OF own] k p] by (simp add: co d)
  moreover have "\<dots> = chunk bs (overwrite (k * bs + ofs) (take n src) c)"
    using src fit by (intro chunk_update [OF bs _ _ kc]) simp_all
  ultimately show ?thesis by auto
qed

lemma write_full_ok:
  assumes "cur i = Some bl" and "owned ext bl bp" and bs: "0 < block_size i"
    and "contents bp bl = chunk (block_size i) c" and "length c + block_size i < 2 ^ 64"
    and "(starting + j + n) * block_size i \<le> length c" and "1 \<le> j"
    and "first + (j + n - 1) * block_size i \<le> length src"
    and "\<forall>k. starting + j \<le> k \<and> k < starting + j + n \<longrightarrow> \<not> is_snapshoted (bl ! k)"
  shows "\<exists>bp'. write_full n src first starting j resize (i, bp) = (Inr (), (i, bp')) \<and> evolves ext bp 0 bl bp'
     \<and> contents bp' bl = chunk (block_size i) (overwrite ((starting + j) * block_size i)
          (take (n * block_size i) (drop (first + (j - 1) * block_size i) src)) c)"
  using assms
proof (induction n arbitrary: bp c j)
  case 0
  then show ?case by (intro exI [of _ bp]) (simp add: exec_simps evolves_refl)
next
  case (Suc n)
  let ?bs = "block_size i" and ?src = "drop (first + (j - 1) * block_size i) src"
  let ?c = "overwrite ((starting + j) * ?bs) (take ?bs ?src) c"
  have le: "(starting + j) * ?bs + ?bs + n * ?bs \<le> length c" using Suc.prems(6) by (simp add: algebra_simps)
  have lsrc: "?bs + n * ?bs \<le> length ?src"
  proof -
    obtain m where "j = Suc m" using Suc.prems(7) by (cases j) simp_all
    then show ?thesis using Suc.prems(8) by (simp add: algebra_simps)
  qed
  have lc: "length ?c = length c" using le lsrc by (intro length_overwrite) simp
  have "(starting + j) * ?bs < length c" using le bs by linarith
  then have k: "starting + j < length bl"
    using arg_cong [OF Suc.prems(4), of length] less_block_count [OF bs] by simp
  have "starting + j \<le> (starting + j) * ?bs" using bs by (rule le_times)
  then have add: "add64 starting j = starting + j" using le Suc.prems(5) by (intro add64_small) linarith
  have "\<exists>bp1. write_at (starting + j) ?src ?bs 0 resize (i, bp) = (Inr (), (i, bp1)) \<and> evolves ext bp 0 bl bp1
     \<and> contents bp1 bl = chunk ?bs (overwrite ((starting + j) * ?bs + 0) (take ?bs ?src) c)"
    using Suc.prems(9) le lsrc by (intro write_at_ok [OF Suc.prems(1,2) bs Suc.prems(4,5) k]) auto
  then obtain bp1 where w1: "write_at (starting + j) ?src ?bs 0 resize (i, bp) = (Inr (), (i, bp1))"
    and ev1: "evolves ext bp 0 bl bp1" and co1: "contents bp1 bl = chunk ?bs ?c" by auto
  have "\<exists>bp'. write_full n src first starting (Suc j) resize (i, bp1) = (Inr (), (i, bp')) \<and> evolves ext bp1 0 bl bp'
     \<and> contents bp' bl = chunk ?bs (overwrite ((starting + Suc j) * ?bs)
          (take (n * ?bs) (drop (first + (Suc j - 1) * ?bs) src)) ?c)"
    using Suc.prems ev1 co1 lc by (intro Suc.IH) simp_all
  then obtain bp2 where w2: "write_full n src first starting (Suc j) resize (i, bp1) = (Inr (), (i, bp2))"
    and ev2: "evolves ext bp1 0 bl bp2"
    and co2: "contents bp2 bl = chunk ?bs (overwrite ((starting + Suc j) * ?bs)
          (take (n * ?bs) (drop (first + (Suc j - 1) * ?bs) src)) ?c)" by blast
  have next_src: "drop (first + (Suc j - 1) * ?bs) src = drop ?bs ?src"
  proof -
    have "first + (Suc j - 1) * ?bs = ?bs + (first + (j - 1) * ?bs)"
      using Suc.prems(7) by (cases j) simp_all
    then show ?thesis by (simp only: drop_drop)
  qed
  have pos: "(starting + Suc j) * ?bs = (starting + j) * ?bs + length (take ?bs ?src)"
    using lsrc by simp
  have "overwrite ((starting + Suc j) * ?bs) (take (n * ?bs) (drop ?bs ?src)) ?c
      = overwrite ((starting + j) * ?bs) (take ?bs ?src @ take (n * ?bs) (drop ?bs ?src)) c"
    unfolding pos by (rule overwrite_overwrite) (use le lsrc in simp)
  also have "take ?bs ?src @ take (n * ?bs) (drop ?bs ?src) = take (Suc n * ?bs) ?src"
    by (simp add: take_add)
  finally have "contents bp2 bl = chunk ?bs (overwrite ((starting + j) * ?bs) (take (Suc n * ?bs) ?src) c)"
    unfolding co2 next_src by (rule arg_cong)
  moreover have "write_full (Suc n) src first starting j resize (i, bp) = (Inr (), (i, bp2))"
    using w1 w2 by (simp add: bindx_app add)
  moreover have "evolves ext bp 0 bl bp2" using evolves_trans [OF ev1 ev2] by simp
  ultimately show ?case by blast
qed

lemma write_out_ok:
  assumes cur: "cur i = Some bl" and own: "owned ext bl bp" and bs: "0 < block_size i"
    and co: "contents bp bl = chunk (block_size i) c" and len: "length c + block_size i < 2 ^ 64"
    and range: "offset + sz \<le> length c" "0 < sz" and src: "sz \<le> length src"
    and free: "\<forall>k. offset div block_size i \<le> k \<and> k < block_count (offset + sz) (block_size i)
        \<longrightarrow> \<not> is_snapshoted (bl ! k)"
    and cut: "resize \<longrightarrow> offset + sz = length c"
  shows "\<exists>bp'. write_out src sz offset resize (i, bp) = (Inr (), (i, bp')) \<and> evolves ext bp 0 bl bp'
     \<and> contents bp' bl = chunk (block_size i) (overwrite offset (take sz src) c)"
proof -
  let ?bs = "block_size i" and ?q = "offset div block_size i" and ?r = "offset mod block_size i"
  let ?f = "first_len ?bs offset sz" and ?n = "full_count ?bs offset sz" and ?l = "last_len ?bs offset sz"
  have total: "?f + ?n * ?bs + ?l = sz" by (rule range_total)
  have start: "?q * ?bs + ?r = offset" by simp
  have nblk: "k < length bl \<longleftrightarrow> k * ?bs < length c" for k
    using arg_cong [OF co, of length] less_block_count [OF bs] by simp
  have free': "?q \<le> k \<Longrightarrow> k * ?bs < offset + sz \<Longrightarrow> \<not> is_snapshoted (bl ! k)" for k
    using free less_block_count [OF bs] by blast
  let ?c1 = "overwrite offset (take ?f src) c"
  let ?c2 = "overwrite offset (take (?f + ?n * ?bs) src) c"
  have lc1: "length ?c1 = length c" using total range src by (intro length_overwrite) simp
  have lc2: "length ?c2 = length c" using total range src by (intro length_overwrite) simp
  have "?q * ?bs < length c" using start range by linarith
  then have k0: "?q < length bl" using nblk by simp
  have "?f = min sz (?bs - ?r)" by (simp add: first_len_def min_def)
  moreover have "?r < ?bs" using bs by simp
  moreover have "length c - ?q * ?bs = ?r + sz" if "offset + sz = length c" using that start by linarith
  ultimately have cut0: "resize \<longrightarrow> ?r + ?f = min ?bs (length c - ?q * ?bs)" using cut by auto
  have "\<exists>bp1. write_at ?q src ?f ?r resize (i, bp) = (Inr (), (i, bp1)) \<and> evolves ext bp 0 bl bp1
     \<and> contents bp1 bl = chunk ?bs (overwrite (?q * ?bs + ?r) (take ?f src) c)"
    using total range src start cut0 first_fits [OF bs, of offset sz] free' [of ?q] first_le [of ?bs offset sz]
    by (intro write_at_ok [OF cur own bs co len k0]) linarith+
  then obtain bp1 where w1: "write_at ?q src ?f ?r resize (i, bp) = (Inr (), (i, bp1))"
    and ev1: "evolves ext bp 0 bl bp1" and co1: "contents bp1 bl = chunk ?bs ?c1" by auto
  have "\<exists>bp2. write_full ?n src ?f ?q 1 resize (i, bp1) = (Inr (), (i, bp2)) \<and> evolves ext bp1 0 bl bp2
     \<and> contents bp2 bl = chunk ?bs ?c2"
  proof (cases "?n = 0")
    case True
    then show ?thesis using co1 evolves_refl [OF evolves_owned [OF ev1]] by (simp add: exec_simps)
  next
    case False
    then have pos: "(?q + 1) * ?bs = offset + ?f" using next_block [OF bs, of offset sz] by simp
    have end_pos: "(?q + 1 + ?n) * ?bs = offset + ?f + ?n * ?bs" using pos by (simp add: algebra_simps)
    have "\<not> is_snapshoted (bl ! k)" if "?q + 1 \<le> k" "k < ?q + 1 + ?n" for k
    proof -
      have "Suc k * ?bs \<le> (?q + 1 + ?n) * ?bs" using that by (intro mult_le_mono1) simp
      then have "k * ?bs < offset + sz" using total bs unfolding end_pos mult_Suc by linarith
      then show ?thesis using that by (intro free') simp_all
    qed
    then obtain bp2 where "write_full ?n src ?f ?q 1 resize (i, bp1) = (Inr (), (i, bp2))"
      "evolves ext bp1 0 bl bp2"
      "contents bp2 bl = chunk ?bs (overwrite ((?q + 1) * ?bs) (take (?n * ?bs) (drop (?f + (1 - 1) * ?bs) src)) ?c1)"
      using write_full_ok [OF cur evolves_owned [OF ev1] bs co1, of ?q 1 ?n ?f src resize]
        end_pos total range src len lc1 by auto
    moreover have "overwrite (offset + ?f) (take (?n * ?bs) (drop ?f src)) ?c1 = ?c2"
      using total range src by (intro overwrite_take) linarith+
    ultimately show ?thesis unfolding pos by auto
  qed
  then obtain bp2 where w2: "write_full ?n src ?f ?q 1 resize (i, bp1) = (Inr (), (i, bp2))"
    and ev2: "evolves ext bp1 0 bl bp2" and co2: "contents bp2 bl = chunk ?bs ?c2" by blast
  let ?last = "if ?l \<noteq> 0 then write_at (add64 (add64 ?q ?n) 1) (drop (?f + ?n * ?bs) src) ?l 0 resize else ret ()"
  have "\<exists>bp3. ?last (i, bp2) = (Inr (), (i, bp3)) \<and> evolves ext bp2 0 bl bp3
     \<and> contents bp3 bl = chunk ?bs (overwrite offset (take sz src) c)"
  proof (cases "?l = 0")
    case True
    then have "?f + ?n * ?bs = sz" using total by simp
    then show ?thesis using True co2 evolves_refl [OF evolves_owned [OF ev2]] by (simp add: exec_simps)
  next
    case False
    then have pos: "(?q + Suc ?n) * ?bs = offset + ?f + ?n * ?bs"
      using full_position [OF bs, of ?n offset sz] by simp
    then have lt: "(?q + Suc ?n) * ?bs + ?l = offset + sz" using total by linarith
    then have k: "?q + Suc ?n < length bl" using nblk False range by simp
    have "?q + Suc ?n \<le> (?q + Suc ?n) * ?bs" using bs by (rule le_times)
    then have "?q + Suc ?n < 2 ^ 64" using lt range len by linarith
    then have add: "add64 (add64 ?q ?n) 1 = ?q + Suc ?n" by (simp add: u64_simps)
    have "\<not> is_snapshoted (bl ! (?q + Suc ?n))" using lt False by (intro free') simp_all
    moreover have "resize \<longrightarrow> 0 + ?l = min ?bs (length ?c2 - (?q + Suc ?n) * ?bs)"
      using cut lt last_less [OF bs, of offset sz] lc2 by auto
    moreover have "?l \<le> length (drop (?f + ?n * ?bs) src)" using total src by simp
    moreover have "(?q + Suc ?n) * ?bs + 0 + ?l \<le> length ?c2" using lt lc2 range by simp
    moreover have "length ?c2 + ?bs < 2 ^ 64" using len lc2 by simp
    ultimately obtain bp3 where "write_at (?q + Suc ?n) (drop (?f + ?n * ?bs) src) ?l 0 resize (i, bp2) = (Inr (), (i, bp3))"
      "evolves ext bp2 0 bl bp3"
      "contents bp3 bl = chunk ?bs (overwrite ((?q + Suc ?n) * ?bs + 0) (take ?l (drop (?f + ?n * ?bs) src)) ?c2)"
      using write_at_ok [OF cur evolves_owned [OF ev2] bs co2 _ k, of ?l "drop (?f + ?n * ?bs) src" 0 resize]
        last_less [OF bs, of offset sz] by auto
    moreover have "overwrite (offset + (?f + ?n * ?bs)) (take ?l (drop (?f + ?n * ?bs) src)) ?c2
        = overwrite offset (take (?f + ?n * ?bs + ?l) src) c"
      using total range src by (intro overwrite_take) linarith+
    then have "overwrite (offset + (?f + ?n * ?bs)) (take ?l (drop (?f + ?n * ?bs) src)) ?c2
        = overwrite offset (take sz src) c" unfolding total .
    moreover have "(?q + Suc ?n) * ?bs + 0 = offset + (?f + ?n * ?bs)" using pos by linarith
    ultimately show ?thesis using False by (simp only: add if_True not_False_eq_True) blast
  qed
  then obtain bp3 where w3: "?last (i, bp2) = (Inr (), (i, bp3))" and ev3: "evolves ext bp2 0 bl bp3"
    and co3: "contents bp3 bl = chunk ?bs (overwrite offset (take sz src) c)" by blast
  have "write_out src sz offset resize (i, bp) = (Inr (), (i, bp3))"
    using w1 w2 w3
    by (cases "?l = 0") (simp_all add: write_out_def bindx_app del: One_nat_def flip: first_len_def full_count_def last_len_def)
  moreover have "evolves ext bp 0 bl bp3"
    using evolves_trans [OF evolves_trans [OF ev1 ev2] ev3] by simp
  ultimately show ?thesis using co3 by blast
qed

end
