(* ===== verification/Inode_Spec.thy ===== *)
theory Inode_Spec
  imports Inode_Rw
begin

text \<open>
  The abstract view of an inode: a byte string per version. \<open>inode_ok\<close> is the invariant of
  one inode and the pool, \<open>version_data\<close> the abstraction, \<open>inode_step\<close> what every
  operation guarantees: the invariant, the new byte strings, and that the buffers of the
  rest of the file system are untouched. Every operation of \<open>inode_t\<close> that changes state
  implements its abstract counterpart.
\<close>

section \<open>References\<close>

text \<open>The number of references that versions other than the current one hold to a buffer.\<close>

definition snap_refs :: "inode_t \<Rightarrow> nat \<Rightarrow> nat" where
  "snap_refs i j = sum_list (map (\<lambda>(v, bl). if v = FILESYSTEM_CUR_MODIFIABLE_VER then 0
                                          else count_list (map buf_id bl) j) (buffer_map i))"

definition blocks_of :: "inode_t \<Rightarrow> nat set" where
  "blocks_of i = (\<Union>(v, bl)\<in>set (buffer_map i). ids bl)"

definition live :: "buffer_pool_t \<Rightarrow> nat \<Rightarrow> bool" where
  "live bp j \<longleftrightarrow> (\<exists>p. map_of bp j = Some p \<and> 0 < buf_link_count p \<and> buf_link_count p < 2 ^ 64)"

text \<open>References as the block operations of the current version have to respect them: those
  of other versions, and to a live buffer that is not this inode's all that its link count
  stands for.\<close>

definition ext_of :: "inode_t \<Rightarrow> buffer_pool_t \<Rightarrow> nat \<Rightarrow> nat" where
  "ext_of i bp j = snap_refs i j + (if live bp j \<and> j \<notin> blocks_of i then buf_link_count (the (map_of bp j)) else 0)"

lemma snap_refs_with_cur [simp]: "snap_refs (with_cur i bl) = snap_refs i"
proof -
  have "sum_list (map (\<lambda>(v, bl). if v = w then 0 else count_list (map buf_id bl) j) (map_assign w bl m))
      = sum_list (map (\<lambda>(v, bl). if v = w then 0 else count_list (map buf_id bl) j) m)" for w j and m :: "(string \<times> buffer_result_t list) list"
    by (induction m) auto
  then show ?thesis by (simp add: snap_refs_def fun_eq_iff with_cur_def)
qed

lemma snap_refs_pos:
  "0 < snap_refs i j \<longleftrightarrow>
   (\<exists>v bl. (v, bl) \<in> set (buffer_map i) \<and> v \<noteq> FILESYSTEM_CUR_MODIFIABLE_VER \<and> j \<in> ids bl)"
proof -
  have "0 < sum_list (map f xs) \<longleftrightarrow> (\<exists>x\<in>set xs. 0 < f x)" for f :: "string \<times> buffer_result_t list \<Rightarrow> nat" and xs
    by (induction xs) auto
  then have "0 < snap_refs i j \<longleftrightarrow> (\<exists>x\<in>set (buffer_map i). 0 < (case x of (v, bl) \<Rightarrow>
      if v = FILESYSTEM_CUR_MODIFIABLE_VER then 0 else count_list (map buf_id bl) j))"
    unfolding snap_refs_def .
  also have "\<dots> \<longleftrightarrow> (\<exists>x\<in>set (buffer_map i). fst x \<noteq> FILESYSTEM_CUR_MODIFIABLE_VER \<and> j \<in> ids (snd x))"
    by (intro bex_cong refl) (auto simp: count_list_pos_iff ids_def split: prod.splits)
  finally show ?thesis by force
qed

lemma blocks_of_cases:
  assumes "map_ok (buffer_map i)" and "cur i = Some bl"
  shows "j \<in> blocks_of i \<longleftrightarrow> j \<in> ids bl \<or> 0 < snap_refs i j"
proof -
  have "(v, bl') \<in> set (buffer_map i) \<Longrightarrow> v = FILESYSTEM_CUR_MODIFIABLE_VER \<Longrightarrow> bl' = bl" for v bl'
    using assms map_ok_distinct by (metis map_of_eq_Some_iff option.inject)
  moreover have "(FILESYSTEM_CUR_MODIFIABLE_VER, bl) \<in> set (buffer_map i)" using assms(2) by (rule map_of_SomeD)
  ultimately show ?thesis unfolding snap_refs_pos blocks_of_def by fast
qed

section \<open>Invariant and abstraction\<close>

definition inode_ok :: "inode_t \<Rightarrow> buffer_pool_t \<Rightarrow> bool" where
  "inode_ok i bp \<longleftrightarrow> 0 < block_size i \<and> map_ok (buffer_map i) \<and> map_ok bp \<and>
     (\<exists>bl. cur i = Some bl \<and> owned (snap_refs i) bl bp) \<and>
     (\<forall>v bl. map_of (buffer_map i) v = Some bl \<longrightarrow> holds (block_size i) bp bl (concat (contents bp bl)))"

definition version_data :: "inode_t \<Rightarrow> buffer_pool_t \<Rightarrow> string \<Rightarrow> data_t option" where
  "version_data i bp v = map_option (\<lambda>bl. concat (contents bp bl)) (map_of (buffer_map i) v)"

text \<open>What an operation on inode \<open>i\<close> may do: \<open>n\<close> bounds the buffers it allocates.\<close>

definition inode_step :: "inode_t \<Rightarrow> buffer_pool_t \<Rightarrow> nat \<Rightarrow> inode_t \<Rightarrow> buffer_pool_t \<Rightarrow> bool" where
  "inode_step i bp n i' bp' \<longleftrightarrow> inode_ok i' bp' \<and> length bp' \<le> length bp + n \<and>
     block_size i' = block_size i \<and> inode_id i' = inode_id i \<and> is_dentry i' = is_dentry i \<and> fs_stat i' = fs_stat i \<and>
     (\<forall>j. live bp j \<and> j \<notin> blocks_of i \<longrightarrow> map_of bp' j = map_of bp j \<and> j \<notin> blocks_of i')"

lemma inode_okE:
  assumes "inode_ok i bp"
  obtains bl where "cur i = Some bl" and "owned (snap_refs i) bl bp"
    and "holds (block_size i) bp bl (concat (contents bp bl))"
  using assms by (auto simp: inode_ok_def)

lemma version_data_cur: "cur i = Some bl \<Longrightarrow> version_data i bp FILESYSTEM_CUR_MODIFIABLE_VER = Some (concat (contents bp bl))"
  by (simp add: version_data_def)

lemma inode_ok_live: "inode_ok i bp \<Longrightarrow> j \<in> blocks_of i \<Longrightarrow> live bp j"
proof -
  assume ok: "inode_ok i bp" and j: "j \<in> blocks_of i"
  obtain bl where cur: "cur i = Some bl" and own: "owned (snap_refs i) bl bp" using ok by (rule inode_okE)
  have "0 < snap_refs i j \<or> j \<in> ids bl" using blocks_of_cases [OF _ cur] ok j by (auto simp: inode_ok_def)
  with owned_linked [OF own] have "linked (snap_refs i) (ids bl) bp j" .
  then show ?thesis using \<open>0 < snap_refs i j \<or> j \<in> ids bl\<close>
    by (auto simp: live_def elim!: linkedE split: if_splits)
qed

text \<open>The invariant lets the block operations of the current version run.\<close>

lemma inode_ok_owned:
  assumes ok: "inode_ok i bp" and cur: "cur i = Some bl"
  shows "owned (ext_of i bp) bl bp"
proof (rule ownedI)
  have own: "owned (snap_refs i) bl bp" using ok cur by (auto elim: inode_okE)
  note blocks = blocks_of_cases [OF _ cur]
  have mok: "map_ok (buffer_map i)" using ok by (simp add: inode_ok_def)
  show "linked (ext_of i bp) (ids bl) bp j" if "0 < ext_of i bp j \<or> j \<in> ids bl" for j
  proof (cases "j \<in> blocks_of i")
    case True
    then have "linked (snap_refs i) (ids bl) bp j" using blocks [OF mok] owned_linked [OF own] by blast
    moreover have "ext_of i bp j = snap_refs i j" using True by (simp add: ext_of_def)
    ultimately show ?thesis by (auto simp: linked_def split: option.splits)
  next
    case False
    then have "j \<notin> ids bl" "snap_refs i j = 0" using blocks [OF mok] by auto
    then show ?thesis using that False
      by (auto simp: ext_of_def live_def linked_def split: if_splits)
  qed
  show "ext_of i bp (buf_id b) = 0" if "b \<in> set bl" "\<not> is_snapshoted b" for b
    using that blocks [OF mok, of "buf_id b"] owned_unfrozen_block [OF own that] by (simp add: ext_of_def ids_def)
qed (use ok cur in \<open>auto simp: inode_ok_def owned_def\<close>)

lemma holds_concat: "holds bs bp bl c \<Longrightarrow> concat (contents bp bl) = c"
  by (simp add: holds_def concat_chunk)

text \<open>A computation that replaces the current block list and evolves the pool is a step.\<close>

lemma inode_stepI:
  assumes ok: "inode_ok i bp" and cur: "cur i = Some bl"
    and ev: "evolves (ext_of i bp) bp n bl' bp'"
    and co: "contents bp' bl' = chunk (block_size i) c" and len: "length c + block_size i < 2 ^ 64"
  shows "inode_step i bp n (with_cur i bl') bp'"
    and "version_data (with_cur i bl') bp' = (version_data i bp)(FILESYSTEM_CUR_MODIFIABLE_VER \<mapsto> c)"
proof -
  let ?i = "with_cur i bl'"
  have mok: "map_ok (buffer_map i)" and bs: "0 < block_size i" using ok by (simp_all add: inode_ok_def)
  have cur': "cur ?i = Some bl'" using cur by simp
  have own': "owned (ext_of i bp) bl' bp'" and kp: "keeps (ext_of i bp) bp bp'"
    and ln: "length bp' \<le> length bp + n" using ev by (simp_all add: evolves_def)
  have le: "snap_refs i j \<le> ext_of i bp j" for j by (simp add: ext_of_def)
  have own: "owned (snap_refs i) bl' bp'"
  proof (rule ownedI)
    show "linked (snap_refs i) (ids bl') bp' j" if "0 < snap_refs i j \<or> j \<in> ids bl'" for j
    proof -
      have "linked (ext_of i bp) (ids bl') bp' j" using that le [of j] by (intro owned_linked [OF own']) auto
      then show ?thesis using le [of j] by (auto simp: linked_def split: option.splits)
    qed
    show "snap_refs i (buf_id b) = 0" if "b \<in> set bl'" "\<not> is_snapshoted b" for b
      using owned_unfrozen_block [OF own' that] le [of "buf_id b"] by simp
  qed (use own' in \<open>simp_all add: owned_def\<close>)
  have other: "contents bp' bl2 = contents bp bl2 \<and> present bp' bl2"
    if "v \<noteq> FILESYSTEM_CUR_MODIFIABLE_VER" "map_of (buffer_map i) v = Some bl2" for v bl2
  proof -
    have "map_of bp' j = map_of bp j" if "j \<in> ids bl2" for j
    proof -
      have "0 < snap_refs i j" unfolding snap_refs_pos
        using that \<open>v \<noteq> _\<close> map_of_SomeD [OF \<open>map_of (buffer_map i) v = Some bl2\<close>] by blast
      then show ?thesis using kp le [of j] by (auto simp: keeps_def)
    qed
    moreover have "present bp bl2" using ok that by (auto simp: inode_ok_def holds_def)
    ultimately show ?thesis by (auto simp: present_def ids_def bdata_def intro!: contents_cong)
  qed
  have h: "holds (block_size i) bp' bl' c"
    using co own bs len by (intro owned_holds)
  have hs: "holds (block_size ?i) bp' bl2 (concat (contents bp' bl2))" if "map_of (buffer_map ?i) v = Some bl2" for v bl2
  proof (cases "v = FILESYSTEM_CUR_MODIFIABLE_VER")
    case True
    then have "bl2 = bl'" using that cur' by simp
    then show ?thesis using h holds_concat [OF h] by simp
  next
    case False
    then have v: "map_of (buffer_map i) v = Some bl2" using that by (simp add: map_of_with_cur)
    with ok have "holds (block_size i) bp bl2 (concat (contents bp bl2))" by (simp add: inode_ok_def)
    with other [OF False v] show ?thesis by (simp add: holds_def)
  qed
  have mok': "map_ok (buffer_map ?i)" using mok by (simp add: with_cur_def)
  have ok': "inode_ok ?i bp'"
    unfolding inode_ok_def using bs mok' cur' own hs owned_ok [OF own] by simp
  have frame: "map_of bp' j = map_of bp j \<and> j \<notin> blocks_of ?i" if lv: "live bp j" and nb: "j \<notin> blocks_of i" for j
  proof
    have e: "0 < ext_of i bp j" using lv nb by (auto simp: ext_of_def live_def)
    then show same: "map_of bp' j = map_of bp j" using kp by (simp add: keeps_def)
    have s0: "snap_refs i j = 0" using blocks_of_cases [OF mok cur] nb by simp
    show "j \<notin> blocks_of ?i"
    proof
      assume "j \<in> blocks_of ?i"
      then have jb: "j \<in> ids bl'" using blocks_of_cases [OF mok' cur', of j] s0 by simp
      then have "linked (ext_of i bp) (ids bl') bp' j" by (intro owned_linked [OF own']) simp
      then show False using lv nb jb same by (auto simp: linked_def live_def ext_of_def)
    qed
  qed
  show "inode_step i bp n ?i bp'" using ok' ln frame by (simp add: inode_step_def)
  show "version_data ?i bp' = (version_data i bp)(FILESYSTEM_CUR_MODIFIABLE_VER \<mapsto> c)"
  proof
    show "version_data ?i bp' v = ((version_data i bp)(FILESYSTEM_CUR_MODIFIABLE_VER \<mapsto> c)) v" for v
      using cur' holds_concat [OF h] other [of v]
      by (cases "v = FILESYSTEM_CUR_MODIFIABLE_VER"; cases "map_of (buffer_map i) v")
         (simp_all add: version_data_def map_of_with_cur)
  qed
qed

section \<open>Truncate and write\<close>

text \<open>Room in the pool and in 64-bit arithmetic for a file of \<open>n\<close> bytes.\<close>

definition roomy :: "inode_t \<Rightarrow> buffer_pool_t \<Rightarrow> nat \<Rightarrow> bool" where
  "roomy i bp n \<longleftrightarrow> n + block_size i < 2 ^ 64 \<and>
     length bp + 2 * block_count n (block_size i) \<le> buffer_pool_max_size"

lemma inode_step_mono: "inode_step i bp n i' bp' \<Longrightarrow> n \<le> m \<Longrightarrow> inode_step i bp m i' bp'"
  by (auto simp: inode_step_def)

lemma inode_truncate_run:
  assumes ok: "inode_ok i bp" and cur: "cur i = Some bl" and room: "roomy i bp n"
  shows "\<exists>bl' bp'. inode_truncate n (i, bp) = (Inr (), (with_cur i bl', bp'))
     \<and> evolves (ext_of i bp) bp (2 * block_count n (block_size i)) bl' bp'
     \<and> contents bp' bl' = chunk (block_size i) (resized n (concat (contents bp bl)))
     \<and> thawed bl' 0 (length bl')"
proof -
  let ?c = "concat (contents bp bl)"
  have h: "holds (block_size i) bp bl ?c" and bs: "0 < block_size i"
    using ok cur by (simp_all add: inode_ok_def)
  then have "contents bp bl = chunk (block_size i) ?c" and "length ?c + block_size i < 2 ^ 64"
    by (simp_all add: holds_def)
  then show ?thesis
    using room by (intro inode_truncate_ok [OF cur inode_ok_owned [OF ok cur] bs]) (simp_all add: roomy_def)
qed

lemma inode_truncate_step:
  assumes ok: "inode_ok i bp" and room: "roomy i bp n"
  shows "\<exists>c i' bp'. version_data i bp FILESYSTEM_CUR_MODIFIABLE_VER = Some c
     \<and> inode_truncate n (i, bp) = (Inr (), (i', bp'))
     \<and> inode_step i bp (2 * block_count n (block_size i)) i' bp'
     \<and> version_data i' bp' = (version_data i bp)(FILESYSTEM_CUR_MODIFIABLE_VER \<mapsto> resized n c)"
proof -
  obtain bl where cur: "cur i = Some bl" using ok by (rule inode_okE)
  obtain bl' bp' where run: "inode_truncate n (i, bp) = (Inr (), (with_cur i bl', bp'))"
    and ev: "evolves (ext_of i bp) bp (2 * block_count n (block_size i)) bl' bp'"
    and co: "contents bp' bl' = chunk (block_size i) (resized n (concat (contents bp bl)))"
    using inode_truncate_run [OF ok cur room] by blast
  have "length (resized n (concat (contents bp bl))) + block_size i < 2 ^ 64"
    using room by (simp add: roomy_def)
  from inode_stepI [OF ok cur ev co this] run version_data_cur [OF cur] show ?thesis by blast
qed

text \<open>\<open>write\<close> with \<open>resize\<close>: the file ends after the written bytes.\<close>

lemma inode_write_resize_step:
  assumes ok: "inode_ok i bp" and room: "roomy i bp (offset + len)" and len: "0 < len"
    and src: "len \<le> length src" and dentry: "is_dentry i \<longrightarrow> dentry_only"
  shows "\<exists>c i' bp'. version_data i bp FILESYSTEM_CUR_MODIFIABLE_VER = Some c
     \<and> inode_write src len offset True dentry_only (i, bp) = (Inr len, (i', bp'))
     \<and> inode_step i bp (2 * block_count (offset + len) (block_size i)) i' bp'
     \<and> version_data i' bp' = (version_data i bp)(FILESYSTEM_CUR_MODIFIABLE_VER \<mapsto> resized offset c @ take len src)"
proof -
  obtain bl where cur: "cur i = Some bl" using ok by (rule inode_okE)
  let ?n = "offset + len" and ?bs = "block_size i" and ?c = "concat (contents bp bl)"
  have bs: "0 < ?bs" using ok by (simp add: inode_ok_def)
  obtain bl' bp' where run: "inode_truncate ?n (i, bp) = (Inr (), (with_cur i bl', bp'))"
    and ev: "evolves (ext_of i bp) bp (2 * block_count ?n ?bs) bl' bp'"
    and co: "contents bp' bl' = chunk ?bs (resized ?n ?c)" and th: "thawed bl' 0 (length bl')"
    using inode_truncate_run [OF ok cur room] by blast
  have small: "?n + ?bs < 2 ^ 64" using room by (simp add: roomy_def)
  let ?i = "with_cur i bl'"
  have cur': "cur ?i = Some bl'" using cur by simp
  have lbl: "length bl' = block_count ?n ?bs" using arg_cong [OF co, of length] by simp
  have "\<exists>bp2. write_out src len offset True (?i, bp') = (Inr (), (?i, bp2)) \<and> evolves (ext_of i bp) bp' 0 bl' bp2
     \<and> contents bp2 bl' = chunk (block_size ?i) (overwrite offset (take len src) (resized ?n ?c))"
    using th co small bs len src lbl by (intro write_out_ok [OF cur' evolves_owned [OF ev]]) (simp_all add: thawed_def)
  then obtain bp2 where run2: "write_out src len offset True (?i, bp') = (Inr (), (?i, bp2))"
    and ev2: "evolves (ext_of i bp) bp' 0 bl' bp2"
    and co2: "contents bp2 bl' = chunk ?bs (overwrite offset (take len src) (resized ?n ?c))" by auto
  have "overwrite offset (take len src) (resized ?n ?c) = resized offset ?c @ take len src"
    using src resize_resize [of offset ?n ?c] resize_shrink [of offset "resized ?n ?c"]
    by (simp add: overwrite_def)
  then have co3: "contents bp2 bl' = chunk ?bs (resized offset ?c @ take len src)" using co2 by simp
  have "add64 offset len = ?n" using small by (intro add64_small) linarith
  then have "inode_write src len offset True dentry_only (i, bp) = (Inr len, (?i, bp2))"
    using cur bs len dentry run run2
    by (auto simp: inode_write_def exec_simps)
  moreover have "length (resized offset ?c @ take len src) + ?bs < 2 ^ 64" using small src by simp
  moreover have "evolves (ext_of i bp) bp (2 * block_count ?n ?bs) bl' bp2" using evolves_trans [OF ev ev2] by simp
  ultimately show ?thesis using inode_stepI [OF ok cur _ co3] version_data_cur [OF cur] by blast
qed

text \<open>Without \<open>resize\<close>: the bytes inside the file are overwritten, its size stays.\<close>

lemma inode_write_fixed_step:
  assumes ok: "inode_ok i bp" and c: "version_data i bp FILESYSTEM_CUR_MODIFIABLE_VER = Some c"
    and room: "length bp + length c \<le> buffer_pool_max_size" and nw: "offset + len < 2 ^ 64"
    and len: "0 < len" and inside: "offset < length c"
    and src: "len \<le> length src" and dentry: "is_dentry i \<longrightarrow> dentry_only"
  shows "\<exists>i' bp'. inode_write src len offset False dentry_only (i, bp)
         = (Inr (min len (length c - offset)), (i', bp'))
     \<and> inode_step i bp (length c) i' bp'
     \<and> version_data i' bp' = (version_data i bp)(FILESYSTEM_CUR_MODIFIABLE_VER
         \<mapsto> overwrite offset (take (length c - offset) (take len src)) c)"
proof -
  obtain bl where cur: "cur i = Some bl" and h: "holds (block_size i) bp bl (concat (contents bp bl))"
    using ok by (rule inode_okE)
  have c': "concat (contents bp bl) = c" using c cur by (simp add: version_data_def)
  let ?bs = "block_size i" and ?sz = "min len (length c - offset)"
  have h': "holds ?bs bp bl c" using h c' by simp
  have bs: "0 < ?bs" and co: "contents bp bl = chunk ?bs c" and lc: "length c + ?bs < 2 ^ 64"
    using h' by (simp_all add: holds_def)
  have size: "current_data_size FILESYSTEM_CUR_MODIFIABLE_VER (i, bp) = (Inr (length c), (i, bp))"
    using cur h' by (rule current_data_size_eq)
  let ?s = "offset div ?bs" and ?e = "block_count (offset + ?sz) ?bs"
  have sz: "0 < ?sz" "offset + ?sz \<le> length c" using len inside by auto
  have lbl: "length bl = block_count (length c) ?bs" using holds_length [OF h'] .
  have e: "?e \<le> length bl" unfolding lbl using bs sz(2) by (rule block_count_mono)
  have "?s * ?bs \<le> offset" by simp
  then have "?s < ?e" using sz(1) less_block_count [OF bs, of ?s "offset + ?sz"] by linarith
  then have se: "?s + (?e - ?s) = ?e" by simp
  have "length bl \<le> length c" unfolding lbl using block_count_le_iff [OF bs] le_times [OF bs] by blast
  then have n: "?e - ?s \<le> length c" using e by simp
  then have room': "length bp + (?e - ?s) \<le> buffer_pool_max_size" using room by linarith
  have "\<exists>bl' bp'. cow_range (?e - ?s) ?s (i, bp) = (Inr (), (with_cur i bl', bp'))
     \<and> evolves (ext_of i bp) bp (?e - ?s) bl' bp' \<and> contents bp' bl' = contents bp bl
     \<and> thawed bl' ?s (?s + (?e - ?s)) \<and> length bl' = length bl"
  proof (rule cow_range_ok [OF cur inode_ok_owned [OF ok cur] _ _ _ room'])
    show "?s + (?e - ?s) \<le> length bl" unfolding se by (rule e)
    show "\<forall>x\<in>set (contents bp bl). length x \<le> ?bs" unfolding co using chunk_lengths by blast
    show "?bs < 2 ^ 64" using lc by linarith
    show "thawed bl ?s ?s" unfolding thawed_def by linarith
  qed simp
  then obtain bl' bp' where run: "cow_range (?e - ?s) ?s (i, bp) = (Inr (), (with_cur i bl', bp'))"
    and ev: "evolves (ext_of i bp) bp (?e - ?s) bl' bp'" and co1: "contents bp' bl' = chunk ?bs c"
    and th: "thawed bl' ?s ?e" and lbl': "length bl' = length bl" unfolding co se by blast
  let ?i = "with_cur i bl'"
  have cur': "cur ?i = Some bl'" using cur by simp
  have "\<exists>bp2. write_out src ?sz offset False (?i, bp') = (Inr (), (?i, bp2)) \<and> evolves (ext_of i bp) bp' 0 bl' bp2
     \<and> contents bp2 bl' = chunk (block_size ?i) (overwrite offset (take ?sz src) c)"
    using th e lbl' co1 lc bs sz src
    by (intro write_out_ok [OF cur' evolves_owned [OF ev]]) (simp_all add: thawed_def)
  then obtain bp2 where run2: "write_out src ?sz offset False (?i, bp') = (Inr (), (?i, bp2))"
    and ev2: "evolves (ext_of i bp) bp' 0 bl' bp2"
    and co2: "contents bp2 bl' = chunk ?bs (overwrite offset (take ?sz src) c)" by auto
  have tk: "take (length c - offset) (take len src) = take ?sz src" by (simp add: min.commute)
  have add1: "add64 offset len = offset + len" using nw by (rule add64_small)
  have add2: "add64 offset ?sz = offset + ?sz" using sz lc by (intro add64_small) linarith
  have szif: "(if length c < offset + len then length c - offset else len) = ?sz" using inside by auto
  have "inode_write src len offset False dentry_only (i, bp) = (Inr ?sz, (?i, bp2))"
    using cur bs len dentry run run2 size inside add1 add2
    by (simp add: inode_write_def exec_simps szif)
  moreover have "length (overwrite offset (take ?sz src) c) + ?bs < 2 ^ 64"
    using lc sz src by (simp add: length_overwrite)
  moreover have "evolves (ext_of i bp) bp (?e - ?s) bl' bp2" using evolves_trans [OF ev ev2] by simp
  ultimately show ?thesis
    unfolding tk using inode_stepI [OF ok cur _ co2] n by (meson inode_step_mono)
qed

end
