(* ===== verification/Inode_Volumes.thy ===== *)
theory Inode_Volumes
  imports Inode_Spec
begin

text \<open>
  Correctness of the snapshot operations of an inode: \<open>create_new_volume\<close> gives the version
  the current bytes without copying them, \<open>delete_volume\<close> gives its references back. Both
  keep the invariant, so no version ever points to a buffer that has been freed.
\<close>

section \<open>Reference counts\<close>

definition freeze :: "buffer_result_t \<Rightarrow> buffer_result_t" where
  "freeze b = b\<lparr>is_snapshoted := True\<rparr>"

lemma freeze_id [simp]: "buf_id (freeze b) = buf_id b" "is_snapshoted (freeze b)"
  by (simp_all add: freeze_def)

lemma freeze_ids [simp]: "ids (map freeze bl) = ids bl" "map buf_id (map freeze bl) = map buf_id bl"
  by (simp_all add: ids_def image_image)

lemma contents_freeze [simp]: "contents bp (map freeze bl) = contents bp bl"
  by (simp add: contents_def)

lemma sum_list_insert:
  "sum_list (map f (map_insert k v m)) = (f (k, v) :: nat) + sum_list (map f m)"
  by (induction m) auto

lemma sum_list_erase:
  "distinct (map fst m) \<Longrightarrow> map_of m k = Some v \<Longrightarrow>
   sum_list (map f (map_erase k m)) + (f (k, v) :: nat) = sum_list (map f m)"
proof (induction m)
  case (Cons e m)
  obtain a b where e: "e = (a, b)" by fastforce
  show ?case
  proof (cases "a = k")
    case True
    with Cons.prems have "map_erase k m = m"
      by (auto simp: e map_erase_def intro!: filter_True)
    with True Cons.prems show ?thesis by (simp add: e map_erase_def)
  next
    case False
    with Cons show ?thesis by (simp add: e map_erase_def)
  qed
qed simp

lemma count_list_distinct: "distinct xs \<Longrightarrow> count_list xs x = (if x \<in> set xs then 1 else 0)"
  by (induction xs) auto

section \<open>Creating a volume\<close>

text \<open>\<open>bp'\<close> is \<open>bp\<close> with one more link on each buffer of \<open>J\<close>.\<close>

definition linked_more :: "nat set \<Rightarrow> buffer_pool_t \<Rightarrow> buffer_pool_t \<Rightarrow> bool" where
  "linked_more J bp bp' \<longleftrightarrow> map_ok bp' \<and> length bp' = length bp \<and>
     (\<forall>j. map_of bp' j = map_option (\<lambda>p. if j \<in> J then p\<lparr>buf_link_count := buf_link_count p + 1\<rparr> else p) (map_of bp j))"

lemma linked_more_step:
  assumes "linked_more J bp bp'" and p: "map_of bp' j = Some p" and "j \<notin> J"
  shows "linked_more (insert j J) bp (map_assign j (p\<lparr>buf_link_count := buf_link_count p + 1\<rparr>) bp')"
  using assms unfolding linked_more_def by (auto simp: map_option_case split: option.splits)

lemma freeze_loop_run:
  assumes "cur i = Some (map freeze xs @ ys)" and "linked_more (ids xs) bp0 bp"
    and "distinct (map buf_id (xs @ ys))"
    and "\<And>b. b \<in> set ys \<Longrightarrow> \<exists>p. map_of bp0 (buf_id b) = Some p \<and> buf_link_count p + 1 < 2 ^ 64"
  shows "\<exists>bp'. freeze_loop (length ys) (length xs) (map freeze xs) (i, bp)
       = (Inr (map freeze (xs @ ys)), (with_cur i (map freeze (xs @ ys)), bp'))
     \<and> linked_more (ids (xs @ ys)) bp0 bp'"
  using assms
proof (induction ys arbitrary: xs i bp)
  case Nil
  then show ?case by (simp add: exec_simps with_cur_same)
next
  case (Cons b ys)
  let ?i = "with_cur i (map freeze (xs @ [b]) @ ys)"
  obtain p0 where p0: "map_of bp0 (buf_id b) = Some p0" and lt: "buf_link_count p0 + 1 < 2 ^ 64"
    using Cons.prems(4) by auto
  have notin: "buf_id b \<notin> ids xs" using Cons.prems(3) by (auto simp: ids_def)
  then have p: "map_of bp (buf_id b) = Some p0" using Cons.prems(2) p0 by (simp add: linked_more_def)
  let ?bp = "map_assign (buf_id b) (p0\<lparr>buf_link_count := buf_link_count p0 + 1\<rparr>) bp"
  have more: "linked_more (ids (xs @ [b])) bp0 ?bp"
    using linked_more_step [OF Cons.prems(2) p notin] by simp
  have upd: "(map freeze xs @ b # ys)[length xs := freeze b] = map freeze (xs @ [b]) @ ys"
    by (simp add: list_update_append)
  have "\<exists>bp'. freeze_loop (length ys) (length (xs @ [b])) (map freeze (xs @ [b])) (?i, ?bp)
       = (Inr (map freeze ((xs @ [b]) @ ys)), (with_cur ?i (map freeze ((xs @ [b]) @ ys)), bp'))
     \<and> linked_more (ids ((xs @ [b]) @ ys)) bp0 bp'"
    using Cons.prems more by (intro Cons.IH) simp_all
  then show ?case
    using Cons.prems(1) p lt upd
    by (simp add: inode_exec nth_append add64_small flip: freeze_def)
qed

lemma snap_refs_emplace:
  assumes "map_of (buffer_map i) v = None" and "v \<noteq> FILESYSTEM_CUR_MODIFIABLE_VER"
  shows "snap_refs (i\<lparr>buffer_map := map_emplace v bl (buffer_map i)\<rparr>) j = snap_refs i j + count_list (map buf_id bl) j"
  using assms by (simp add: snap_refs_def map_emplace_def sum_list_insert)

text \<open>Buffers with the same bytes leave every version's bytes as they are.\<close>

lemma version_data_cong:
  "(\<And>j. bdata bp' j = bdata bp j) \<Longrightarrow> version_data i bp' = version_data i bp"
  by (simp add: version_data_def fun_eq_iff contents_def)

lemma holds_cong:
  "(\<And>j. map_of bp' j = None \<longleftrightarrow> map_of bp j = None) \<Longrightarrow> (\<And>j. bdata bp' j = bdata bp j) \<Longrightarrow>
   holds bs bp bl c \<Longrightarrow> holds bs bp' bl c"
  by (simp add: holds_def present_def contents_def)

lemma create_new_volume_step:
  assumes ok: "inode_ok i bp" and new: "map_of (buffer_map i) v = None"
    and counters: "\<And>j p. j \<in> blocks_of i \<Longrightarrow> map_of bp j = Some p \<Longrightarrow> buf_link_count p + 1 < 2 ^ 64"
  shows "\<exists>i' bp'. create_new_volume v (i, bp) = (Inr (), (i', bp'))
     \<and> inode_step i bp 0 i' bp'
     \<and> version_data i' bp' = (version_data i bp)(v := version_data i bp FILESYSTEM_CUR_MODIFIABLE_VER)"
proof -
  obtain bl where cur: "cur i = Some bl" and own: "owned (snap_refs i) bl bp"
    and h: "holds (block_size i) bp bl (concat (contents bp bl))" using ok by (rule inode_okE)
  have vc: "v \<noteq> FILESYSTEM_CUR_MODIFIABLE_VER" using new cur by auto
  have dist: "distinct (map buf_id bl)" using own by (rule owned_distinct)
  have start: "linked_more (ids []) bp bp"
    using ok by (simp add: linked_more_def inode_ok_def option.map_ident)
  have inb: "j \<in> ids bl \<Longrightarrow> j \<in> blocks_of i" for j using ok cur by (simp add: blocks_of_cases inode_ok_def)
  have "\<exists>p. map_of bp (buf_id b) = Some p \<and> buf_link_count p + 1 < 2 ^ 64" if "b \<in> set bl" for b
  proof -
    have "buf_id b \<in> ids bl" using that by (simp add: ids_def)
    then show ?thesis using h that counters [OF inb] by (fastforce simp: holds_def present_def)
  qed
  then obtain bp' where run: "freeze_loop (length bl) 0 [] (i, bp)
       = (Inr (map freeze bl), (with_cur i (map freeze bl), bp'))" and more: "linked_more (ids bl) bp bp'"
    using freeze_loop_run [of i "[]" bl bp bp] cur start dist by auto
  let ?j = "with_cur i (map freeze bl)"
  let ?i = "?j\<lparr>buffer_map := map_emplace v (map freeze bl) (buffer_map ?j)\<rparr>"
  have newj: "map_of (buffer_map ?j) v = None" using new vc by (simp add: map_of_with_cur)
  have same: "bdata bp' j = bdata bp j" "map_of bp' j = None \<longleftrightarrow> map_of bp j = None" for j
    using more by (auto simp: linked_more_def bdata_def split: option.splits)
  have mapi: "map_of (buffer_map ?i) = (map_of (buffer_map i))(FILESYSTEM_CUR_MODIFIABLE_VER \<mapsto> map freeze bl, v \<mapsto> map freeze bl)"
    using newj cur vc by (auto simp: fun_eq_iff with_cur_def map_of_assign)
  have refs: "snap_refs ?i j = snap_refs i j + (if j \<in> ids bl then 1 else 0)" for j
    using snap_refs_emplace [OF newj vc, of "map freeze bl" j] count_list_distinct [OF dist, of j]
    by (simp only: freeze_ids snap_refs_with_cur) (simp add: ids_def)
  have "owned (snap_refs ?i) (map freeze bl) bp'"
  proof (rule ownedI)
    show "linked (snap_refs ?i) (ids (map freeze bl)) bp' j" if "0 < snap_refs ?i j \<or> j \<in> ids (map freeze bl)" for j
    proof -
      have "linked (snap_refs i) (ids bl) bp j" using that refs [of j] by (intro owned_linked [OF own]) (auto split: if_splits)
      then obtain p where p: "map_of bp j = Some p" "snap_refs i j + (if j \<in> ids bl then 1 else 0) \<le> buf_link_count p"
        and lt: "buf_link_count p < 2 ^ 64" by (rule linkedE)
      have "j \<in> ids bl \<Longrightarrow> buf_link_count p + 1 < 2 ^ 64" using counters [OF inb p(1)] .
      with more p lt show ?thesis
        by (intro linkedI [of _ _ "if j \<in> ids bl then p\<lparr>buf_link_count := buf_link_count p + 1\<rparr> else p"])
           (auto simp: refs linked_more_def)
    qed
  qed (use dist more in \<open>auto simp: linked_more_def comp_def\<close>)
  moreover have "map_of (buffer_map ?i) w = Some bl' \<Longrightarrow> holds (block_size ?i) bp' bl' (concat (contents bp' bl'))" for w bl'
  proof -
    assume "map_of (buffer_map ?i) w = Some bl'"
    then have "bl' = map freeze bl \<or> map_of (buffer_map i) w = Some bl'"
      unfolding mapi by (auto split: if_splits)
    then have "holds (block_size i) bp bl' (concat (contents bp bl'))"
      using h ok by (auto simp: inode_ok_def holds_def present_def)
    then have "holds (block_size i) bp' bl' (concat (contents bp bl'))"
      by (rule holds_cong [OF same(2) same(1)])
    from this this [THEN holds_concat] show ?thesis by simp
  qed
  moreover have "map_ok (buffer_map ?i)" using ok by (simp add: inode_ok_def with_cur_def)
  ultimately have ok': "inode_ok ?i bp'"
    using ok more mapi vc by (simp add: inode_ok_def linked_more_def)
  have cur': "cur ?i = Some (map freeze bl)" using mapi vc by simp
  have mok: "map_ok (buffer_map i)" "map_ok (buffer_map ?i)" using ok ok' by (simp_all only: inode_ok_def)
  have blocks: "blocks_of ?i = blocks_of i"
    using blocks_of_cases [OF mok(1) cur] blocks_of_cases [OF mok(2) cur'] refs by (simp add: set_eq_iff)
  have "map_of bp' j = map_of bp j" if "j \<notin> blocks_of i" for j
    using that more ok cur by (auto simp: linked_more_def inode_ok_def blocks_of_cases option.map_ident)
  then have step: "inode_step i bp 0 ?i bp'"
    using ok' more blocks by (simp add: inode_step_def linked_more_def)
  have "version_data ?i bp' = version_data ?i bp" using same(1) by (rule version_data_cong)
  also have "\<dots> = (version_data i bp)(v := version_data i bp FILESYSTEM_CUR_MODIFIABLE_VER)"
    unfolding version_data_def mapi using cur by (simp add: fun_eq_iff)
  finally have vd: "version_data ?i bp' = (version_data i bp)(v := version_data i bp FILESYSTEM_CUR_MODIFIABLE_VER)" .
  have "create_new_volume v (i, bp) = (Inr (), (?i, bp'))"
    using cur new run by (simp add: create_new_volume_def exec_simps)
  with step vd show ?thesis by blast
qed

lemma create_new_volume_double:
  "map_of (buffer_map i) v = Some bl \<Longrightarrow>
   create_new_volume v (i, bp) = (Inl (HTMPFS_error_t HTMPFS_DOUBLE_SNAPSHOT), (i, bp))"
  by (simp add: create_new_volume_def exec_simps)

section \<open>Deleting a volume\<close>

text \<open>
  Unlinking every block of a list: the link counts go down with the references, so a buffer
  that is still referenced (\<open>need\<close>) stays in the pool with its bytes.
\<close>

definition covered :: "(nat \<Rightarrow> nat) \<Rightarrow> buffer_pool_t \<Rightarrow> bool" where
  "covered need bp \<longleftrightarrow> (\<forall>j. 0 < need j \<longrightarrow>
     (\<exists>p. map_of bp j = Some p \<and> need j \<le> buf_link_count p \<and> buf_link_count p < 2 ^ 64))"

lemma coveredE:
  assumes "covered need bp" and "0 < need j"
  obtains p where "map_of bp j = Some p" and "need j \<le> buf_link_count p" and "buf_link_count p < 2 ^ 64"
  using assms unfolding covered_def by blast

lemma unlink_covered:
  assumes "map_ok bp" and cov: "covered (\<lambda>j. need j + (if j = i then 1 else 0)) bp"
  obtains bp' where "unlink_buffer i bp = (Inr (), bp')" and "map_ok bp'" and "covered need bp'"
    and "length bp' \<le> length bp" and "\<And>j. j \<noteq> i \<Longrightarrow> map_of bp' j = map_of bp j"
    and "\<And>j. 0 < need j \<Longrightarrow> bdata bp' j = bdata bp j"
proof -
  obtain p where p: "map_of bp i = Some p" and le: "need i + 1 \<le> buf_link_count p" and lt: "buf_link_count p < 2 ^ 64"
    using coveredE [OF cov, of i] by auto
  have down: "sub64 (buf_link_count p) 1 = buf_link_count p - 1" using le lt by (intro sub64_small) simp_all
  let ?bp = "if buf_link_count p = 1 then map_erase i bp
             else map_assign i (p\<lparr>buf_link_count := buf_link_count p - 1\<rparr>) bp"
  have other: "j \<noteq> i \<Longrightarrow> map_of ?bp j = map_of bp j" for j using p by simp
  have need0: "buf_link_count p = 1 \<Longrightarrow> need i = 0" using le by simp
  have kept: "\<exists>q. map_of ?bp j = Some q \<and> need j \<le> buf_link_count q \<and> buf_link_count q < 2 ^ 64 \<and> buffer q = bdata bp j"
    if j: "0 < need j" for j
  proof (cases "j = i")
    case True
    then show ?thesis using p le lt j need0 by (auto simp: bdata_def)
  next
    case False
    then obtain q where "map_of bp j = Some q" "need j \<le> buf_link_count q" "buf_link_count q < 2 ^ 64"
      using coveredE [OF cov, of j] j by auto
    then show ?thesis using other [OF False] by (simp add: bdata_def)
  qed
  have "covered need ?bp" unfolding covered_def using kept by blast
  moreover have "bdata ?bp j = bdata bp j" if "0 < need j" for j
    using kept [OF that] unfolding bdata_def [of ?bp] by (metis option.simps(5))
  moreover have "unlink_buffer i bp = (Inr (), ?bp)" using p down by (simp add: unlink_buffer_eq)
  moreover have "map_ok ?bp" "length ?bp \<le> length bp" using assms(1) by (simp_all add: length_map_erase)
  ultimately show thesis using other that by blast
qed

lemma unlink_all_covered:
  assumes "map_ok bp" and "covered (\<lambda>j. need j + count_list (map buf_id bl) j) bp"
  shows "\<exists>bp'. unlink_all bl bp = (Inr (), bp') \<and> map_ok bp' \<and> covered need bp' \<and> length bp' \<le> length bp
     \<and> (\<forall>j. j \<notin> ids bl \<longrightarrow> map_of bp' j = map_of bp j) \<and> (\<forall>j. 0 < need j \<longrightarrow> bdata bp' j = bdata bp j)"
  using assms
proof (induction bl arbitrary: bp)
  case Nil
  then show ?case by (simp add: exec_simps)
next
  case (Cons b bl)
  let ?need = "\<lambda>j. need j + count_list (map buf_id bl) j"
  have c: "covered (\<lambda>j. ?need j + (if j = buf_id b then 1 else 0)) bp"
    using Cons.prems(2) by (rule back_subst [of "\<lambda>need. covered need bp"]) (auto simp: fun_eq_iff)
  then obtain bp1 where run: "unlink_buffer (buf_id b) bp = (Inr (), bp1)" and ok: "map_ok bp1"
    and cov: "covered ?need bp1" and len: "length bp1 \<le> length bp"
    and other: "\<And>j. j \<noteq> buf_id b \<Longrightarrow> map_of bp1 j = map_of bp j"
    and kept: "\<And>j. 0 < ?need j \<Longrightarrow> bdata bp1 j = bdata bp j"
    using unlink_covered [OF Cons.prems(1) c] by blast
  from Cons.IH [OF ok cov] obtain bp2 where "unlink_all bl bp1 = (Inr (), bp2)" "map_ok bp2" "covered need bp2"
    "length bp2 \<le> length bp1" "\<forall>j. j \<notin> ids bl \<longrightarrow> map_of bp2 j = map_of bp1 j"
    "\<forall>j. 0 < need j \<longrightarrow> bdata bp2 j = bdata bp1 j" by blast
  then show ?case using run len other kept by (intro exI [of _ bp2]) (auto simp: exec_simps ids_def)
qed

lemma delete_volume_step:
  assumes ok: "inode_ok i bp" and v: "map_of (buffer_map i) v = Some old" and vc: "v \<noteq> FILESYSTEM_CUR_MODIFIABLE_VER"
  shows "\<exists>i' bp'. delete_volume v (i, bp) = (Inr (), (i', bp'))
     \<and> inode_step i bp 0 i' bp' \<and> version_data i' bp' = (version_data i bp)(v := None)"
proof -
  obtain bl where cur: "cur i = Some bl" and own: "owned (snap_refs i) bl bp" using ok by (rule inode_okE)
  have mok: "map_ok (buffer_map i)" and pok: "map_ok bp" using ok by (simp_all add: inode_ok_def)
  let ?i = "i\<lparr>buffer_map := map_erase v (buffer_map i)\<rparr>"
  have refs: "snap_refs ?i j + count_list (map buf_id old) j = snap_refs i j" for j
    using sum_list_erase [OF map_ok_distinct [OF mok] v, of "\<lambda>(w, bl). if w = FILESYSTEM_CUR_MODIFIABLE_VER then 0 else count_list (map buf_id bl) j"] vc
    by (simp add: snap_refs_def)
  let ?need = "\<lambda>j. snap_refs ?i j + (if j \<in> ids bl then 1 else 0)"
  have need: "?need j + count_list (map buf_id old) j = snap_refs i j + (if j \<in> ids bl then 1 else 0)" for j
    using refs [of j] by simp
  have "covered (\<lambda>j. ?need j + count_list (map buf_id old) j) bp"
    unfolding need covered_def using owned_linked [OF own] by (fastforce elim: linkedE split: if_splits)
  from unlink_all_covered [OF pok this] obtain bp' where run: "unlink_all old bp = (Inr (), bp')" and pok': "map_ok bp'"
    and cov: "covered ?need bp'" and len: "length bp' \<le> length bp"
    and other: "\<And>j. j \<notin> ids old \<Longrightarrow> map_of bp' j = map_of bp j"
    and kept: "\<And>j. 0 < ?need j \<Longrightarrow> bdata bp' j = bdata bp j" by blast
  have own': "owned (snap_refs ?i) bl bp'"
  proof (rule ownedI)
    show "linked (snap_refs ?i) (ids bl) bp' j" if "0 < snap_refs ?i j \<or> j \<in> ids bl" for j
    proof -
      have "0 < ?need j" using that by auto
      then obtain p where "map_of bp' j = Some p" "?need j \<le> buf_link_count p" "buf_link_count p < 2 ^ 64"
        by (rule coveredE [OF cov])
      then show ?thesis by (rule linkedI)
    qed
    show "snap_refs ?i (buf_id b) = 0" if "b \<in> set bl" "\<not> is_snapshoted b" for b
      using owned_unfrozen_block [OF own that] refs [of "buf_id b"] by simp
  qed (use pok' owned_distinct [OF own] in simp_all)
  have cur': "cur ?i = Some bl" using cur vc by simp
  have mok': "map_ok (buffer_map ?i)" using mok by simp
  have blocks: "j \<in> blocks_of ?i \<longleftrightarrow> 0 < ?need j" for j
    using blocks_of_cases [OF mok' cur', of j] by auto
  have sub: "j \<in> blocks_of ?i \<Longrightarrow> j \<in> blocks_of i" for j by (auto simp: blocks_of_def map_erase_def)
  have data: "contents bp' bl2 = contents bp bl2 \<and> present bp' bl2"
    if w: "map_of (buffer_map ?i) w = Some bl2" for w bl2
  proof -
    have n: "0 < ?need j" if j: "j \<in> ids bl2" for j
    proof -
      have "j \<in> blocks_of ?i" unfolding blocks_of_def using j map_of_SomeD [OF w] by blast
      then show ?thesis by (simp only: blocks)
    qed
    have "contents bp' bl2 = contents bp bl2" by (intro contents_cong kept n)
    moreover have "map_of bp' j \<noteq> None" if "j \<in> ids bl2" for j
      using cov n [OF that] unfolding covered_def by (metis option.distinct(1))
    then have "present bp' bl2" unfolding present_def ids_def by blast
    ultimately show ?thesis ..
  qed
  have "holds (block_size i) bp' bl2 (concat (contents bp' bl2))" if m: "map_of (buffer_map ?i) w = Some bl2" for w bl2
  proof -
    have "map_of (buffer_map i) w = Some bl2" using m by (simp split: if_splits)
    with ok have "holds (block_size i) bp bl2 (concat (contents bp bl2))" by (simp add: inode_ok_def)
    with data [OF m] show ?thesis by (simp add: holds_def)
  qed
  then have ok': "inode_ok ?i bp'" using ok mok' pok' cur' own' by (simp add: inode_ok_def)
  have "map_of bp' j = map_of bp j" if "j \<notin> blocks_of i" for j
    using that map_of_SomeD [OF v] by (intro other) (auto simp: blocks_of_def)
  then have "inode_step i bp 0 ?i bp'" using ok' len sub by (auto simp: inode_step_def)
  moreover have "version_data ?i bp' w = ((version_data i bp)(v := None)) w" for w
  proof (cases "map_of (buffer_map ?i) w")
    case None
    then show ?thesis by (simp add: version_data_def split: if_splits)
  next
    case (Some bl2)
    moreover from this have "w \<noteq> v" "map_of (buffer_map i) w = Some bl2" by (simp_all split: if_splits)
    ultimately show ?thesis using data [OF Some] by (simp add: version_data_def)
  qed
  then have "version_data ?i bp' = (version_data i bp)(v := None)" by (rule ext)
  moreover have "delete_volume v (i, bp) = (Inr (), (?i, bp'))"
    using v vc run by (simp add: delete_volume_def inode_exec)
  ultimately show ?thesis by blast
qed

lemma delete_volume_refused:
  "v = FILESYSTEM_CUR_MODIFIABLE_VER \<or> map_of (buffer_map i) v = None \<Longrightarrow>
   delete_volume v (i, bp) = (Inl (HTMPFS_error_t HTMPFS_NO_SUCH_SNAPSHOT), (i, bp))"
  by (auto simp: delete_volume_def exec_simps)

end
