(* ===== verification/Directory_Resolver.thy ===== *)
theory Directory_Resolver
  imports Dentry_Format Inode_Volumes
begin

text \<open>
  \<open>directory_resolver_t\<close> (\<open>directory_resolver.h\<close>, \<open>directory_resolver.cpp\<close>): the entries of
  a directory inode, read from its bytes when the resolver is made and written back by
  \<open>save_current\<close>. The resolver keeps a pointer to its inode, so the operations that use it
  run on the state of that inode; the others work on the vector \<open>path\<close> alone.
\<close>

section \<open>Operations\<close>

type_synonym dentries = "path_pack_t list"

text \<open>\<open>a.length() == b.length() \<and> !memcmp(b, a, a.length())\<close>, the comparison that all four searches use.\<close>

definition memcmp_equal :: "string \<Rightarrow> string \<Rightarrow> nat \<Rightarrow> bool" where
  "memcmp_equal a b n \<longleftrightarrow> take n a = take n b"

definition same_pathname :: "path_pack_t \<Rightarrow> string \<Rightarrow> bool" where
  "same_pathname i name \<longleftrightarrow> length (pathname i) = length name \<and> memcmp_equal (pathname i) name (length name)"

definition refresh :: "string \<Rightarrow> (ist, exc, dentries) exec" where
  "refresh access_version =
     bindx (current_data_size access_version) (\<lambda>sz.
     if sz = 0 then ret []
     else bindx (inode_to_string access_version) (\<lambda>all_path. liftx (decode_dentry all_path)))"

definition new_directory_resolver_t :: "string \<Rightarrow> (ist, exc, dentries) exec" where
  "new_directory_resolver_t ver =
     bindx (getx (\<lambda>s. is_dentry (fst s))) (\<lambda>dentry.
     if \<not> dentry then throw (HTMPFS_error_t HTMPFS_NOT_A_DIRECTORY) else refresh ver)"

definition target_count :: "dentries \<Rightarrow> nat" where
  "target_count path = length path"

definition to_vector :: "dentries \<Rightarrow> dentries" where
  "to_vector path = path"

fun any_same :: "dentries \<Rightarrow> string \<Rightarrow> bool" where
  "any_same [] name = False"
| "any_same (i # path) name = (same_pathname i name \<or> any_same path name)"

definition add_path :: "dentries \<Rightarrow> string \<Rightarrow> nat \<Rightarrow> exc + dentries" where
  "add_path path name i =
     (if any_same path name then Inl (HTMPFS_error_t HTMPFS_DOUBLE_MKPATHNAME)
      else Inr (path @ [\<lparr>pathname = name, pack_inode = i\<rparr>]))"

fun namei :: "dentries \<Rightarrow> string \<Rightarrow> exc + nat" where
  "namei [] name = Inl (HTMPFS_error_t HTMPFS_NO_SUCH_FILE_OR_DIR)"
| "namei (i # path) name = (if same_pathname i name then Inr (pack_inode i) else namei path name)"

definition check_availability :: "dentries \<Rightarrow> string \<Rightarrow> bool" where
  "check_availability path name \<longleftrightarrow> \<not> any_same path name"

fun remove_path :: "dentries \<Rightarrow> string \<Rightarrow> exc + dentries" where
  "remove_path [] name = Inl (HTMPFS_error_t HTMPFS_REQUESTED_INODE_NOT_FOUND)"
| "remove_path (i # path) name =
     (if same_pathname i name then Inr path
      else (case remove_path path name of Inl e \<Rightarrow> Inl e | Inr rest \<Rightarrow> Inr (i # rest)))"

definition save_current :: "dentries \<Rightarrow> (ist, exc, unit) exec" where
  "save_current path =
     (let d = encode_dentry path in bindx (inode_write d (length d) 0 True True) (\<lambda>_. ret ()))"

section \<open>The entries as a finite map\<close>

definition dir_map :: "dentries \<Rightarrow> string \<Rightarrow> nat option" where
  "dir_map path = map_of (map (\<lambda>i. (pathname i, pack_inode i)) path)"

definition names :: "dentries \<Rightarrow> string list" where
  "names path = map pathname path"

lemma same_pathname_iff [simp]: "same_pathname i name \<longleftrightarrow> pathname i = name"
  by (auto simp: same_pathname_def memcmp_equal_def)

lemma any_same_iff: "any_same path name \<longleftrightarrow> name \<in> set (names path)"
  by (induction path) (auto simp: names_def)

lemma dir_map_dom: "dom (dir_map path) = set (names path)"
  by (simp add: dir_map_def names_def dom_map_of_conv_image_fst image_image)

lemma dir_map_None: "dir_map path name = None \<longleftrightarrow> name \<notin> set (names path)"
  by (auto simp: dir_map_def map_of_eq_None_iff names_def image_image)

lemma namei_eq:
  "namei path name = (case dir_map path name of
     None \<Rightarrow> Inl (HTMPFS_error_t HTMPFS_NO_SUCH_FILE_OR_DIR) | Some i \<Rightarrow> Inr i)"
  by (induction path) (auto simp: dir_map_def)

lemma add_path_ok:
  "dir_map path name = None \<Longrightarrow> add_path path name i = Inr (path @ [\<lparr>pathname = name, pack_inode = i\<rparr>])"
  by (simp add: add_path_def any_same_iff dir_map_None)

lemma dir_map_snoc:
  "dir_map path name = None \<Longrightarrow>
   dir_map (path @ [\<lparr>pathname = name, pack_inode = i\<rparr>]) = (dir_map path)(name \<mapsto> i)"
  by (induction path) (auto simp: dir_map_def fun_eq_iff split: if_splits)

lemma remove_path_missing:
  "dir_map path name = None \<Longrightarrow> remove_path path name = Inl (HTMPFS_error_t HTMPFS_REQUESTED_INODE_NOT_FOUND)"
  by (induction path) (auto simp: dir_map_def split: if_splits)

lemma remove_path_ok:
  assumes "distinct (names path)" and "dir_map path name = Some i"
  obtains rest where "remove_path path name = Inr rest" and "dir_map rest = (dir_map path)(name := None)"
    and "set rest \<subseteq> set path" and "distinct (names rest)"
proof -
  have "\<exists>rest. remove_path path name = Inr rest \<and> dir_map rest = (dir_map path)(name := None)
     \<and> set rest \<subseteq> set path \<and> distinct (names rest)" using assms
  proof (induction path)
    case Nil
    then show ?case by (simp add: dir_map_def)
  next
    case (Cons a path)
    show ?case
    proof (cases "pathname a = name")
      case True
      with Cons.prems have "dir_map path name = None" by (simp add: dir_map_None names_def)
      with True Cons.prems show ?thesis by (auto simp: dir_map_def names_def fun_eq_iff)
    next
      case False
      with Cons.prems have "distinct (names path)" "dir_map path name = Some i"
        by (simp_all add: names_def dir_map_def)
      from Cons.IH [OF this] obtain rest where r: "remove_path path name = Inr rest"
        "dir_map rest = (dir_map path)(name := None)" "set rest \<subseteq> set path" "distinct (names rest)" by blast
      have "distinct (names (a # rest))" using r(3,4) Cons.prems(1) by (auto simp: names_def)
      moreover have "dir_map (a # rest) = (dir_map (a # path))(name := None)"
        using r(2) False by (auto simp: dir_map_def fun_eq_iff)
      ultimately show ?thesis using False r by auto
    qed
  qed
  then show thesis using that by blast
qed

section \<open>Where the entries are kept\<close>

text \<open>
  What the resolver needs of its inode: a byte string that is read back as it was written.
\<close>

locale byte_file =
  fixes inv :: "'s \<Rightarrow> bool" and bytes :: "'s \<Rightarrow> data_t" and fits :: "nat \<Rightarrow> 's \<Rightarrow> bool"
    and load :: "('s, exc, data_t) exec" and store :: "data_t \<Rightarrow> ('s, exc, nat) exec"
  assumes load_bytes: "inv s \<Longrightarrow> load s = (Inr (bytes s), s)"
    and store_bytes: "inv s \<Longrightarrow> fits (length d) s \<Longrightarrow> d \<noteq> [] \<Longrightarrow>
      \<exists>s'. store d s = (Inr (length d), s') \<and> inv s' \<and> bytes s' = d"
begin

lemma load_entries:
  assumes "inv s" and "bytes s = encode_dentry path"
    and "\<forall>p\<in>set path. storable_pack p" and "length path < 2 ^ 64"
  shows "bindx load (\<lambda>d. liftx (decode_dentry d)) s = (Inr path, s)"
  using assms by (simp add: exec_simps load_bytes decode_encode_dentry)

lemma load_empty: "inv s \<Longrightarrow> bytes s = [] \<Longrightarrow> bindx load (\<lambda>d. liftx (decode_dentry d)) s = (Inr [], s)"
  by (simp add: exec_simps load_bytes decode_dentry_def)

lemma save_load:
  assumes "inv s" and "fits (8 + 136 * length path) s"
    and "\<forall>p\<in>set path. storable_pack p" and "length path < 2 ^ 64"
  shows "\<exists>s'. store (encode_dentry path) s = (Inr (8 + 136 * length path), s') \<and> inv s'
     \<and> bytes s' = encode_dentry path \<and> bindx load (\<lambda>d. liftx (decode_dentry d)) s' = (Inr path, s')"
proof -
  from store_bytes [OF assms(1), of "encode_dentry path"] assms(2)
  obtain s' where "store (encode_dentry path) s = (Inr (8 + 136 * length path), s')" "inv s'" "bytes s' = encode_dentry path"
    by (auto simp: length_encode_dentry)
  then show ?thesis using load_entries [OF _ _ assms(3,4), of s'] by blast
qed

text \<open>A name of 128 bytes or more is accepted by the store and breaks the next load.\<close>

lemma save_load_too_long:
  assumes "inv s" and "fits (8 + 136 * length (ps @ [q])) s"
    and "\<forall>p\<in>set ps. storable_pack p" and "pack_inode q < 2 ^ 64" and "128 \<le> length (pathname q)"
    and "NUL \<notin> set (pathname q)" and "length (ps @ [q]) < 2 ^ 64"
  shows "\<exists>s'. store (encode_dentry (ps @ [q])) s = (Inr (8 + 136 * length (ps @ [q])), s')
     \<and> bindx load (\<lambda>d. liftx (decode_dentry d)) s' = (Inl Undefined_behaviour, s')"
proof -
  from store_bytes [OF assms(1), of "encode_dentry (ps @ [q])"] assms(2)
  obtain s' where "store (encode_dentry (ps @ [q])) s = (Inr (8 + 136 * length (ps @ [q])), s')" "inv s'"
    "bytes s' = encode_dentry (ps @ [q])"
    by (auto simp: length_encode_dentry)
  moreover from this have "bindx load (\<lambda>d. liftx (decode_dentry d)) s' = (Inl Undefined_behaviour, s')"
    using decode_too_long [OF assms(3,4,5,6,7)] by (simp add: exec_simps load_bytes)
  ultimately show ?thesis by blast
qed

end

text \<open>The inode is such a file.\<close>

definition current_bytes :: "ist \<Rightarrow> data_t" where
  "current_bytes s = the (version_data (fst s) (snd s) FILESYSTEM_CUR_MODIFIABLE_VER)"

definition dir_inode_ok :: "ist \<Rightarrow> bool" where
  "dir_inode_ok s \<longleftrightarrow> inode_ok (fst s) (snd s) \<and> length (current_bytes s) + block_size (fst s) + 1 < 2 ^ 64"

definition dir_inode_fits :: "nat \<Rightarrow> ist \<Rightarrow> bool" where
  "dir_inode_fits n s \<longleftrightarrow> roomy (fst s) (snd s) n \<and> n + block_size (fst s) + 1 < 2 ^ 64"

lemma inode_ok_version:
  assumes "inode_ok i bp" and "version_data i bp v = Some c"
  obtains bl where "map_of (buffer_map i) v = Some bl" and "holds (block_size i) bp bl c"
  using assms by (auto simp: inode_ok_def version_data_def)

lemma inode_ok_has_current:
  assumes "inode_ok i bp"
  shows "version_data i bp FILESYSTEM_CUR_MODIFIABLE_VER = Some (current_bytes (i, bp))"
  using assms by (auto simp: current_bytes_def version_data_def elim: inode_okE)

lemma dir_inode_store:
  assumes "dir_inode_ok s" and "dir_inode_fits (length d) s" and "d \<noteq> []"
  shows "\<exists>i' bp'. inode_write d (length d) 0 True True s = (Inr (length d), (i', bp'))
     \<and> dir_inode_ok (i', bp') \<and> current_bytes (i', bp') = d
     \<and> inode_step (fst s) (snd s) (2 * block_count (length d) (block_size (fst s))) i' bp'
     \<and> version_data i' bp' = (version_data (fst s) (snd s))(FILESYSTEM_CUR_MODIFIABLE_VER \<mapsto> d)"
proof -
  obtain i bp where s: "s = (i, bp)" by fastforce
  from assms have ok: "inode_ok i bp" and room: "roomy i bp (0 + length d)"
    by (simp_all add: s dir_inode_ok_def dir_inode_fits_def)
  from inode_write_resize_step [OF ok room, of d True] assms(3) obtain i' bp' where
    w: "inode_write d (length d) 0 True True (i, bp) = (Inr (length d), (i', bp'))"
    and st: "inode_step i bp (2 * block_count (length d) (block_size i)) i' bp'"
    and vd: "version_data i' bp' = (version_data i bp)(FILESYSTEM_CUR_MODIFIABLE_VER \<mapsto> d)"
    by (auto simp: resized_def)
  have "current_bytes (i', bp') = d" by (simp add: current_bytes_def vd)
  moreover have "dir_inode_ok (i', bp')"
    using assms(2) st calculation by (simp add: s dir_inode_ok_def dir_inode_fits_def inode_step_def)
  ultimately show ?thesis using w st vd by (auto simp: s)
qed

lemma dir_inode_load:
  assumes "dir_inode_ok s"
  shows "inode_to_string FILESYSTEM_CUR_MODIFIABLE_VER s = (Inr (current_bytes s), s)"
proof -
  obtain i bp where s: "s = (i, bp)" by fastforce
  have ok: "inode_ok i bp" and room: "length (current_bytes (i, bp)) + block_size i + 1 < 2 ^ 64"
    using assms by (simp_all add: s dir_inode_ok_def)
  obtain bl where "map_of (buffer_map i) FILESYSTEM_CUR_MODIFIABLE_VER = Some bl"
    and "holds (block_size i) bp bl (current_bytes (i, bp))"
    using ok inode_ok_has_current [OF ok] by (rule inode_ok_version)
  then show ?thesis unfolding s using room by (rule inode_to_string_ok)
qed

interpretation inode_file: byte_file dir_inode_ok current_bytes dir_inode_fits
    "inode_to_string FILESYSTEM_CUR_MODIFIABLE_VER" "\<lambda>d. inode_write d (length d) 0 True True"
proof
  show "\<exists>s'. inode_write d (length d) 0 True True s = (Inr (length d), s') \<and> dir_inode_ok s' \<and> current_bytes s' = d"
    if "dir_inode_ok s" "dir_inode_fits (length d) s" "d \<noteq> []" for s d
    using dir_inode_store [OF that] by blast
qed (rule dir_inode_load)

section \<open>Opening and saving a directory\<close>

lemma refresh_eq:
  assumes "inode_ok i bp" and "version_data i bp v = Some c" and "length c + block_size i + 1 < 2 ^ 64"
  shows "refresh v (i, bp) = (decode_dentry c, (i, bp))"
proof -
  obtain bl where bl: "map_of (buffer_map i) v = Some bl" and h: "holds (block_size i) bp bl c"
    using assms(1,2) by (rule inode_ok_version)
  show ?thesis
    using current_data_size_eq [OF bl h] inode_to_string_ok [OF bl h assms(3)]
    by (cases "c = []") (simp_all add: refresh_def exec_simps decode_dentry_def)
qed

lemma new_directory_resolver_eq:
  "is_dentry i \<Longrightarrow> new_directory_resolver_t v (i, bp) = refresh v (i, bp)"
  by (simp add: new_directory_resolver_t_def exec_simps)

lemma new_directory_resolver_file:
  "\<not> is_dentry i \<Longrightarrow> new_directory_resolver_t v (i, bp) = (Inl (HTMPFS_error_t HTMPFS_NOT_A_DIRECTORY), (i, bp))"
  by (simp add: new_directory_resolver_t_def exec_simps)

text \<open>The version \<open>v\<close> of a directory inode holds the entries \<open>path\<close>.\<close>

definition dir_bytes :: "dentries \<Rightarrow> data_t \<Rightarrow> bool" where
  "dir_bytes path c \<longleftrightarrow> (\<forall>p\<in>set path. storable_pack p) \<and> distinct (names path) \<and> length path < 2 ^ 32 \<and>
     (c = encode_dentry path \<or> c = [] \<and> path = [])"

lemma dir_bytes_decode: "dir_bytes path c \<Longrightarrow> decode_dentry c = Inr path"
  by (auto simp: dir_bytes_def decode_encode_dentry) (simp add: decode_dentry_def)

lemma dir_bytes_length: "dir_bytes path c \<Longrightarrow> length c \<le> 8 + 136 * 2 ^ 32"
  by (auto simp: dir_bytes_def length_encode_dentry)

lemma open_directory:
  assumes "inode_ok i bp" and "is_dentry i" and "version_data i bp v = Some c" and "dir_bytes path c"
    and "block_size i < 2 ^ 32"
  shows "new_directory_resolver_t v (i, bp) = (Inr path, (i, bp))"
  using refresh_eq [OF assms(1,3)] dir_bytes_length [OF assms(4)] assms(5)
  by (simp add: new_directory_resolver_eq assms(2) dir_bytes_decode [OF assms(4)])

lemma save_current_step:
  assumes ok: "inode_ok i bp" and room: "roomy i bp (8 + 136 * length path)"
  shows "\<exists>i' bp'. save_current path (i, bp) = (Inr (), (i', bp'))
     \<and> inode_step i bp (2 * block_count (8 + 136 * length path) (block_size i)) i' bp'
     \<and> version_data i' bp' = (version_data i bp)(FILESYSTEM_CUR_MODIFIABLE_VER \<mapsto> encode_dentry path)"
proof -
  let ?d = "encode_dentry path"
  have "roomy i bp (0 + length ?d)" using room by (simp add: length_encode_dentry)
  from inode_write_resize_step [OF ok this, of ?d True] obtain i' bp' where
    "inode_write ?d (length ?d) 0 True True (i, bp) = (Inr (length ?d), (i', bp'))"
    "inode_step i bp (2 * block_count (length ?d) (block_size i)) i' bp'"
    "version_data i' bp' = (version_data i bp)(FILESYSTEM_CUR_MODIFIABLE_VER \<mapsto> ?d)"
    by (auto simp: resized_def)
  then show ?thesis by (auto simp: save_current_def exec_simps length_encode_dentry)
qed

end
