(* ===== verification/Smi.thy ===== *)
theory Smi
  imports Directory_Resolver
begin

text \<open>
  \<open>inode_smi_t\<close> (\<open>htmpfs.h\<close>, \<open>htmpfs.cpp\<close>): the file system object with its block pool, its
  inode pool and the list of the inodes of every version. A pointer to an inode is kept as
  the inode's number: the nodes of a \<open>std::map\<close> do not move, and a number that has been
  erased is a dangling pointer.
\<close>

section \<open>State\<close>

record inode_pack_t =
  link_count :: nat
  inode :: inode_t

type_synonym inode_pool_t = "(nat, inode_pack_t) std_map"

record inode_smi_t =
  smi_block_size :: nat
  buffer_pool :: buffer_pool_t
  inode_pool :: inode_pool_t
  snapshot_version_list :: "(string, nat list) std_map"

type_synonym 'a smi_exec = "(inode_smi_t, exc, 'a) exec"

section \<open>Inodes\<close>

text \<open>A method of the inode that a pointer points to.\<close>

definition on_inode :: "nat \<Rightarrow> (ist, exc, 'a) exec \<Rightarrow> 'a smi_exec" where
  "on_inode k m =
     bindx (getx (\<lambda>fs. map_of (inode_pool fs) k)) (\<lambda>found.
     case found of
       None \<Rightarrow> throw Undefined_behaviour
     | Some pk \<Rightarrow>
         zoomx (\<lambda>fs. (inode pk, buffer_pool fs))
           (\<lambda>(i, bp) fs. fs\<lparr>inode_pool := map_assign k (pk\<lparr>inode := i\<rparr>) (inode_pool fs), buffer_pool := bp\<rparr>) m)"

definition get_inode_by_id :: "nat \<Rightarrow> nat smi_exec" where
  "get_inode_by_id k =
     bindx (getx (\<lambda>fs. map_of (inode_pool fs) k)) (\<lambda>found.
     if found = None then throw (HTMPFS_error_t HTMPFS_REQUESTED_INODE_NOT_FOUND) else ret k)"

definition count_link_for_inode :: "nat \<Rightarrow> nat smi_exec" where
  "count_link_for_inode k =
     bindx (getx (\<lambda>fs. map_of (inode_pool fs) k)) (\<lambda>found.
     case found of None \<Rightarrow> throw (HTMPFS_error_t HTMPFS_REQUESTED_INODE_NOT_FOUND)
     | Some pk \<Rightarrow> ret (link_count pk))"

definition set_link_count :: "nat \<Rightarrow> nat \<Rightarrow> unit smi_exec" where
  "set_link_count k n = modifyx (\<lambda>fs. fs\<lparr>inode_pool :=
     (case map_of (inode_pool fs) k of None \<Rightarrow> inode_pool fs
      | Some pk \<Rightarrow> map_assign k (pk\<lparr>link_count := n\<rparr>) (inode_pool fs))\<rparr>)"

definition erase_inode :: "nat \<Rightarrow> unit smi_exec" where
  "erase_inode k = modifyx (\<lambda>fs. fs\<lparr>inode_pool := map_erase k (inode_pool fs)\<rparr>)"

definition link_inode :: "nat \<Rightarrow> unit smi_exec" where
  "link_inode k = bindx (count_link_for_inode k) (\<lambda>n. set_link_count k (add64 n 1))"

definition unlink_inode :: "nat \<Rightarrow> unit smi_exec" where
  "unlink_inode k =
     bindx (count_link_for_inode k) (\<lambda>n.
     bindx (set_link_count k (sub64 n 1)) (\<lambda>_.
     if sub64 n 1 = 0 then erase_inode k else ret ()))"

definition new_inode_smi_t :: "nat \<Rightarrow> inode_smi_t" where
  "new_inode_smi_t bs =
     \<lparr>smi_block_size = bs, buffer_pool = [],
      inode_pool = map_emplace 0
        \<lparr>link_count = 1, inode = new_inode_t bs FILESYSTEM_ROOT_INODE_NUMBER True\<rparr> [],
      snapshot_version_list = map_emplace FILESYSTEM_CUR_MODIFIABLE_VER [FILESYSTEM_ROOT_INODE_NUMBER] []\<rparr>"

section \<open>Paths\<close>

text \<open>The loop over the components, from inode \<open>current_inode\<close>.\<close>

fun walk :: "string \<Rightarrow> path_t \<Rightarrow> nat \<Rightarrow> nat smi_exec" where
  "walk version [] current_inode = ret current_inode"
| "walk version (i # vec_path) current_inode =
     (if i = [] then walk version vec_path current_inode
      else
      bindx (getx (\<lambda>fs. map_of (inode_pool fs) current_inode)) (\<lambda>found.
      if found = None then throw Std_out_of_range
      else
      bindx (on_inode current_inode (new_directory_resolver_t version)) (\<lambda>path.
      bindx (liftx (namei path i)) (\<lambda>k. walk version vec_path k))))"

definition get_inode_id_by_path :: "string \<Rightarrow> nat smi_exec" where
  "get_inode_id_by_path path =
     (if path = [] then ret FILESYSTEM_ROOT_INODE_NUMBER
      else if hd path \<noteq> slash then throw (HTMPFS_error_t HTMPFS_INVALID_DENTRY_NAME)
      else
      bindx (liftx (if_snapshot path [])) (\<lambda>(version, parsed_path).
      let vec_path = new_path_t parsed_path in
      if version \<noteq> FILESYSTEM_CUR_MODIFIABLE_VER \<and> length vec_path = 1 then
        bindx (getx (\<lambda>fs. map_of (snapshot_version_list fs) version)) (\<lambda>found.
        if found = None then throw (HTMPFS_error_t HTMPFS_NO_SUCH_SNAPSHOT)
        else ret FILESYSTEM_ROOT_INODE_NUMBER)
      else walk version vec_path 0))"

section \<open>Making and removing children\<close>

text \<open>\<open>char\<close> is signed on the target: \<open>i < 0x1F || i >= 0x7F\<close>.\<close>

definition signed_char :: "char \<Rightarrow> int" where
  "signed_char c = (let n = (of_char c :: nat) in if n < 128 then int n else int n - 256)"

definition bad_char :: "char \<Rightarrow> bool" where
  "bad_char c \<longleftrightarrow> c = slash \<or> signed_char c < 0x1F \<or> signed_char c \<ge> 0x7F"

text \<open>\<open>vector::emplace_back\<close> on the list of the current version.\<close>

definition append_current_inode :: "nat \<Rightarrow> unit smi_exec" where
  "append_current_inode k =
     bindx (getx (\<lambda>fs. map_of (snapshot_version_list fs) FILESYSTEM_CUR_MODIFIABLE_VER)) (\<lambda>found.
     case found of None \<Rightarrow> throw Std_out_of_range
     | Some ks \<Rightarrow> modifyx (\<lambda>fs. fs\<lparr>snapshot_version_list :=
         map_assign FILESYSTEM_CUR_MODIFIABLE_VER (ks @ [k]) (snapshot_version_list fs)\<rparr>))"

definition make_child_dentry_under_parent :: "nat \<Rightarrow> string \<Rightarrow> bool \<Rightarrow> nat smi_exec" where
  "make_child_dentry_under_parent parent_inode_id name is_dir =
     (if list_ex bad_char name then throw (HTMPFS_error_t HTMPFS_INVALID_DENTRY_NAME)
      else
      bindx (getx (\<lambda>fs. map_of (inode_pool fs) parent_inode_id)) (\<lambda>found.
      if found = None then throw (HTMPFS_error_t HTMPFS_REQUESTED_INODE_NOT_FOUND)
      else
      bindx (on_inode parent_inode_id (new_directory_resolver_t FILESYSTEM_CUR_MODIFIABLE_VER)) (\<lambda>path.
      if \<not> check_availability path name then throw (HTMPFS_error_t HTMPFS_DOUBLE_MKPATHNAME)
      else
      bindx (getx inode_pool) (\<lambda>pool.
      bindx (liftx (get_free_id inode_pool_max_size pool)) (\<lambda>new_inode_id.
      bindx (getx smi_block_size) (\<lambda>bs.
      bindx (modifyx (\<lambda>fs. fs\<lparr>inode_pool := map_emplace new_inode_id
          \<lparr>link_count = 1, inode = new_inode_t bs new_inode_id is_dir\<rparr> (inode_pool fs)\<rparr>)) (\<lambda>_.
      bindx (liftx (add_path path name new_inode_id)) (\<lambda>path'.
      bindx (on_inode parent_inode_id (save_current path')) (\<lambda>_.
      bindx (append_current_inode new_inode_id) (\<lambda>_.
      ret new_inode_id))))))))))"

text \<open>The loop that erases the first entry with the inode's number from the current list.\<close>

definition remove_current_inode :: "nat \<Rightarrow> unit smi_exec" where
  "remove_current_inode k =
     bindx (getx (\<lambda>fs. map_of (snapshot_version_list fs) FILESYSTEM_CUR_MODIFIABLE_VER)) (\<lambda>found.
     case found of None \<Rightarrow> throw Std_out_of_range
     | Some ks \<Rightarrow> modifyx (\<lambda>fs. fs\<lparr>snapshot_version_list :=
         map_assign FILESYSTEM_CUR_MODIFIABLE_VER (remove1 k ks) (snapshot_version_list fs)\<rparr>))"

text \<open>The \<open>try\<close> block: a target that is a directory has to be empty.\<close>

definition check_dir_empty :: "nat \<Rightarrow> unit smi_exec" where
  "check_dir_empty target_id =
     catchx
       (bindx (on_inode target_id (new_directory_resolver_t FILESYSTEM_CUR_MODIFIABLE_VER)) (\<lambda>if_target_is_dir.
        if target_count if_target_is_dir \<noteq> 0 then throw (HTMPFS_error_t HTMPFS_DIR_NOT_EMPTY) else ret ()))
       (\<lambda>e. if e = HTMPFS_error_t HTMPFS_NOT_A_DIRECTORY then ret () else throw e)"

definition remove_child_dentry_under_parent :: "nat \<Rightarrow> string \<Rightarrow> unit smi_exec" where
  "remove_child_dentry_under_parent parent_inode_id name =
     bindx (getx (\<lambda>fs. map_of (inode_pool fs) parent_inode_id)) (\<lambda>found.
     if found = None then throw (HTMPFS_error_t HTMPFS_REQUESTED_INODE_NOT_FOUND)
     else
     bindx (on_inode parent_inode_id (new_directory_resolver_t FILESYSTEM_CUR_MODIFIABLE_VER)) (\<lambda>path.
     bindx (liftx (namei path name)) (\<lambda>target_id.
     bindx (check_dir_empty target_id) (\<lambda>_.
     bindx (liftx (remove_path path name)) (\<lambda>path'.
     bindx (on_inode parent_inode_id (save_current path')) (\<lambda>_.
     bindx (remove_current_inode target_id) (\<lambda>_.
     bindx (getx (\<lambda>fs. map_of (inode_pool fs) target_id)) (\<lambda>target_it.
     case target_it of
       None \<Rightarrow> throw Undefined_behaviour
     | Some pk \<Rightarrow>
         bindx (set_link_count target_id (sub64 (link_count pk) 1)) (\<lambda>_.
         if sub64 (link_count pk) 1 = 0 then erase_inode target_id else ret ())))))))))"

text \<open>
  \<open>remove_inode_by_path\<close> descends \<open>size() - 2\<close> components (an unsigned difference: with one
  component it wraps and the iterator runs off the vector). \<open>ops_inode->inode_id\<close> is read
  through the pointer.
\<close>

fun descend :: "nat \<Rightarrow> path_t \<Rightarrow> nat \<Rightarrow> nat smi_exec" where
  "descend 0 it ops_inode = ret ops_inode"
| "descend (Suc n) it ops_inode =
     (case it of
        [] \<Rightarrow> throw Undefined_behaviour
      | i # it' \<Rightarrow>
          bindx (on_inode ops_inode (new_directory_resolver_t FILESYSTEM_CUR_MODIFIABLE_VER)) (\<lambda>path.
          bindx (liftx (namei path i)) (\<lambda>k.
          bindx (get_inode_by_id k) (\<lambda>ops_inode'. descend n it' ops_inode'))))"

definition remove_inode_by_path :: "string \<Rightarrow> unit smi_exec" where
  "remove_inode_by_path given_path =
     (if given_path = ''/'' then throw (HTMPFS_error_t HTMPFS_CANNOT_REMOVE_ROOT)
      else
      let path = new_path_t given_path in
      bindx (liftx (path_last path)) (\<lambda>target_name.
      if length path < 2 then throw Undefined_behaviour
      else
      bindx (descend (length path - 2) (tl path) FILESYSTEM_ROOT_INODE_NUMBER) (\<lambda>ops_inode.
      bindx (on_inode ops_inode (getx (\<lambda>s. inode_id (fst s)))) (\<lambda>k.
      remove_child_dentry_under_parent k target_name))))"

section \<open>Snapshot volumes\<close>

fun snapshot_inodes :: "string \<Rightarrow> nat list \<Rightarrow> unit smi_exec" where
  "snapshot_inodes v [] = ret ()"
| "snapshot_inodes v (i # root_vec) =
     bindx (link_inode i) (\<lambda>_.
     bindx (on_inode i (create_new_volume v)) (\<lambda>_. snapshot_inodes v root_vec))"

definition create_snapshot_volume :: "string \<Rightarrow> unit smi_exec" where
  "create_snapshot_volume v =
     bindx (getx (\<lambda>fs. map_of (snapshot_version_list fs) v)) (\<lambda>found.
     if found \<noteq> None then throw (HTMPFS_error_t HTMPFS_DOUBLE_SNAPSHOT)
     else
     bindx (getx (\<lambda>fs. map_of (snapshot_version_list fs) FILESYSTEM_CUR_MODIFIABLE_VER)) (\<lambda>cur_list.
     case cur_list of
       None \<Rightarrow> throw Std_out_of_range
     | Some root_vec \<Rightarrow>
         bindx (snapshot_inodes v root_vec) (\<lambda>_.
         modifyx (\<lambda>fs. fs\<lparr>snapshot_version_list := map_emplace v root_vec (snapshot_version_list fs)\<rparr>))))"

fun unsnapshot_inodes :: "string \<Rightarrow> nat list \<Rightarrow> unit smi_exec" where
  "unsnapshot_inodes v [] = ret ()"
| "unsnapshot_inodes v (i # target_vec) =
     bindx (on_inode i (delete_volume v)) (\<lambda>_.
     bindx (unlink_inode i) (\<lambda>_. unsnapshot_inodes v target_vec))"

definition delete_snapshot_volume :: "string \<Rightarrow> unit smi_exec" where
  "delete_snapshot_volume v =
     bindx (getx (\<lambda>fs. map_of (snapshot_version_list fs) v)) (\<lambda>found.
     case found of
       None \<Rightarrow> throw (HTMPFS_error_t HTMPFS_NO_SUCH_SNAPSHOT)
     | Some target_vec \<Rightarrow>
         bindx (unsnapshot_inodes v target_vec) (\<lambda>_.
         modifyx (\<lambda>fs. fs\<lparr>snapshot_version_list := map_erase v (snapshot_version_list fs)\<rparr>)))"

section \<open>The file system map\<close>

text \<open>
  \<open>make_path_for_current_dentry\<close> and \<open>recursion_check\<close>; the list that the C++ closures append
  to is threaded through. The fuel bounds the depth of the recursion; running out of it is
  the value \<open>None\<close>.
\<close>

definition make_path_for_current_dentry :: "string \<Rightarrow> string \<Rightarrow> string list smi_exec" where
  "make_path_for_current_dentry version pathname_prefix =
     bindx (get_inode_id_by_path (make_path_with_version pathname_prefix version)) (\<lambda>k.
     bindx (get_inode_by_id k) (\<lambda>parent_inode.
     bindx (on_inode parent_inode (getx (\<lambda>s. is_dentry (fst s)))) (\<lambda>dentry.
     if \<not> dentry then ret []
     else
     bindx (on_inode parent_inode (new_directory_resolver_t version)) (\<lambda>current_sub_inode_list.
     ret (map (\<lambda>i. pathname_prefix @ pathname i) (to_vector current_sub_inode_list))))))"

fun recursion_check :: "nat \<Rightarrow> string \<Rightarrow> string list \<Rightarrow> string list \<Rightarrow> string list option smi_exec" where
  "recursion_check fuel version [] filesystem_map = ret (Some filesystem_map)"
| "recursion_check fuel version (i # dentry_list) filesystem_map =
     (if fuel = 0 then ret None
      else
      bindx (make_path_for_current_dentry version (if i = ''/'' then ''/'' else i @ ''/'')) (\<lambda>paths.
      bindx (recursion_check (fuel - 1) version paths (filesystem_map @ paths)) (\<lambda>r.
      case r of None \<Rightarrow> ret None
      | Some filesystem_map' \<Rightarrow> recursion_check fuel version dentry_list filesystem_map')))"

definition export_as_filesystem_map :: "nat \<Rightarrow> string \<Rightarrow> string list option smi_exec" where
  "export_as_filesystem_map fuel version = recursion_check fuel version [''/''] []"

end
