(* ===== verification/Smi_Storage.thy ===== *)
theory Smi_Storage
  imports Smi
begin

text \<open>
  The storage of the file system: every inode satisfies its invariant over the common block
  pool and no block belongs to two inodes. An operation on one inode that is an
  \<open>inode_step\<close> keeps this and changes the bytes of no other inode.
\<close>

section \<open>The invariant\<close>

definition inode_of :: "inode_smi_t \<Rightarrow> nat \<Rightarrow> inode_t option" where
  "inode_of fs k = map_option inode (map_of (inode_pool fs) k)"

definition storage_ok :: "inode_smi_t \<Rightarrow> bool" where
  "storage_ok fs \<longleftrightarrow> map_ok (inode_pool fs) \<and> map_ok (buffer_pool fs) \<and> 0 < smi_block_size fs \<and> smi_block_size fs < 2 ^ 32 \<and>
     (\<forall>k i. inode_of fs k = Some i \<longrightarrow>
        inode_ok i (buffer_pool fs) \<and> block_size i = smi_block_size fs \<and> inode_id i = k) \<and>
     (\<forall>k m i j. inode_of fs k = Some i \<and> inode_of fs m = Some j \<and> k \<noteq> m \<longrightarrow> blocks_of i \<inter> blocks_of j = {})"

text \<open>The bytes of a version of an inode.\<close>

definition fs_data :: "inode_smi_t \<Rightarrow> nat \<Rightarrow> string \<Rightarrow> data_t option" where
  "fs_data fs k v = (case map_of (inode_pool fs) k of None \<Rightarrow> None
     | Some pk \<Rightarrow> version_data (inode pk) (buffer_pool fs) v)"

definition put_inode :: "nat \<Rightarrow> inode_t \<Rightarrow> buffer_pool_t \<Rightarrow> inode_smi_t \<Rightarrow> inode_smi_t" where
  "put_inode k i bp fs = (case map_of (inode_pool fs) k of None \<Rightarrow> fs
     | Some pk \<Rightarrow> fs\<lparr>inode_pool := map_assign k (pk\<lparr>inode := i\<rparr>) (inode_pool fs), buffer_pool := bp\<rparr>)"

lemma put_inode_fields [simp]:
  "smi_block_size (put_inode k i bp fs) = smi_block_size fs"
  "snapshot_version_list (put_inode k i bp fs) = snapshot_version_list fs"
  by (simp_all add: put_inode_def split: option.splits)

lemma inode_of_put:
  "inode_of fs k = Some j \<Longrightarrow> inode_of (put_inode k i bp fs) = (inode_of fs)(k \<mapsto> i)"
  by (auto simp: inode_of_def put_inode_def fun_eq_iff)

lemma inode_pool_put:
  "map_of (inode_pool fs) k = Some pk \<Longrightarrow>
   map_of (inode_pool (put_inode k i bp fs)) = (map_of (inode_pool fs))(k \<mapsto> pk\<lparr>inode := i\<rparr>)"
  by (simp add: put_inode_def)

lemma buffer_pool_put [simp]: "inode_of fs k = Some j \<Longrightarrow> buffer_pool (put_inode k i bp fs) = bp"
  by (auto simp: put_inode_def inode_of_def)

lemma link_count_put:
  "map_option link_count (map_of (inode_pool (put_inode k i bp fs)) m) = map_option link_count (map_of (inode_pool fs) m)"
  by (auto simp: put_inode_def split: option.splits)

lemma map_ok_put [simp]: "map_ok (inode_pool (put_inode k i bp fs)) = map_ok (inode_pool fs)"
  by (simp add: put_inode_def split: option.splits)

lemma put_inode_same: "inode_of fs k = Some i \<Longrightarrow> put_inode k i (buffer_pool fs) fs = fs"
  by (auto simp: put_inode_def inode_of_def map_assign_same)

lemma fs_data_eq: "inode_of fs k = Some i \<Longrightarrow> fs_data fs k = version_data i (buffer_pool fs)"
  by (auto simp: fs_data_def inode_of_def fun_eq_iff)

lemma fs_data_none: "inode_of fs k = None \<Longrightarrow> fs_data fs k v = None"
  by (auto simp: fs_data_def inode_of_def)

section \<open>Running a method of an inode\<close>

lemma on_inode_eq:
  assumes "inode_of fs k = Some i" and "m (i, buffer_pool fs) = (r, (i', bp'))"
  shows "on_inode k m fs = (r, put_inode k i' bp' fs)"
  using assms by (auto simp: on_inode_def exec_simps inode_of_def put_inode_def)

lemma on_inode_pure:
  assumes "inode_of fs k = Some i" and "m (i, buffer_pool fs) = (r, (i, buffer_pool fs))"
  shows "on_inode k m fs = (r, fs)"
  using on_inode_eq [where m = m, OF assms(1) assms(2)] put_inode_same [OF assms(1)] by simp

lemma on_inode_dangling: "inode_of fs k = None \<Longrightarrow> on_inode k m fs = (Inl Undefined_behaviour, fs)"
  by (auto simp: on_inode_def exec_simps inode_of_def)

lemma storage_okD:
  assumes "storage_ok fs" and "inode_of fs k = Some i"
  shows "inode_ok i (buffer_pool fs)" and "block_size i = smi_block_size fs" and "inode_id i = k"
  using assms by (simp_all add: storage_ok_def)

lemma storage_ok_disjoint:
  "storage_ok fs \<Longrightarrow> inode_of fs k = Some i \<Longrightarrow> inode_of fs m = Some j \<Longrightarrow> k \<noteq> m \<Longrightarrow> blocks_of i \<inter> blocks_of j = {}"
  unfolding storage_ok_def by blast

lemma storage_okI:
  assumes "map_ok (inode_pool fs)" and "map_ok (buffer_pool fs)" and "0 < smi_block_size fs" and "smi_block_size fs < 2 ^ 32"
    and "\<And>k i. inode_of fs k = Some i \<Longrightarrow>
      inode_ok i (buffer_pool fs) \<and> block_size i = smi_block_size fs \<and> inode_id i = k"
    and "\<And>k m i j. inode_of fs k = Some i \<Longrightarrow> inode_of fs m = Some j \<Longrightarrow> k \<noteq> m \<Longrightarrow> blocks_of i \<inter> blocks_of j = {}"
  shows "storage_ok fs"
  using assms unfolding storage_ok_def by blast

text \<open>An inode depends on its own blocks only.\<close>

lemma inode_ok_cong:
  assumes ok: "inode_ok i bp" and pok: "map_ok bp'" and same: "\<And>j. j \<in> blocks_of i \<Longrightarrow> map_of bp' j = map_of bp j"
  shows "inode_ok i bp'" and "version_data i bp' = version_data i bp"
proof -
  obtain bl where cur: "cur i = Some bl" and own: "owned (snap_refs i) bl bp" using ok by (rule inode_okE)
  have mok: "map_ok (buffer_map i)" using ok by (simp add: inode_ok_def)
  have sub: "j \<in> ids bl' \<Longrightarrow> j \<in> blocks_of i" if "map_of (buffer_map i) v = Some bl'" for v bl' j
    unfolding blocks_of_def using map_of_SomeD [OF that] by blast
  have own': "owned (snap_refs i) bl bp'"
  proof (rule ownedI)
    show "linked (snap_refs i) (ids bl) bp' j" if "0 < snap_refs i j \<or> j \<in> ids bl" for j
    proof -
      have "j \<in> blocks_of i" using that blocks_of_cases [OF mok cur] by blast
      then show ?thesis using owned_linked [OF own that] same by (auto intro: linked_cong)
    qed
  qed (use own pok in \<open>simp_all add: owned_def\<close>)
  have co: "contents bp' bl' = contents bp bl' \<and> present bp' bl' = present bp bl'"
    if v: "map_of (buffer_map i) v = Some bl'" for v bl'
  proof
    show "contents bp' bl' = contents bp bl'"
      by (intro contents_cong) (simp add: bdata_def same sub [OF v])
    show "present bp' bl' = present bp bl'"
      unfolding present_def by (rule ball_cong) (simp_all add: same sub [OF v] ids_def)
  qed
  have "holds (block_size i) bp' bl' (concat (contents bp' bl'))" if v: "map_of (buffer_map i) v = Some bl'" for v bl'
  proof -
    have "holds (block_size i) bp bl' (concat (contents bp bl'))" using ok v by (simp add: inode_ok_def)
    then show ?thesis using co [OF v] by (simp add: holds_def)
  qed
  then show "inode_ok i bp'" using ok pok cur own' by (simp add: inode_ok_def)
  show "version_data i bp' = version_data i bp"
  proof
    show "version_data i bp' v = version_data i bp v" for v
      using co [of v] by (cases "map_of (buffer_map i) v") (simp_all add: version_data_def)
  qed
qed

text \<open>A step of one inode is a step of the file system.\<close>

lemma put_inode_step:
  assumes ok: "storage_ok fs" and k: "inode_of fs k = Some i" and st: "inode_step i (buffer_pool fs) n i' bp'"
  shows "storage_ok (put_inode k i' bp' fs)"
    and "fs_data (put_inode k i' bp' fs) = (fs_data fs)(k := version_data i' bp')"
proof -
  let ?fs = "put_inode k i' bp' fs" and ?bp = "buffer_pool fs"
  have bp: "buffer_pool ?fs = bp'" using k by simp
  have ino: "inode_of ?fs = (inode_of fs)(k \<mapsto> i')" using k by (rule inode_of_put)
  have ok': "inode_ok i' bp'" and frame: "\<And>j. live ?bp j \<Longrightarrow> j \<notin> blocks_of i \<Longrightarrow> map_of bp' j = map_of ?bp j \<and> j \<notin> blocks_of i'"
    using st by (simp_all add: inode_step_def)
  have pok: "map_ok bp'" using ok' by (simp add: inode_ok_def)
  have other: "map_of bp' j = map_of ?bp j \<and> j \<notin> blocks_of i'" if m: "inode_of fs m = Some im" "m \<noteq> k" "j \<in> blocks_of im" for m im j
  proof (rule frame)
    show "live ?bp j" using storage_okD(1) [OF ok m(1)] m(3) by (rule inode_ok_live)
    show "j \<notin> blocks_of i" using storage_ok_disjoint [OF ok k m(1)] m(2,3) by blast
  qed
  show "storage_ok ?fs"
  proof (rule storage_okI)
    show "inode_ok im (buffer_pool ?fs) \<and> block_size im = smi_block_size ?fs \<and> inode_id im = m"
      if m: "inode_of ?fs m = Some im" for m im
    proof (cases "m = k")
      case True
      then show ?thesis using m ino ok' st storage_okD [OF ok k] bp by (simp add: inode_step_def)
    next
      case False
      then have m': "inode_of fs m = Some im" using m ino by simp
      have "inode_ok im bp'" using inode_ok_cong(1) [OF storage_okD(1) [OF ok m'] pok] other [OF m' False] by blast
      then show ?thesis using storage_okD [OF ok m'] bp by simp
    qed
    show "blocks_of a \<inter> blocks_of b = {}"
      if ab: "inode_of ?fs m = Some a" "inode_of ?fs l = Some b" "m \<noteq> l" for m l a b
    proof -
      have "blocks_of i' \<inter> blocks_of c = {}" if "inode_of fs p = Some c" "p \<noteq> k" for p c
        using other [OF that] by blast
      then show ?thesis using ab storage_ok_disjoint [OF ok] unfolding ino
        by (cases "m = k"; cases "l = k") (auto simp: Int_commute)
    qed
  qed (use ok pok bp in \<open>simp_all add: storage_ok_def\<close>)
  show "fs_data ?fs = (fs_data fs)(k := version_data i' bp')"
  proof
    fix m
    show "fs_data ?fs m = ((fs_data fs)(k := version_data i' bp')) m"
    proof (cases "m = k")
      case True
      then show ?thesis using ino bp fs_data_eq [of ?fs k i'] by simp
    next
      case False
      show ?thesis
      proof (cases "inode_of fs m")
        case None
        then show ?thesis using False ino by (auto simp: fun_eq_iff fs_data_none)
      next
        case (Some im)
        then have "version_data im bp' = version_data im ?bp"
          using inode_ok_cong(2) [OF storage_okD(1) [OF ok Some] pok] other [OF Some False] by blast
        then show ?thesis using False ino bp Some fs_data_eq [of fs m] fs_data_eq [of ?fs m] by simp
      qed
    qed
  qed
qed

text \<open>Changes that touch neither inodes nor blocks.\<close>

lemma storage_ok_cong:
  assumes "storage_ok fs" and "inode_of fs' = inode_of fs" and "buffer_pool fs' = buffer_pool fs"
    and "map_ok (inode_pool fs')" and "smi_block_size fs' = smi_block_size fs"
  shows "storage_ok fs'" and "fs_data fs' = fs_data fs"
proof -
  show "storage_ok fs'"
  proof (rule storage_okI)
    show "inode_ok i (buffer_pool fs') \<and> block_size i = smi_block_size fs' \<and> inode_id i = k"
      if "inode_of fs' k = Some i" for k i
      using storage_okD [OF assms(1)] that assms by simp
    show "blocks_of i \<inter> blocks_of j = {}" if "inode_of fs' k = Some i" "inode_of fs' m = Some j" "k \<noteq> m" for k m i j
      using storage_ok_disjoint [OF assms(1)] that assms(2) by simp
  qed (use assms in \<open>simp_all add: storage_ok_def\<close>)
  show "fs_data fs' = fs_data fs"
  proof
    show "fs_data fs' k = fs_data fs k" for k
      using assms(2,3) fs_data_eq [of fs k] fs_data_eq [of fs' k]
      by (cases "inode_of fs k") (auto simp: fs_data_none fun_eq_iff)
  qed
qed

section \<open>The fresh file system\<close>

lemma new_inode_ok:
  assumes "map_ok bp" and "0 < bs" and "bs < 2 ^ 64"
  shows "inode_ok (new_inode_t bs k d) bp" and "blocks_of (new_inode_t bs k d) = {}"
    and "version_data (new_inode_t bs k d) bp = [FILESYSTEM_CUR_MODIFIABLE_VER \<mapsto> []]"
proof -
  let ?i = "new_inode_t bs k d"
  have m: "map_of (buffer_map ?i) = [FILESYSTEM_CUR_MODIFIABLE_VER \<mapsto> []]" by (simp add: new_inode_t_def)
  have s: "snap_refs ?i = (\<lambda>j. 0)" by (simp add: snap_refs_def new_inode_t_def map_emplace_def fun_eq_iff)
  have "holds bs bp [] []" using assms by (simp add: holds_def present_def chunk_def)
  moreover have "owned (\<lambda>j. 0) [] bp" using assms(1) by (intro ownedI) simp_all
  moreover have "map_ok (buffer_map ?i)" by (simp add: new_inode_t_def)
  moreover have "block_size ?i = bs" by (simp add: new_inode_t_def)
  ultimately show "inode_ok ?i bp" using assms m s by (simp add: inode_ok_def split: if_splits)
  show "blocks_of ?i = {}" by (simp add: blocks_of_def new_inode_t_def map_emplace_def)
  show "version_data ?i bp = [FILESYSTEM_CUR_MODIFIABLE_VER \<mapsto> []]"
    by (simp add: version_data_def m fun_eq_iff)
qed

lemma new_inode_fields [simp]:
  "block_size (new_inode_t bs k d) = bs" "inode_id (new_inode_t bs k d) = k" "is_dentry (new_inode_t bs k d) = d"
  by (simp_all add: new_inode_t_def)

text \<open>A new inode in the pool.\<close>

definition add_inode :: "nat \<Rightarrow> bool \<Rightarrow> inode_smi_t \<Rightarrow> inode_smi_t" where
  "add_inode k d fs = fs\<lparr>inode_pool := map_emplace k
     \<lparr>link_count = 1, inode = new_inode_t (smi_block_size fs) k d\<rparr> (inode_pool fs)\<rparr>"

lemma inode_of_add:
  "inode_of fs k = None \<Longrightarrow> inode_of (add_inode k d fs) = (inode_of fs)(k \<mapsto> new_inode_t (smi_block_size fs) k d)"
  by (auto simp: inode_of_def add_inode_def fun_eq_iff)

lemma add_inode_fields [simp]:
  "smi_block_size (add_inode k d fs) = smi_block_size fs"
  "snapshot_version_list (add_inode k d fs) = snapshot_version_list fs"
  "buffer_pool (add_inode k d fs) = buffer_pool fs"
  by (simp_all add: add_inode_def)

lemma add_inode_step:
  assumes ok: "storage_ok fs" and k: "inode_of fs k = None"
  shows "storage_ok (add_inode k d fs)"
    and "fs_data (add_inode k d fs) = (fs_data fs)(k := [FILESYSTEM_CUR_MODIFIABLE_VER \<mapsto> []])"
proof -
  let ?fs = "add_inode k d fs" and ?i = "new_inode_t (smi_block_size fs) k d"
  have ino: "inode_of ?fs = (inode_of fs)(k \<mapsto> ?i)" using k by (rule inode_of_add)
  have pok: "map_ok (buffer_pool fs)" and bs: "0 < smi_block_size fs" "smi_block_size fs < 2 ^ 32" and iok: "map_ok (inode_pool fs)"
    using ok by (simp_all add: storage_ok_def)
  then have bs64: "smi_block_size fs < 2 ^ 64" by simp
  note new = new_inode_ok [OF pok bs(1) bs64]
  show "storage_ok ?fs"
  proof (rule storage_okI)
    show "inode_ok i (buffer_pool ?fs) \<and> block_size i = smi_block_size ?fs \<and> inode_id i = m" if "inode_of ?fs m = Some i" for m i
      using that storage_okD [OF ok] new(1) unfolding ino by (auto split: if_splits)
    show "blocks_of i \<inter> blocks_of j = {}" if "inode_of ?fs l = Some i" "inode_of ?fs m = Some j" "l \<noteq> m" for l m i j
      using that storage_ok_disjoint [OF ok] new(2) unfolding ino by (auto split: if_splits)
    show "map_ok (inode_pool ?fs)" using iok by (simp add: add_inode_def)
  qed (use pok bs in simp_all)
  show "fs_data ?fs = (fs_data fs)(k := [FILESYSTEM_CUR_MODIFIABLE_VER \<mapsto> []])"
  proof
    show "fs_data ?fs m = ((fs_data fs)(k := [FILESYSTEM_CUR_MODIFIABLE_VER \<mapsto> []])) m" for m
      using new(3) fs_data_eq [of ?fs m] fs_data_eq [of fs m] unfolding ino
      by (cases "m = k"; cases "inode_of fs m") (auto simp: fs_data_none ino fun_eq_iff)
  qed
qed

text \<open>An inode taken out of the pool.\<close>

definition drop_inode :: "nat \<Rightarrow> inode_smi_t \<Rightarrow> inode_smi_t" where
  "drop_inode k fs = fs\<lparr>inode_pool := map_erase k (inode_pool fs)\<rparr>"

lemma inode_of_drop: "inode_of (drop_inode k fs) = (inode_of fs)(k := None)"
  by (auto simp: inode_of_def drop_inode_def fun_eq_iff)

lemma drop_inode_fields [simp]:
  "smi_block_size (drop_inode k fs) = smi_block_size fs"
  "snapshot_version_list (drop_inode k fs) = snapshot_version_list fs"
  "buffer_pool (drop_inode k fs) = buffer_pool fs"
  by (simp_all add: drop_inode_def)

lemma drop_inode_step:
  assumes ok: "storage_ok fs"
  shows "storage_ok (drop_inode k fs)" and "fs_data (drop_inode k fs) = (fs_data fs)(k := \<lambda>v. None)"
proof -
  let ?fs = "drop_inode k fs"
  note ino = inode_of_drop [of k fs]
  show "storage_ok ?fs"
  proof (rule storage_okI)
    show "inode_ok i (buffer_pool ?fs) \<and> block_size i = smi_block_size ?fs \<and> inode_id i = m" if "inode_of ?fs m = Some i" for m i
      using that storage_okD [OF ok] unfolding ino by (auto split: if_splits)
    show "blocks_of i \<inter> blocks_of j = {}" if "inode_of ?fs l = Some i" "inode_of ?fs m = Some j" "l \<noteq> m" for l m i j
      using that storage_ok_disjoint [OF ok] unfolding ino by (auto split: if_splits)
  qed (use ok in \<open>simp_all add: storage_ok_def drop_inode_def\<close>)
  show "fs_data ?fs = (fs_data fs)(k := \<lambda>v. None)"
  proof
    show "fs_data ?fs m = ((fs_data fs)(k := \<lambda>v. None)) m" for m
      using fs_data_eq [of ?fs m] fs_data_eq [of fs m] unfolding ino
      by (cases "m = k"; cases "inode_of fs m") (auto simp: fs_data_none ino fun_eq_iff)
  qed
qed

end
