(* ===== verification/Smi_Versions.thy ===== *)
theory Smi_Versions
  imports Smi_Storage
begin

text \<open>
  Snapshot volumes of the whole file system: \<open>create_snapshot_volume\<close> freezes every inode of
  the current version under the new name, \<open>delete_snapshot_volume\<close> takes a version away.
  \<open>versions_ok\<close> ties the version lists, the inodes' link counts and the inodes' volumes
  together.
\<close>

section \<open>Views\<close>

definition links :: "inode_smi_t \<Rightarrow> nat \<Rightarrow> nat option" where
  "links fs k = map_option link_count (map_of (inode_pool fs) k)"

definition kind :: "inode_smi_t \<Rightarrow> nat \<Rightarrow> bool option" where
  "kind fs k = map_option is_dentry (inode_of fs k)"

text \<open>The attributes, which no operation of the file system object changes.\<close>

definition stat_of :: "inode_smi_t \<Rightarrow> nat \<Rightarrow> stat option" where
  "stat_of fs k = map_option fs_stat (inode_of fs k)"

definition version_inodes :: "inode_smi_t \<Rightarrow> string \<Rightarrow> nat list option" where
  "version_inodes fs = map_of (snapshot_version_list fs)"

definition in_versions :: "inode_smi_t \<Rightarrow> nat \<Rightarrow> string set" where
  "in_versions fs k = {v. \<exists>ks. version_inodes fs v = Some ks \<and> k \<in> set ks}"

definition versions_ok :: "inode_smi_t \<Rightarrow> bool" where
  "versions_ok fs \<longleftrightarrow> map_ok (snapshot_version_list fs) \<and>
     version_inodes fs FILESYSTEM_CUR_MODIFIABLE_VER \<noteq> None \<and>
     (\<forall>v ks. version_inodes fs v = Some ks \<longrightarrow> distinct ks \<and> (\<forall>k\<in>set ks. inode_of fs k \<noteq> None)) \<and>
     (\<forall>k n. links fs k = Some n \<longrightarrow> n = card (in_versions fs k) \<and> 0 < n) \<and>
     (\<forall>k v. inode_of fs k \<noteq> None \<and> v \<noteq> FILESYSTEM_CUR_MODIFIABLE_VER \<longrightarrow>
        (fs_data fs k v \<noteq> None \<longleftrightarrow> v \<in> in_versions fs k))"

lemma links_inode_of: "links fs k = None \<longleftrightarrow> inode_of fs k = None"
  by (simp add: links_def inode_of_def)

lemma finite_in_versions: "finite (in_versions fs k)"
proof (rule finite_subset)
  show "in_versions fs k \<subseteq> dom (map_of (snapshot_version_list fs))"
    by (auto simp: in_versions_def version_inodes_def)
qed (rule finite_dom_map_of)

lemma card_in_versions_le: "versions_ok fs \<Longrightarrow> card (in_versions fs k) \<le> length (snapshot_version_list fs)"
proof -
  assume "versions_ok fs"
  have "in_versions fs k \<subseteq> set (map fst (snapshot_version_list fs))"
    by (auto simp: in_versions_def version_inodes_def dest: map_of_SomeD intro: rev_image_eqI)
  then have "card (in_versions fs k) \<le> card (set (map fst (snapshot_version_list fs)))"
    by (intro card_mono) simp_all
  also have "\<dots> \<le> length (map fst (snapshot_version_list fs))" by (rule card_length)
  finally show ?thesis by simp
qed

section \<open>Link counts\<close>

definition with_links :: "nat \<Rightarrow> nat \<Rightarrow> inode_smi_t \<Rightarrow> inode_smi_t" where
  "with_links k n fs = fs\<lparr>inode_pool := (case map_of (inode_pool fs) k of None \<Rightarrow> inode_pool fs
     | Some pk \<Rightarrow> map_assign k (pk\<lparr>link_count := n\<rparr>) (inode_pool fs))\<rparr>"

lemma with_links_fields [simp]:
  "smi_block_size (with_links k n fs) = smi_block_size fs"
  "snapshot_version_list (with_links k n fs) = snapshot_version_list fs"
  "buffer_pool (with_links k n fs) = buffer_pool fs"
  "inode_of (with_links k n fs) = inode_of fs"
  "map_ok (inode_pool (with_links k n fs)) = map_ok (inode_pool fs)"
  by (auto simp: with_links_def inode_of_def fun_eq_iff split: option.splits)

lemma links_with_links: "links fs k = Some m \<Longrightarrow> links (with_links k n fs) = (links fs)(k \<mapsto> n)"
  by (auto simp: links_def with_links_def fun_eq_iff split: option.splits)

lemma with_links_storage:
  assumes "storage_ok fs"
  shows "storage_ok (with_links k n fs)" and "fs_data (with_links k n fs) = fs_data fs"
  using storage_ok_cong [of fs "with_links k n fs"] assms by (simp_all add: storage_ok_def)

lemma count_link_eq: "links fs k = Some n \<Longrightarrow> count_link_for_inode k fs = (Inr n, fs)"
  by (auto simp: count_link_for_inode_def links_def exec_simps)

lemma set_link_count_eq [simp]: "set_link_count k m fs = (Inr (), with_links k m fs)"
  by (simp add: set_link_count_def modifyx_app with_links_def)

lemma link_inode_eq:
  assumes "links fs k = Some n" and "n + 1 < 2 ^ 64"
  shows "link_inode k fs = (Inr (), with_links k (n + 1) fs)"
proof -
  have "add64 n 1 = n + 1" using assms(2) by (rule add64_small)
  then show ?thesis
    by (simp add: link_inode_def bindx_app count_link_eq [OF assms(1)] del: One_nat_def)
qed

lemma link_inode_missing: "links fs k = None \<Longrightarrow> link_inode k fs = (Inl (HTMPFS_error_t HTMPFS_REQUESTED_INODE_NOT_FOUND), fs)"
  by (simp add: link_inode_def count_link_for_inode_def links_def exec_simps)

lemma unlink_inode_eq:
  assumes "links fs k = Some n" and "0 < n" and "n < 2 ^ 64"
  shows "unlink_inode k fs = (Inr (), if n = 1 then drop_inode k (with_links k 0 fs) else with_links k (n - 1) fs)"
proof -
  have "sub64 n 1 = n - 1" using assms(2,3) by (intro sub64_small) simp_all
  moreover have "n - 1 = 0 \<longleftrightarrow> n = 1" using assms(2) by linarith
  ultimately show ?thesis
    by (simp add: unlink_inode_def bindx_app count_link_eq [OF assms(1)] erase_inode_def modifyx_app ret_app drop_inode_def
        del: One_nat_def)
qed

lemma links_drop: "links (drop_inode k fs) = (links fs)(k := None)"
  by (auto simp: links_def drop_inode_def fun_eq_iff)

lemma kind_drop: "kind (drop_inode k fs) = (kind fs)(k := None)"
  by (auto simp: kind_def inode_of_drop fun_eq_iff)

lemma kind_with_links [simp]: "kind (with_links k n fs) = kind fs"
  by (simp add: kind_def fun_eq_iff)

section \<open>Steps on one inode, in terms of the views\<close>

lemma on_inode_step:
  assumes ok: "storage_ok fs" and k: "inode_of fs k = Some i" and run: "m (i, buffer_pool fs) = (r, (i', bp'))"
    and st: "inode_step i (buffer_pool fs) n i' bp'"
  obtains fs' where "on_inode k m fs = (r, fs')" and "storage_ok fs'" and "buffer_pool fs' = bp'"
    and "fs_data fs' = (fs_data fs)(k := version_data i' bp')" and "links fs' = links fs" and "kind fs' = kind fs"
    and "snapshot_version_list fs' = snapshot_version_list fs" and "smi_block_size fs' = smi_block_size fs"
    and "inode_of fs' = (inode_of fs)(k \<mapsto> i')"
    and "\<And>m im j. inode_of fs m = Some im \<Longrightarrow> m \<noteq> k \<Longrightarrow> j \<in> blocks_of im \<Longrightarrow>
           map_of (buffer_pool fs') j = map_of (buffer_pool fs) j"
    and "stat_of fs' = stat_of fs"
proof (rule that [of "put_inode k i' bp' fs"])
  show "on_inode k m fs = (r, put_inode k i' bp' fs)" using k run by (rule on_inode_eq)
  show "links (put_inode k i' bp' fs) = links fs" by (simp add: links_def link_count_put fun_eq_iff)
  show "kind (put_inode k i' bp' fs) = kind fs"
    using st k by (auto simp: kind_def inode_of_put [OF k] inode_step_def fun_eq_iff)
  show "stat_of (put_inode k i' bp' fs) = stat_of fs"
    using st k by (auto simp: stat_of_def inode_of_put [OF k] inode_step_def fun_eq_iff)
  show "map_of (buffer_pool (put_inode k i' bp' fs)) j = map_of (buffer_pool fs) j"
    if m: "inode_of fs m = Some im" "m \<noteq> k" "j \<in> blocks_of im" for m im j
  proof -
    have "live (buffer_pool fs) j" using storage_okD(1) [OF ok m(1)] m(3) by (rule inode_ok_live)
    moreover have "j \<notin> blocks_of i" using storage_ok_disjoint [OF ok k m(1)] m(2,3) by blast
    ultimately show ?thesis using st k by (simp add: inode_step_def)
  qed
qed (use put_inode_step [OF ok k st] k in \<open>simp_all add: inode_of_put\<close>)

section \<open>Creating a snapshot volume\<close>

text \<open>No link count of a block is about to overflow.\<close>

definition counters_ok :: "inode_smi_t \<Rightarrow> bool" where
  "counters_ok fs \<longleftrightarrow> (\<forall>j p. map_of (buffer_pool fs) j = Some p \<longrightarrow> buf_link_count p + 1 < 2 ^ 64)"

lemma snapshot_inodes_ok:
  assumes "storage_ok fs" and "distinct ks" and "v \<noteq> FILESYSTEM_CUR_MODIFIABLE_VER"
    and "\<And>k. k \<in> set ks \<Longrightarrow> \<exists>n. links fs k = Some n \<and> n + 1 < 2 ^ 64"
    and "\<And>k. k \<in> set ks \<Longrightarrow> fs_data fs k v = None"
    and "\<And>k i j p. k \<in> set ks \<Longrightarrow> inode_of fs k = Some i \<Longrightarrow> j \<in> blocks_of i \<Longrightarrow>
           map_of (buffer_pool fs) j = Some p \<Longrightarrow> buf_link_count p + 1 < 2 ^ 64"
  shows "\<exists>fs'. snapshot_inodes v ks fs = (Inr (), fs') \<and> storage_ok fs'
     \<and> fs_data fs' = (\<lambda>k. if k \<in> set ks then (fs_data fs k)(v := fs_data fs k FILESYSTEM_CUR_MODIFIABLE_VER) else fs_data fs k)
     \<and> links fs' = (\<lambda>k. if k \<in> set ks then map_option Suc (links fs k) else links fs k)
     \<and> kind fs' = kind fs \<and> snapshot_version_list fs' = snapshot_version_list fs
     \<and> smi_block_size fs' = smi_block_size fs"
  using assms
proof (induction ks arbitrary: fs)
  case Nil
  then show ?case by (simp add: exec_simps)
next
  case (Cons k ks)
  let ?fs1 = "with_links k (the (links fs k) + 1) fs"
  obtain n where n: "links fs k = Some n" "n + 1 < 2 ^ 64" using Cons.prems(4) [of k] by auto
  obtain i where i: "inode_of fs k = Some i" using n links_inode_of [of fs k] by auto
  have run1: "link_inode k fs = (Inr (), ?fs1)" using link_inode_eq [OF n] n by simp
  note st1 = with_links_storage [OF Cons.prems(1)]
  have ok: "inode_ok i (buffer_pool ?fs1)" using storage_okD(1) [OF Cons.prems(1) i] by simp
  have "fs_data fs k v = None" using Cons.prems(5) by simp
  then have "map_of (buffer_map i) v = None" using fs_data_eq [OF i] by (simp add: version_data_def)
  from create_new_volume_step [OF ok this] Cons.prems(6) [of k i] i obtain i' bp' where
    run2: "create_new_volume v (i, buffer_pool ?fs1) = (Inr (), (i', bp'))"
    and st2: "inode_step i (buffer_pool ?fs1) 0 i' bp'"
    and vd: "version_data i' bp' = (version_data i (buffer_pool ?fs1))(v := version_data i (buffer_pool ?fs1) FILESYSTEM_CUR_MODIFIABLE_VER)"
    by auto
  have i1: "inode_of ?fs1 k = Some i" using i by simp
  obtain fs2 where on: "on_inode k (create_new_volume v) ?fs1 = (Inr (), fs2)" and ok2: "storage_ok fs2"
    and d2: "fs_data fs2 = (fs_data ?fs1)(k := version_data i' bp')" and l2: "links fs2 = links ?fs1"
    and k2: "kind fs2 = kind ?fs1" and s2: "snapshot_version_list fs2 = snapshot_version_list ?fs1"
    and b2: "smi_block_size fs2 = smi_block_size ?fs1" and io2: "inode_of fs2 = (inode_of ?fs1)(k \<mapsto> i')"
    and fr2: "\<And>m im j. inode_of ?fs1 m = Some im \<Longrightarrow> m \<noteq> k \<Longrightarrow> j \<in> blocks_of im \<Longrightarrow>
           map_of (buffer_pool fs2) j = map_of (buffer_pool ?fs1) j"
    using on_inode_step [where m = "create_new_volume v", OF st1(1) i1 run2 st2] by metis
  have d2': "fs_data fs2 = (fs_data fs)(k := (fs_data fs k)(v := fs_data fs k FILESYSTEM_CUR_MODIFIABLE_VER))"
    unfolding d2 vd using fs_data_eq [OF i] st1(2) by simp
  have l2': "links fs2 = (links fs)(k := map_option Suc (links fs k))"
    unfolding l2 using links_with_links [OF n(1)] n(1) by simp
  have kn: "k \<notin> set ks" using Cons.prems(2) by simp
  have "\<exists>fs'. snapshot_inodes v ks fs2 = (Inr (), fs') \<and> storage_ok fs'
     \<and> fs_data fs' = (\<lambda>k. if k \<in> set ks then (fs_data fs2 k)(v := fs_data fs2 k FILESYSTEM_CUR_MODIFIABLE_VER) else fs_data fs2 k)
     \<and> links fs' = (\<lambda>k. if k \<in> set ks then map_option Suc (links fs2 k) else links fs2 k)
     \<and> kind fs' = kind fs2 \<and> snapshot_version_list fs' = snapshot_version_list fs2
     \<and> smi_block_size fs' = smi_block_size fs2"
  proof (rule Cons.IH [OF ok2 _ Cons.prems(3)])
    show "\<exists>n. links fs2 m = Some n \<and> n + 1 < 2 ^ 64" if "m \<in> set ks" for m
      using Cons.prems(4) [of m] that kn by (auto simp: l2')
    show "fs_data fs2 m v = None" if "m \<in> set ks" for m
      using Cons.prems(5) [of m] that kn by (auto simp: d2')
    show "buf_link_count p + 1 < 2 ^ 64"
      if m: "m \<in> set ks" "inode_of fs2 m = Some im" "j \<in> blocks_of im" "map_of (buffer_pool fs2) j = Some p" for m im j p
    proof -
      have mk: "m \<noteq> k" and im: "inode_of fs m = Some im" using m(1,2) kn by (auto simp: io2 split: if_splits)
      then have "map_of (buffer_pool fs) j = Some p" using fr2 [of m im j] m by simp
      then show ?thesis using Cons.prems(6) [of m im j p] m im by simp
    qed
  qed (use Cons.prems(2) in simp)
  then obtain fs' where rest: "snapshot_inodes v ks fs2 = (Inr (), fs')" "storage_ok fs'"
    and d: "fs_data fs' = (\<lambda>k. if k \<in> set ks then (fs_data fs2 k)(v := fs_data fs2 k FILESYSTEM_CUR_MODIFIABLE_VER) else fs_data fs2 k)"
    and l: "links fs' = (\<lambda>k. if k \<in> set ks then map_option Suc (links fs2 k) else links fs2 k)"
    and r: "kind fs' = kind fs2" "snapshot_version_list fs' = snapshot_version_list fs2" "smi_block_size fs' = smi_block_size fs2"
    by blast
  have "snapshot_inodes v (k # ks) fs = (Inr (), fs')" using run1 on rest(1) by (simp add: exec_simps)
  moreover have "fs_data fs' = (\<lambda>m. if m \<in> set (k # ks) then (fs_data fs m)(v := fs_data fs m FILESYSTEM_CUR_MODIFIABLE_VER) else fs_data fs m)"
    unfolding d d2' using kn by (auto simp: fun_eq_iff)
  moreover have "links fs' = (\<lambda>m. if m \<in> set (k # ks) then map_option Suc (links fs m) else links fs m)"
    unfolding l l2' using kn by (auto simp: fun_eq_iff)
  ultimately show ?case using rest(2) r k2 s2 b2 by simp
qed

lemma version_inodes_emplace:
  "version_inodes fs v = None \<Longrightarrow>
   version_inodes (fs\<lparr>snapshot_version_list := map_emplace v ks (snapshot_version_list fs)\<rparr>)
     = (version_inodes fs)(v \<mapsto> ks)"
  by (simp add: version_inodes_def)

lemma update_list_views [simp]:
  "inode_of (fs\<lparr>snapshot_version_list := l\<rparr>) = inode_of fs"
  "links (fs\<lparr>snapshot_version_list := l\<rparr>) = links fs"
  "kind (fs\<lparr>snapshot_version_list := l\<rparr>) = kind fs"
  by (simp_all add: inode_of_def links_def kind_def fun_eq_iff)

lemma update_list_storage:
  assumes "storage_ok fs"
  shows "storage_ok (fs\<lparr>snapshot_version_list := l\<rparr>)" and "fs_data (fs\<lparr>snapshot_version_list := l\<rparr>) = fs_data fs"
  using storage_ok_cong [of fs "fs\<lparr>snapshot_version_list := l\<rparr>"] assms by (simp_all add: storage_ok_def)

lemma versions_okI:
  assumes "map_ok (snapshot_version_list fs)" and "version_inodes fs FILESYSTEM_CUR_MODIFIABLE_VER \<noteq> None"
    and "\<And>v ks. version_inodes fs v = Some ks \<Longrightarrow> distinct ks"
    and "\<And>v ks k. version_inodes fs v = Some ks \<Longrightarrow> k \<in> set ks \<Longrightarrow> inode_of fs k \<noteq> None"
    and "\<And>k n. links fs k = Some n \<Longrightarrow> n = card (in_versions fs k)"
    and "\<And>k n. links fs k = Some n \<Longrightarrow> 0 < n"
    and "\<And>k v. inode_of fs k \<noteq> None \<Longrightarrow> v \<noteq> FILESYSTEM_CUR_MODIFIABLE_VER \<Longrightarrow>
      fs_data fs k v \<noteq> None \<longleftrightarrow> v \<in> in_versions fs k"
  shows "versions_ok fs"
  using assms unfolding versions_ok_def by auto

lemma versions_okD:
  assumes "versions_ok fs"
  shows "version_inodes fs v = Some ks \<Longrightarrow> distinct ks"
    and "version_inodes fs v = Some ks \<Longrightarrow> k \<in> set ks \<Longrightarrow> inode_of fs k \<noteq> None"
    and "links fs k = Some n \<Longrightarrow> n = card (in_versions fs k)"
    and "links fs k = Some n \<Longrightarrow> 0 < n"
    and "inode_of fs k \<noteq> None \<Longrightarrow> v \<noteq> FILESYSTEM_CUR_MODIFIABLE_VER \<Longrightarrow>
      fs_data fs k v \<noteq> None \<longleftrightarrow> v \<in> in_versions fs k"
    and "map_ok (snapshot_version_list fs)"
  using assms by (auto simp: versions_ok_def)

lemma kind_inode_of: "kind fs k = None \<longleftrightarrow> inode_of fs k = None"
  by (simp add: kind_def)

lemma in_versions_cong: "version_inodes fs' = version_inodes fs \<Longrightarrow> in_versions fs' = in_versions fs"
  by (simp add: in_versions_def fun_eq_iff)

text \<open>
  The new version has the current bytes of every inode of the current version; all other
  bytes stay.
\<close>

lemma create_snapshot_volume_ok:
  assumes ok: "storage_ok fs" and vok: "versions_ok fs" and cur: "version_inodes fs FILESYSTEM_CUR_MODIFIABLE_VER = Some ks"
    and new: "version_inodes fs v = None" and cnt: "counters_ok fs" and room: "length (snapshot_version_list fs) + 1 < 2 ^ 64"
  shows "\<exists>fs'. create_snapshot_volume v fs = (Inr (), fs') \<and> storage_ok fs' \<and> versions_ok fs'
     \<and> fs_data fs' = (\<lambda>k. if k \<in> set ks then (fs_data fs k)(v := fs_data fs k FILESYSTEM_CUR_MODIFIABLE_VER) else fs_data fs k)
     \<and> version_inodes fs' = (version_inodes fs)(v \<mapsto> ks) \<and> kind fs' = kind fs \<and> smi_block_size fs' = smi_block_size fs"
proof -
  have vc: "v \<noteq> FILESYSTEM_CUR_MODIFIABLE_VER" using new cur by auto
  have dist: "distinct ks" using versions_okD(1) [OF vok cur] .
  have none: "fs_data fs k v = None" for k
  proof (cases "inode_of fs k")
    case (Some i)
    have "v \<notin> in_versions fs k" using new by (simp add: in_versions_def)
    then show ?thesis using versions_okD(5) [OF vok, of k v] Some vc by simp
  qed (simp add: fs_data_none)
  have lk: "\<exists>n. links fs k = Some n \<and> n + 1 < 2 ^ 64" if kin: "k \<in> set ks" for k
  proof -
    obtain n where n: "links fs k = Some n"
      using versions_okD(2) [OF vok cur kin] links_inode_of [of fs k] by auto
    then have "n \<le> length (snapshot_version_list fs)"
      using versions_okD(3) [OF vok n] card_in_versions_le [OF vok, of k] by simp
    then show ?thesis using n room by auto
  qed
  have "\<exists>fs'. snapshot_inodes v ks fs = (Inr (), fs') \<and> storage_ok fs'
     \<and> fs_data fs' = (\<lambda>k. if k \<in> set ks then (fs_data fs k)(v := fs_data fs k FILESYSTEM_CUR_MODIFIABLE_VER) else fs_data fs k)
     \<and> links fs' = (\<lambda>k. if k \<in> set ks then map_option Suc (links fs k) else links fs k)
     \<and> kind fs' = kind fs \<and> snapshot_version_list fs' = snapshot_version_list fs
     \<and> smi_block_size fs' = smi_block_size fs"
    using cnt unfolding counters_ok_def by (intro snapshot_inodes_ok [OF ok dist vc lk none]) blast+
  then obtain fs1 where run: "snapshot_inodes v ks fs = (Inr (), fs1)" and ok1: "storage_ok fs1"
    and d1: "fs_data fs1 = (\<lambda>k. if k \<in> set ks then (fs_data fs k)(v := fs_data fs k FILESYSTEM_CUR_MODIFIABLE_VER) else fs_data fs k)"
    and l1: "links fs1 = (\<lambda>k. if k \<in> set ks then map_option Suc (links fs k) else links fs k)"
    and k1: "kind fs1 = kind fs" and s1: "snapshot_version_list fs1 = snapshot_version_list fs"
    and b1: "smi_block_size fs1 = smi_block_size fs" by blast
  let ?fs = "fs1\<lparr>snapshot_version_list := map_emplace v ks (snapshot_version_list fs1)\<rparr>"
  have v1: "version_inodes fs1 = version_inodes fs" by (simp add: version_inodes_def s1)
  then have vi: "version_inodes ?fs = (version_inodes fs)(v \<mapsto> ks)"
    using new by (simp add: version_inodes_emplace)
  have iv: "in_versions ?fs k = (if k \<in> set ks then insert v (in_versions fs k) else in_versions fs k)" for k
    using new unfolding in_versions_def vi by auto
  have vn: "v \<notin> in_versions fs k" for k using new by (simp add: in_versions_def)
  have ino: "inode_of ?fs k = None \<longleftrightarrow> inode_of fs k = None" for k
    using k1 kind_inode_of [of fs1 k] kind_inode_of [of fs k] by simp
  have curd: "k \<in> set ks \<Longrightarrow> fs_data fs k FILESYSTEM_CUR_MODIFIABLE_VER \<noteq> None" for k
  proof -
    assume "k \<in> set ks"
    then obtain i where "inode_of fs k = Some i" using versions_okD(2) [OF vok cur] by auto
    then show ?thesis using storage_okD(1) [OF ok] inode_ok_has_current fs_data_eq by fastforce
  qed
  note st = update_list_storage [OF ok1, of "map_emplace v ks (snapshot_version_list fs1)"]
  have "versions_ok ?fs"
  proof (rule versions_okI)
    show "distinct ks'" if "version_inodes ?fs w = Some ks'" for w ks'
      using that versions_okD(1) [OF vok, of w ks'] dist unfolding vi by (auto split: if_splits)
    show "inode_of ?fs k \<noteq> None" if "version_inodes ?fs w = Some ks'" "k \<in> set ks'" for w ks' k
      using that versions_okD(2) [OF vok, of w ks' k] versions_okD(2) [OF vok cur] unfolding vi ino by (auto split: if_splits)
    show "n = card (in_versions ?fs k)" if "links ?fs k = Some n" for k n
    proof -
      have "links fs1 k = Some n" using that by simp
      then show ?thesis using versions_okD(3) [OF vok, of k] finite_in_versions [of fs k] vn [of k]
        unfolding l1 iv by (auto split: if_splits)
    qed
    show "0 < n" if "links ?fs k = Some n" for k n
    proof -
      have "links fs1 k = Some n" using that by simp
      then show ?thesis using versions_okD(4) [OF vok, of k] unfolding l1 by (auto split: if_splits)
    qed
    show "fs_data ?fs k w \<noteq> None \<longleftrightarrow> w \<in> in_versions ?fs k"
      if "inode_of ?fs k \<noteq> None" "w \<noteq> FILESYSTEM_CUR_MODIFIABLE_VER" for k w
      using that versions_okD(5) [OF vok, of k w] curd [of k] vn [of k] none [of k] unfolding st(2) d1 iv ino by auto
    show "map_ok (snapshot_version_list ?fs)" using versions_okD(6) [OF vok] by (simp add: s1)
  qed (use cur vc in \<open>simp add: vi\<close>)
  moreover have "create_snapshot_volume v fs = (Inr (), ?fs)"
    using new cur run by (simp add: create_snapshot_volume_def exec_simps version_inodes_def)
  ultimately show ?thesis using st d1 k1 b1 vi by (intro exI [of _ ?fs]) simp
qed

lemma create_snapshot_volume_double:
  "version_inodes fs v = Some ks \<Longrightarrow> create_snapshot_volume v fs = (Inl (HTMPFS_error_t HTMPFS_DOUBLE_SNAPSHOT), fs)"
  by (simp add: create_snapshot_volume_def exec_simps version_inodes_def)

section \<open>Deleting a snapshot volume\<close>

text \<open>An inode whose last version goes is erased, the others lose the volume.\<close>

definition last_version :: "inode_smi_t \<Rightarrow> nat \<Rightarrow> bool" where
  "last_version fs k \<longleftrightarrow> links fs k = Some 1"

lemma unsnapshot_inodes_ok:
  assumes "storage_ok fs" and "distinct ks" and "v \<noteq> FILESYSTEM_CUR_MODIFIABLE_VER"
    and "\<And>k. k \<in> set ks \<Longrightarrow> \<exists>n. links fs k = Some n \<and> 0 < n \<and> n < 2 ^ 64"
    and "\<And>k. k \<in> set ks \<Longrightarrow> fs_data fs k v \<noteq> None"
  shows "\<exists>fs'. unsnapshot_inodes v ks fs = (Inr (), fs') \<and> storage_ok fs'
     \<and> fs_data fs' = (\<lambda>k. if k \<in> set ks then if last_version fs k then (\<lambda>w. None) else (fs_data fs k)(v := None) else fs_data fs k)
     \<and> links fs' = (\<lambda>k. if k \<in> set ks then if last_version fs k then None else map_option (\<lambda>n. n - 1) (links fs k) else links fs k)
     \<and> kind fs' = (\<lambda>k. if k \<in> set ks \<and> last_version fs k then None else kind fs k)
     \<and> snapshot_version_list fs' = snapshot_version_list fs \<and> smi_block_size fs' = smi_block_size fs"
  using assms
proof (induction ks arbitrary: fs)
  case Nil
  then show ?case by (simp add: exec_simps)
next
  case (Cons k ks)
  obtain n where n: "links fs k = Some n" "0 < n" "n < 2 ^ 64" using Cons.prems(4) [of k] by auto
  obtain i where i: "inode_of fs k = Some i" using n links_inode_of [of fs k] by auto
  have ok: "inode_ok i (buffer_pool fs)" using storage_okD(1) [OF Cons.prems(1) i] .
  have "fs_data fs k v \<noteq> None" using Cons.prems(5) by simp
  then obtain old where old: "map_of (buffer_map i) v = Some old" using fs_data_eq [OF i] by (auto simp: version_data_def)
  from delete_volume_step [OF ok old Cons.prems(3)] obtain i' bp' where
    run1: "delete_volume v (i, buffer_pool fs) = (Inr (), (i', bp'))" and st: "inode_step i (buffer_pool fs) 0 i' bp'"
    and vd: "version_data i' bp' = (version_data i (buffer_pool fs))(v := None)" by blast
  obtain fs1 where on: "on_inode k (delete_volume v) fs = (Inr (), fs1)" and ok1: "storage_ok fs1"
    and d1: "fs_data fs1 = (fs_data fs)(k := version_data i' bp')" and l1: "links fs1 = links fs"
    and k1: "kind fs1 = kind fs" and s1: "snapshot_version_list fs1 = snapshot_version_list fs"
    and b1: "smi_block_size fs1 = smi_block_size fs"
    using on_inode_step [where m = "delete_volume v", OF Cons.prems(1) i run1 st] by metis
  have d1': "fs_data fs1 = (fs_data fs)(k := (fs_data fs k)(v := None))"
    unfolding d1 vd using fs_data_eq [OF i] by simp
  let ?fs2 = "if n = 1 then drop_inode k (with_links k 0 fs1) else with_links k (n - 1) fs1"
  have n1: "links fs1 k = Some n" using n l1 by simp
  have run2: "unlink_inode k fs1 = (Inr (), ?fs2)" using unlink_inode_eq [OF n1 n(2,3)] .
  have lv: "last_version fs k \<longleftrightarrow> n = 1" using n by (simp add: last_version_def)
  have ok2: "storage_ok ?fs2" using with_links_storage [OF ok1] drop_inode_step [of "with_links k 0 fs1" k] by simp
  have d2: "fs_data ?fs2 = (fs_data fs)(k := if last_version fs k then (\<lambda>w. None) else (fs_data fs k)(v := None))"
    using with_links_storage [OF ok1] drop_inode_step(2) [of "with_links k 0 fs1" k] by (simp add: lv d1')
  have l2: "links ?fs2 = (links fs)(k := if last_version fs k then None else map_option (\<lambda>n. n - 1) (links fs k))"
    using links_with_links [OF n1] n l1 by (simp add: lv links_drop)
  have k2: "kind ?fs2 = (kind fs)(k := if last_version fs k then None else kind fs k)"
    using k1 by (simp add: lv kind_drop)
  have s2: "snapshot_version_list ?fs2 = snapshot_version_list fs" "smi_block_size ?fs2 = smi_block_size fs"
    using s1 b1 by simp_all
  have kn: "k \<notin> set ks" using Cons.prems(2) by simp
  have lvo: "last_version ?fs2 m = last_version fs m" if "m \<in> set ks" for m
    using that kn by (simp only: last_version_def l2) auto
  have "\<exists>fs'. unsnapshot_inodes v ks ?fs2 = (Inr (), fs') \<and> storage_ok fs'
     \<and> fs_data fs' = (\<lambda>k. if k \<in> set ks then if last_version ?fs2 k then (\<lambda>w. None) else (fs_data ?fs2 k)(v := None) else fs_data ?fs2 k)
     \<and> links fs' = (\<lambda>k. if k \<in> set ks then if last_version ?fs2 k then None else map_option (\<lambda>n. n - 1) (links ?fs2 k) else links ?fs2 k)
     \<and> kind fs' = (\<lambda>k. if k \<in> set ks \<and> last_version ?fs2 k then None else kind ?fs2 k)
     \<and> snapshot_version_list fs' = snapshot_version_list ?fs2 \<and> smi_block_size fs' = smi_block_size ?fs2"
  proof (rule Cons.IH [OF ok2 _ Cons.prems(3)])
    show "\<exists>n. links ?fs2 m = Some n \<and> 0 < n \<and> n < 2 ^ 64" if "m \<in> set ks" for m
      using Cons.prems(4) [of m] that kn unfolding l2 by auto
    show "fs_data ?fs2 m v \<noteq> None" if "m \<in> set ks" for m
      using Cons.prems(5) [of m] that kn unfolding d2 by auto
  qed (use Cons.prems(2) in simp)
  then obtain fs' where rest: "unsnapshot_inodes v ks ?fs2 = (Inr (), fs')" "storage_ok fs'"
    and d: "fs_data fs' = (\<lambda>k. if k \<in> set ks then if last_version ?fs2 k then (\<lambda>w. None) else (fs_data ?fs2 k)(v := None) else fs_data ?fs2 k)"
    and l: "links fs' = (\<lambda>k. if k \<in> set ks then if last_version ?fs2 k then None else map_option (\<lambda>n. n - 1) (links ?fs2 k) else links ?fs2 k)"
    and kd: "kind fs' = (\<lambda>k. if k \<in> set ks \<and> last_version ?fs2 k then None else kind ?fs2 k)"
    and r: "snapshot_version_list fs' = snapshot_version_list ?fs2" "smi_block_size fs' = smi_block_size ?fs2"
    by blast
  have "unsnapshot_inodes v (k # ks) fs = (Inr (), fs')"
    using rest(1) by (simp add: bindx_app on run2 del: One_nat_def)
  moreover have "fs_data fs' = (\<lambda>m. if m \<in> set (k # ks) then if last_version fs m then (\<lambda>w. None) else (fs_data fs m)(v := None) else fs_data fs m)"
    unfolding d d2 using kn lvo by (auto simp: fun_eq_iff)
  moreover have "links fs' = (\<lambda>m. if m \<in> set (k # ks) then if last_version fs m then None else map_option (\<lambda>n. n - 1) (links fs m) else links fs m)"
    unfolding l l2 using kn lvo by (auto simp: fun_eq_iff)
  moreover have "kind fs' = (\<lambda>m. if m \<in> set (k # ks) \<and> last_version fs m then None else kind fs m)"
    unfolding kd k2
  proof
    show "(if m \<in> set ks \<and> last_version ?fs2 m then None else ((kind fs)(k := if last_version fs k then None else kind fs k)) m)
        = (if m \<in> set (k # ks) \<and> last_version fs m then None else kind fs m)" for m
      using kn lvo [of m] by (cases "m = k"; cases "m \<in> set ks") (simp_all del: One_nat_def)
  qed
  ultimately show ?case using rest(2)
    by (intro exI [of _ fs'] conjI) (assumption | simp only: r s2)+
qed

lemma delete_snapshot_volume_ok:
  assumes ok: "storage_ok fs" and vok: "versions_ok fs" and v: "version_inodes fs v = Some ks"
    and vc: "v \<noteq> FILESYSTEM_CUR_MODIFIABLE_VER" and room: "length (snapshot_version_list fs) < 2 ^ 64"
  shows "\<exists>fs'. delete_snapshot_volume v fs = (Inr (), fs') \<and> storage_ok fs' \<and> versions_ok fs'
     \<and> (\<forall>k w. w \<noteq> v \<longrightarrow> (\<exists>u. u \<noteq> v \<and> u \<in> in_versions fs k) \<longrightarrow> fs_data fs' k w = fs_data fs k w)
     \<and> (\<forall>k. fs_data fs' k v = None) \<and> version_inodes fs' = (version_inodes fs)(v := None)
     \<and> (\<forall>k. kind fs' k = (if in_versions fs k = {v} then None else kind fs k))
     \<and> smi_block_size fs' = smi_block_size fs"
proof -
  have dist: "distinct ks" using versions_okD(1) [OF vok v] .
  have inv: "v \<in> in_versions fs k \<longleftrightarrow> k \<in> set ks" for k using v by (simp add: in_versions_def)
  have lk: "\<exists>n. links fs k = Some n \<and> 0 < n \<and> n < 2 ^ 64" if kin: "k \<in> set ks" for k
  proof -
    obtain n where n: "links fs k = Some n"
      using versions_okD(2) [OF vok v kin] links_inode_of [of fs k] by auto
    then have "n \<le> length (snapshot_version_list fs)"
      using versions_okD(3) [OF vok n] card_in_versions_le [OF vok, of k] by simp
    then show ?thesis using n room versions_okD(4) [OF vok n] by auto
  qed
  have dk: "fs_data fs k v \<noteq> None" if kin: "k \<in> set ks" for k
    using versions_okD(5) [OF vok versions_okD(2) [OF vok v kin] vc] inv [of k] kin by simp
  have lvk: "last_version fs k \<longleftrightarrow> in_versions fs k = {v}" if kin: "k \<in> set ks" for k
  proof -
    obtain n where n: "links fs k = Some n" using lk [OF kin] by blast
    have "last_version fs k \<longleftrightarrow> card (in_versions fs k) = 1"
      using n versions_okD(3) [OF vok n] by (simp add: last_version_def)
    moreover have "card (in_versions fs k) = 1 \<longleftrightarrow> in_versions fs k = {v}"
      using kin inv [of k] by (metis card_1_singletonE is_singleton_altdef is_singletonI singletonD)
    ultimately show ?thesis by simp
  qed
  obtain fs1 where run: "unsnapshot_inodes v ks fs = (Inr (), fs1)" and ok1: "storage_ok fs1"
    and d1: "fs_data fs1 = (\<lambda>k. if k \<in> set ks then if last_version fs k then (\<lambda>w. None) else (fs_data fs k)(v := None) else fs_data fs k)"
    and l1: "links fs1 = (\<lambda>k. if k \<in> set ks then if last_version fs k then None else map_option (\<lambda>n. n - 1) (links fs k) else links fs k)"
    and k1: "kind fs1 = (\<lambda>k. if k \<in> set ks \<and> last_version fs k then None else kind fs k)"
    and s1: "snapshot_version_list fs1 = snapshot_version_list fs" and b1: "smi_block_size fs1 = smi_block_size fs"
    using unsnapshot_inodes_ok [OF ok dist vc lk dk] by blast
  let ?fs = "fs1\<lparr>snapshot_version_list := map_erase v (snapshot_version_list fs1)\<rparr>"
  have vi: "version_inodes ?fs = (version_inodes fs)(v := None)" by (simp add: version_inodes_def s1)
  have iv: "in_versions ?fs k = in_versions fs k - {v}" for k unfolding in_versions_def vi by auto
  have ino: "inode_of ?fs k = None \<longleftrightarrow> inode_of fs k = None \<or> k \<in> set ks \<and> in_versions fs k = {v}" for k
  proof -
    have "inode_of ?fs k = None \<longleftrightarrow> kind fs1 k = None" using kind_inode_of [of fs1 k] by simp
    also have "\<dots> \<longleftrightarrow> kind fs k = None \<or> k \<in> set ks \<and> last_version fs k" unfolding k1 by auto
    finally show ?thesis using lvk [of k] by (simp only: kind_inode_of cong: conj_cong)
  qed
  have only: "k \<in> set ks" if "in_versions fs k = {v}" for k using inv [of k] that by simp
  have live1: "inode_of fs k \<noteq> None" if "inode_of ?fs k \<noteq> None" for k using that unfolding ino by simp
  have live2: "in_versions fs k \<noteq> {v}" if "inode_of ?fs k \<noteq> None" for k using that only [of k] unfolding ino by blast
  note st = update_list_storage [OF ok1, of "map_erase v (snapshot_version_list fs1)"]
  have novk: "fs_data fs k v = None" if "k \<notin> set ks" for k
  proof (cases "inode_of fs k")
    case (Some i)
    then show ?thesis using versions_okD(5) [OF vok, of k v] vc inv [of k] that by simp
  qed (simp add: fs_data_none)
  have "versions_ok ?fs"
  proof (rule versions_okI)
    show "distinct ks'" if "version_inodes ?fs w = Some ks'" for w ks'
      using that versions_okD(1) [OF vok, of w ks'] unfolding vi by (auto split: if_splits)
    show "inode_of ?fs k \<noteq> None" if w: "version_inodes ?fs w = Some ks'" "k \<in> set ks'" for w ks' k
    proof -
      have w': "w \<noteq> v" "version_inodes fs w = Some ks'" using w(1) unfolding vi by (auto split: if_splits)
      then have "w \<in> in_versions fs k" using w(2) by (simp add: in_versions_def)
      then show ?thesis using versions_okD(2) [OF vok w'(2) w(2)] w'(1) unfolding ino by auto
    qed
    fix k n
    assume n: "links ?fs k = Some n"
    have c: "links fs k = Some m \<Longrightarrow> m = card (in_versions fs k) \<and> 0 < m" for m
      using versions_okD(3,4) [OF vok, of k m] by simp
    have n1: "links fs1 k = Some n" using n by simp
    show "n = card (in_versions ?fs k)"
      using n1 c finite_in_versions [of fs k] inv [of k] unfolding l1 iv by (auto split: if_splits)
    show "0 < n"
      using n1 c lk [of k] unfolding l1 last_version_def by (auto split: if_splits)
  next
    show "fs_data ?fs k w \<noteq> None \<longleftrightarrow> w \<in> in_versions ?fs k"
      if k: "inode_of ?fs k \<noteq> None" "w \<noteq> FILESYSTEM_CUR_MODIFIABLE_VER" for k w
    proof (cases "w = v")
      case True
      have "fs_data fs1 k v = None" using novk [of k] unfolding d1 by simp
      then show ?thesis unfolding st(2) iv True by simp
    next
      case False
      have "fs_data fs1 k w = fs_data fs k w" using False lvk [of k] live2 [OF k(1)] unfolding d1 by simp
      then show ?thesis using versions_okD(5) [OF vok live1 [OF k(1)] k(2)] False unfolding st(2) iv by simp
    qed
    show "map_ok (snapshot_version_list ?fs)" using versions_okD(6) [OF vok] by (simp add: s1)
    show "version_inodes ?fs FILESYSTEM_CUR_MODIFIABLE_VER \<noteq> None"
      using vok vc unfolding vi by (simp add: versions_ok_def)
  qed
  moreover have "delete_snapshot_volume v fs = (Inr (), ?fs)"
    using v run by (simp add: delete_snapshot_volume_def exec_simps version_inodes_def)
  moreover have "fs_data ?fs k w = fs_data fs k w" if "w \<noteq> v" "u \<noteq> v" "u \<in> in_versions fs k" for k w u
    using that lvk [of k] unfolding st(2) d1 by auto
  moreover have "fs_data ?fs k v = None" for k using novk [of k] unfolding st(2) d1 by auto
  moreover have "kind ?fs k = (if in_versions fs k = {v} then None else kind fs k)" for k
    using lvk [of k] inv [of k] k1 by auto
  ultimately show ?thesis using st(1) b1 vi by (intro exI [of _ ?fs]) auto
qed

lemma delete_snapshot_volume_missing:
  "version_inodes fs v = None \<Longrightarrow> delete_snapshot_volume v fs = (Inl (HTMPFS_error_t HTMPFS_NO_SUCH_SNAPSHOT), fs)"
  by (simp add: delete_snapshot_volume_def exec_simps version_inodes_def)

end
