(* ===== verification/Smi_Tree.thy ===== *)
theory Smi_Tree
  imports Smi_Versions
begin

text \<open>
  The directory tree of every version: \<open>child\<close> is the lookup of one name, \<open>resolve\<close> that of
  a list of names, and path resolution in the code is shown to compute it.
  \<open>make_child_dentry_under_parent\<close> and \<open>remove_child_dentry_under_parent\<close> add and remove one
  edge of the current tree.
\<close>

section \<open>The tree\<close>

definition entries :: "inode_smi_t \<Rightarrow> string \<Rightarrow> nat \<Rightarrow> dentries option" where
  "entries fs v k = (if kind fs k = Some True then
     (case fs_data fs k v of None \<Rightarrow> None
      | Some c \<Rightarrow> (case decode_dentry c of Inl e \<Rightarrow> None | Inr path \<Rightarrow> Some path))
   else None)"

definition child :: "inode_smi_t \<Rightarrow> string \<Rightarrow> nat \<Rightarrow> string \<Rightarrow> nat option" where
  "child fs v k n = (case entries fs v k of None \<Rightarrow> None | Some path \<Rightarrow> dir_map path n)"

definition dirs_ok :: "inode_smi_t \<Rightarrow> bool" where
  "dirs_ok fs \<longleftrightarrow> (\<forall>k v c. kind fs k = Some True \<and> fs_data fs k v = Some c \<longrightarrow> (\<exists>path. dir_bytes path c))"

definition tree_ok :: "inode_smi_t \<Rightarrow> bool" where
  "tree_ok fs \<longleftrightarrow> dirs_ok fs \<and> kind fs FILESYSTEM_ROOT_INODE_NUMBER = Some True \<and>
     FILESYSTEM_CUR_MODIFIABLE_VER \<in> in_versions fs FILESYSTEM_ROOT_INODE_NUMBER \<and>
     (\<forall>v k n t. child fs v k n = Some t \<longrightarrow> v \<in> in_versions fs t \<and> t \<noteq> FILESYSTEM_ROOT_INODE_NUMBER) \<and>
     (\<forall>v k n k' n' t. child fs v k n = Some t \<and> child fs v k' n' = Some t \<longrightarrow> k = k' \<and> n = n')"

definition fs_ok :: "inode_smi_t \<Rightarrow> bool" where
  "fs_ok fs \<longleftrightarrow> storage_ok fs \<and> versions_ok fs \<and> tree_ok fs"

lemma dirs_okE:
  assumes "dirs_ok fs" and "kind fs k = Some True" and "fs_data fs k v = Some c"
  obtains path where "dir_bytes path c" and "entries fs v k = Some path" and "decode_dentry c = Inr path"
proof -
  obtain path where p: "dir_bytes path c" using assms unfolding dirs_ok_def by blast
  then show thesis using that [OF p] dir_bytes_decode [OF p] assms(2,3) by (simp add: entries_def)
qed

lemma entries_data:
  assumes "dirs_ok fs" and "entries fs v k = Some path"
  obtains c where "fs_data fs k v = Some c" and "dir_bytes path c" and "kind fs k = Some True"
proof -
  obtain c where c: "fs_data fs k v = Some c" "kind fs k = Some True"
    using assms(2) by (auto simp: entries_def split: if_splits option.splits)
  obtain path' where "dir_bytes path' c" "entries fs v k = Some path'" using assms(1) c(2,1) by (rule dirs_okE)
  then show thesis using that c assms(2) by simp
qed

lemma entries_cong: "kind fs' k = kind fs k \<Longrightarrow> fs_data fs' k v' = fs_data fs k v \<Longrightarrow> entries fs' v' k = entries fs v k"
  by (simp add: entries_def)

lemma child_cong: "kind fs' k = kind fs k \<Longrightarrow> fs_data fs' k v' = fs_data fs k v \<Longrightarrow> child fs' v' k = child fs v k"
  using entries_cong [of fs' k fs v' v] by (simp add: child_def fun_eq_iff)

section \<open>Opening a directory\<close>

lemma kind_Some: "kind fs k = Some d \<longleftrightarrow> (\<exists>i. inode_of fs k = Some i \<and> is_dentry i = d)"
  by (auto simp: kind_def)

lemma open_dir:
  assumes ok: "storage_ok fs" and dok: "dirs_ok fs" and d: "kind fs k = Some True" and c: "fs_data fs k v = Some c"
    and path: "dir_bytes path c"
  shows "on_inode k (new_directory_resolver_t v) fs = (Inr path, fs)"
proof -
  obtain i where i: "inode_of fs k = Some i" "is_dentry i" using d by (auto simp: kind_Some)
  have "version_data i (buffer_pool fs) v = Some c" using c fs_data_eq [OF i(1)] by simp
  then have "new_directory_resolver_t v (i, buffer_pool fs) = (Inr path, (i, buffer_pool fs))"
    using storage_okD [OF ok i(1)] ok path i(2) by (intro open_directory) (simp_all add: storage_ok_def)
  with i(1) show ?thesis by (rule on_inode_pure)
qed

lemma open_entries:
  assumes "storage_ok fs" and "dirs_ok fs" and "entries fs v k = Some path"
  shows "on_inode k (new_directory_resolver_t v) fs = (Inr path, fs)"
  using assms by (metis entries_data open_dir)

lemma open_file:
  assumes "kind fs k = Some False"
  shows "on_inode k (new_directory_resolver_t v) fs = (Inl (HTMPFS_error_t HTMPFS_NOT_A_DIRECTORY), fs)"
proof -
  obtain i where i: "inode_of fs k = Some i" "\<not> is_dentry i" using assms by (auto simp: kind_Some)
  from on_inode_pure [where m = "new_directory_resolver_t v", OF i(1) new_directory_resolver_file [OF i(2)]]
  show ?thesis .
qed

lemma open_no_version:
  assumes d: "kind fs k = Some True" and c: "fs_data fs k v = None"
  shows "on_inode k (new_directory_resolver_t v) fs = (Inl (HTMPFS_error_t HTMPFS_NO_SUCH_SNAPSHOT), fs)"
proof -
  obtain i where i: "inode_of fs k = Some i" "is_dentry i" using d by (auto simp: kind_Some)
  have "map_of (buffer_map i) v = None" using c fs_data_eq [OF i(1)] by (simp add: version_data_def)
  then have "new_directory_resolver_t v (i, buffer_pool fs) = (Inl (HTMPFS_error_t HTMPFS_NO_SUCH_SNAPSHOT), (i, buffer_pool fs))"
    by (simp add: new_directory_resolver_eq i(2) refresh_def bindx_app current_data_size_missing)
  with i(1) show ?thesis by (rule on_inode_pure)
qed

section \<open>Resolving a path\<close>

fun resolve :: "inode_smi_t \<Rightarrow> string \<Rightarrow> path_t \<Rightarrow> nat \<Rightarrow> exc + nat" where
  "resolve fs v [] k = Inr k"
| "resolve fs v (i # p) k =
     (case kind fs k of
        None \<Rightarrow> Inl Std_out_of_range
      | Some False \<Rightarrow> Inl (HTMPFS_error_t HTMPFS_NOT_A_DIRECTORY)
      | Some True \<Rightarrow>
          if fs_data fs k v = None then Inl (HTMPFS_error_t HTMPFS_NO_SUCH_SNAPSHOT)
          else (case child fs v k i of
                  None \<Rightarrow> Inl (HTMPFS_error_t HTMPFS_NO_SUCH_FILE_OR_DIR)
                | Some t \<Rightarrow> resolve fs v p t))"

lemma walk_eq:
  assumes "storage_ok fs" and "dirs_ok fs" and "\<forall>i\<in>set p. i \<noteq> []"
  shows "walk v p k fs = (resolve fs v p k, fs)"
  using assms(3)
proof (induction p arbitrary: k)
  case Nil
  then show ?case by (simp add: exec_simps)
next
  case (Cons i p)
  show ?case
  proof (cases "kind fs k")
    case None
    then have "map_of (inode_pool fs) k = None" by (simp add: kind_def inode_of_def)
    then show ?thesis using None Cons.prems by (simp add: exec_simps)
  next
    case (Some d)
    then have pk: "map_of (inode_pool fs) k \<noteq> None" by (auto simp: kind_def inode_of_def)
    show ?thesis
    proof (cases "d \<and> fs_data fs k v \<noteq> None")
      case True
      then obtain c where c: "fs_data fs k v = Some c" and d: "kind fs k = Some True" using Some by auto
      obtain path where path: "dir_bytes path c" "entries fs v k = Some path" using assms(2) d c by (rule dirs_okE)
      have ch: "child fs v k i = dir_map path i" by (simp add: child_def path(2))
      show ?thesis using open_dir [OF assms(1,2) d c path(1)] pk c d Cons ch
        by (auto simp: exec_simps namei_eq split: option.splits)
    next
      case False
      then show ?thesis
        using open_file [of fs k v] open_no_version [of fs k v] Some pk Cons.prems by (cases d) (auto simp: exec_simps)
    qed
  qed
qed

text \<open>What \<open>get_inode_id_by_path\<close> computes, on every branch.\<close>

definition locate :: "inode_smi_t \<Rightarrow> string \<Rightarrow> exc + nat" where
  "locate fs path =
     (if path = [] then Inr FILESYSTEM_ROOT_INODE_NUMBER
      else if hd path \<noteq> slash then Inl (HTMPFS_error_t HTMPFS_INVALID_DENTRY_NAME)
      else if components path = [''.snapshot''] then Inl (HTMPFS_error_t HTMPFS_INVALID_DENTRY_NAME)
      else (case components path of
        [] \<Rightarrow> Inr FILESYSTEM_ROOT_INODE_NUMBER
      | n # p \<Rightarrow>
          if n = ''.snapshot'' then
            (if hd p \<noteq> FILESYSTEM_CUR_MODIFIABLE_VER \<and> tl p = [] then
               (if version_inodes fs (hd p) = None then Inl (HTMPFS_error_t HTMPFS_NO_SUCH_SNAPSHOT)
                else Inr FILESYSTEM_ROOT_INODE_NUMBER)
             else resolve fs (hd p) (tl p) FILESYSTEM_ROOT_INODE_NUMBER)
          else resolve fs FILESYSTEM_CUR_MODIFIABLE_VER (n # p) FILESYSTEM_ROOT_INODE_NUMBER))"

lemma components_nonempty: "\<forall>i\<in>set (components s). i \<noteq> []"
  using components_component by (auto simp: component_def)

lemma walk_path:
  assumes "storage_ok fs" and "dirs_ok fs"
  shows "walk v (new_path_t s) 0 fs = (resolve fs v (components s) FILESYSTEM_ROOT_INODE_NUMBER, fs)"
  using walk_eq [OF assms components_nonempty [of s], of v 0]
  by (simp add: new_path_t_eq FILESYSTEM_ROOT_INODE_NUMBER_def)

lemma get_inode_id_by_path_eq:
  assumes "storage_ok fs" and "dirs_ok fs"
  shows "get_inode_id_by_path path fs = (locate fs path, fs)"
proof (cases "path = [] \<or> hd path \<noteq> slash")
  case True
  then show ?thesis by (auto simp: get_inode_id_by_path_def locate_def exec_simps)
next
  case False
  then have ne: "path \<noteq> []" and hd: "hd path = slash" by auto
  note walk = walk_path [OF assms]
  have len: "length (new_path_t s) = 1 \<longleftrightarrow> components s = []" for s by (simp add: new_path_t_eq)
  show ?thesis
  proof (cases "components path")
    case Nil
    then have "if_snapshot path [] = Inr (FILESYSTEM_CUR_MODIFIABLE_VER, if path = ''/'' then path else [])"
      by (simp add: if_snapshot_def new_path_t_eq)
    then show ?thesis using ne hd Nil walk [of FILESYSTEM_CUR_MODIFIABLE_VER]
      by (simp add: get_inode_id_by_path_def locate_def exec_simps)
  next
    case (Cons n p)
    show ?thesis
    proof (cases "n = ''.snapshot''")
      case False
      then have "if_snapshot path [] = Inr (FILESYSTEM_CUR_MODIFIABLE_VER, path)"
        using Cons by (intro if_snapshot_current) simp_all
      then show ?thesis using False ne hd Cons walk [of FILESYSTEM_CUR_MODIFIABLE_VER path]
        by (simp add: get_inode_id_by_path_def locate_def exec_simps del: resolve.simps)
    next
      case True
      show ?thesis
      proof (cases p)
        case Nil
        then show ?thesis using ne hd Cons True if_snapshot_no_version [of path "[]"]
          by (simp add: get_inode_id_by_path_def locate_def exec_simps)
      next
        case (Cons v rest)
        with \<open>components path = n # p\<close> True have co: "components path = ''.snapshot'' # v # rest" by simp
        have comp: "\<forall>n\<in>set rest. component n" using co components_component by (metis list.set_intros(2))
        have "if_snapshot path [] = Inr (v, path_to_string rest)" using if_snapshot_version [OF co] by simp
        then show ?thesis using ne hd co walk [of v "path_to_string rest"] len [of "path_to_string rest"]
            components_path_to_string [OF comp]
          by (simp add: get_inode_id_by_path_def locate_def exec_simps version_inodes_def del: resolve.simps)
      qed
    qed
  qed
qed

text \<open>Resolution in a version depends on the bytes of that version only.\<close>

lemma resolve_same:
  assumes "\<And>k. P k \<Longrightarrow> kind fs' k = kind fs k \<and> fs_data fs' k v' = fs_data fs k v"
    and closed: "\<And>k n t. P k \<Longrightarrow> child fs v k n = Some t \<Longrightarrow> P t"
  shows "P k \<Longrightarrow> resolve fs' v' p k = resolve fs v p k"
proof (induction p arbitrary: k)
  case (Cons i p)
  have "kind fs' k = kind fs k" "fs_data fs' k v' = fs_data fs k v" "child fs' v' k = child fs v k"
    using assms(1) [OF Cons.prems] child_cong [of fs' k fs v' v] by simp_all
  then show ?case using Cons.IH closed [OF Cons.prems] by (auto split: option.splits bool.splits)
qed simp

end
