(* ===== verification/Smi_Children.thy ===== *)
theory Smi_Children
  imports Smi_Tree
begin

text \<open>
  The operations that change the tree: \<open>make_child_dentry_under_parent\<close> and
  \<open>remove_child_dentry_under_parent\<close> add and remove one edge of the current version, the
  snapshot operations copy and delete a whole version. All keep the invariant \<open>fs_ok\<close>.
\<close>

section \<open>Snapshots of the tree\<close>

lemma fs_okD:
  assumes "fs_ok fs"
  shows "storage_ok fs" and "versions_ok fs" and "tree_ok fs" and "dirs_ok fs"
  using assms by (simp_all add: fs_ok_def tree_ok_def)

lemma tree_okD:
  assumes "tree_ok fs" and "child fs v k n = Some t"
  shows "v \<in> in_versions fs t" and "t \<noteq> FILESYSTEM_ROOT_INODE_NUMBER"
    and "child fs v k' n' = Some t \<Longrightarrow> k = k' \<and> n = n'"
  using assms unfolding tree_ok_def by blast+

lemma tree_ok_root:
  assumes "tree_ok fs"
  shows "kind fs FILESYSTEM_ROOT_INODE_NUMBER = Some True"
    and "FILESYSTEM_CUR_MODIFIABLE_VER \<in> in_versions fs FILESYSTEM_ROOT_INODE_NUMBER"
  using assms by (simp_all add: tree_ok_def)

lemma child_kind: "child fs v k n = Some t \<Longrightarrow> kind fs k = Some True \<and> fs_data fs k v \<noteq> None"
  by (auto simp: child_def entries_def split: option.splits if_splits)

lemma create_snapshot_volume_tree:
  assumes ok: "fs_ok fs" and cur: "version_inodes fs FILESYSTEM_CUR_MODIFIABLE_VER = Some ks"
    and new: "version_inodes fs v = None"
    and d: "fs_data fs' = (\<lambda>k. if k \<in> set ks then (fs_data fs k)(v := fs_data fs k FILESYSTEM_CUR_MODIFIABLE_VER) else fs_data fs k)"
    and vi: "version_inodes fs' = (version_inodes fs)(v \<mapsto> ks)" and kd: "kind fs' = kind fs"
  shows "tree_ok fs'"
    and "child fs' w k = (if w = v \<and> k \<in> set ks then child fs FILESYSTEM_CUR_MODIFIABLE_VER k else child fs w k)"
proof -
  note t = fs_okD(3) [OF ok]
  have novs: "child fs v k n = None" for k n
  proof (cases "child fs v k n")
    case (Some t)
    then have "v \<in> in_versions fs t" using tree_okD(1) [OF fs_okD(3) [OF ok]] by blast
    then show ?thesis using new by (simp add: in_versions_def)
  qed
  have ch: "child fs' w k = (if w = v \<and> k \<in> set ks then child fs FILESYSTEM_CUR_MODIFIABLE_VER k else child fs w k)" for w k
    using child_cong [of fs' k fs w w] child_cong [of fs' k fs w FILESYSTEM_CUR_MODIFIABLE_VER] kd d
    by (cases "w = v"; cases "k \<in> set ks") simp_all
  then show "child fs' w k = (if w = v \<and> k \<in> set ks then child fs FILESYSTEM_CUR_MODIFIABLE_VER k else child fs w k)" .
  have iv: "in_versions fs' k = (if k \<in> set ks then insert v (in_versions fs k) else in_versions fs k)" for k
    using new unfolding in_versions_def vi by auto
  have ink: "FILESYSTEM_CUR_MODIFIABLE_VER \<in> in_versions fs k \<longleftrightarrow> k \<in> set ks" for k
    using cur by (simp add: in_versions_def)
  have "dirs_ok fs'"
    unfolding dirs_ok_def
  proof (intro allI impI)
    fix k w c
    assume "kind fs' k = Some True \<and> fs_data fs' k w = Some c"
    then have "kind fs k = Some True \<and> (fs_data fs k w = Some c \<or> fs_data fs k FILESYSTEM_CUR_MODIFIABLE_VER = Some c)"
      unfolding kd d by (auto split: if_splits)
    then show "\<exists>path. dir_bytes path c" using fs_okD(4) [OF ok] unfolding dirs_ok_def by blast
  qed
  moreover have "w \<in> in_versions fs' t \<and> t \<noteq> FILESYSTEM_ROOT_INODE_NUMBER" if c: "child fs' w k n = Some t" for w k n t
  proof (cases "w = v \<and> k \<in> set ks")
    case True
    then have "child fs FILESYSTEM_CUR_MODIFIABLE_VER k n = Some t" using c by (simp add: ch)
    from tree_okD(1,2) [OF t this] show ?thesis using True ink by (simp add: iv)
  next
    case False
    have "child fs w k n = Some t" using c unfolding ch if_not_P [OF False] .
    from tree_okD(1,2) [OF t this] show ?thesis by (simp add: iv)
  qed
  moreover have "k = k' \<and> n = n'" if c: "child fs' w k n = Some t" "child fs' w k' n' = Some t" for w k n k' n' t
  proof (cases "w = v")
    case True
    then have "child fs FILESYSTEM_CUR_MODIFIABLE_VER k n = Some t" "child fs FILESYSTEM_CUR_MODIFIABLE_VER k' n' = Some t"
      using c novs by (auto simp: ch split: if_splits)
    then show ?thesis using tree_okD(3) [OF t] by blast
  next
    case False
    then show ?thesis using c tree_okD(3) [OF t] unfolding ch by simp
  qed
  moreover have "kind fs' FILESYSTEM_ROOT_INODE_NUMBER = Some True"
    "FILESYSTEM_CUR_MODIFIABLE_VER \<in> in_versions fs' FILESYSTEM_ROOT_INODE_NUMBER"
    using tree_ok_root [OF t] kd by (simp_all add: iv)
  ultimately show "tree_ok fs'" unfolding tree_ok_def by blast
qed

lemma create_snapshot_volume_fs_ok:
  assumes ok: "fs_ok fs" and cur: "version_inodes fs FILESYSTEM_CUR_MODIFIABLE_VER = Some ks"
    and new: "version_inodes fs v = None" and cnt: "counters_ok fs" and room: "length (snapshot_version_list fs) + 1 < 2 ^ 64"
  shows "\<exists>fs'. create_snapshot_volume v fs = (Inr (), fs') \<and> fs_ok fs'
     \<and> fs_data fs' = (\<lambda>k. if k \<in> set ks then (fs_data fs k)(v := fs_data fs k FILESYSTEM_CUR_MODIFIABLE_VER) else fs_data fs k)
     \<and> version_inodes fs' = (version_inodes fs)(v \<mapsto> ks) \<and> kind fs' = kind fs \<and> smi_block_size fs' = smi_block_size fs"
proof -
  obtain fs' where "create_snapshot_volume v fs = (Inr (), fs')" "storage_ok fs'" "versions_ok fs'"
    and d: "fs_data fs' = (\<lambda>k. if k \<in> set ks then (fs_data fs k)(v := fs_data fs k FILESYSTEM_CUR_MODIFIABLE_VER) else fs_data fs k)"
    and r: "version_inodes fs' = (version_inodes fs)(v \<mapsto> ks)" "kind fs' = kind fs" "smi_block_size fs' = smi_block_size fs"
    using create_snapshot_volume_ok [OF fs_okD(1,2) [OF ok] cur new cnt room] by blast
  moreover have "tree_ok fs'" using ok cur new d r(1,2) by (rule create_snapshot_volume_tree)
  ultimately show ?thesis by (auto simp: fs_ok_def)
qed

lemma delete_snapshot_volume_fs_ok:
  assumes ok: "fs_ok fs" and v: "version_inodes fs v = Some ks"
    and vc: "v \<noteq> FILESYSTEM_CUR_MODIFIABLE_VER" and room: "length (snapshot_version_list fs) < 2 ^ 64"
  shows "\<exists>fs'. delete_snapshot_volume v fs = (Inr (), fs') \<and> fs_ok fs'
     \<and> (\<forall>k w. w \<noteq> v \<longrightarrow> (\<exists>u. u \<noteq> v \<and> u \<in> in_versions fs k) \<longrightarrow> fs_data fs' k w = fs_data fs k w)
     \<and> (\<forall>k. fs_data fs' k v = None) \<and> version_inodes fs' = (version_inodes fs)(v := None)
     \<and> (\<forall>k. kind fs' k = (if in_versions fs k = {v} then None else kind fs k))
     \<and> smi_block_size fs' = smi_block_size fs"
proof -
  obtain fs' where run: "delete_snapshot_volume v fs = (Inr (), fs')" and st: "storage_ok fs'" "versions_ok fs'"
    and d: "\<And>k w u. w \<noteq> v \<Longrightarrow> u \<noteq> v \<Longrightarrow> u \<in> in_versions fs k \<Longrightarrow> fs_data fs' k w = fs_data fs k w"
    and dv: "\<And>k. fs_data fs' k v = None" and vi: "version_inodes fs' = (version_inodes fs)(v := None)"
    and kd: "\<And>k. kind fs' k = (if in_versions fs k = {v} then None else kind fs k)"
    and b: "smi_block_size fs' = smi_block_size fs"
    using delete_snapshot_volume_ok [OF fs_okD(1,2) [OF ok] v vc room] by blast
  note t = fs_okD(3) [OF ok]
  have iv: "in_versions fs' k = in_versions fs k - {v}" for k unfolding in_versions_def vi by auto
  have keep: "w \<noteq> v \<and> kind fs k = kind fs' k \<and> fs_data fs' k w = fs_data fs k w"
    if a: "kind fs' k = Some x" "fs_data fs' k w \<noteq> None" for k w x
  proof -
    have nv: "in_versions fs k \<noteq> {v}" and ks: "kind fs k = Some x" using a kd [of k] by (auto split: if_splits)
    have "links fs k \<noteq> None" using ks kind_inode_of [of fs k] links_inode_of [of fs k] by simp
    then obtain n where "links fs k = Some n" by blast
    then have "in_versions fs k \<noteq> {}" using versions_okD(3,4) [OF fs_okD(2) [OF ok], of k n] by auto
    then obtain u where "u \<in> in_versions fs k" "u \<noteq> v" using nv by blast
    moreover have "w \<noteq> v" using a(2) dv by auto
    ultimately show ?thesis using d [of w u k] kd [of k] nv by simp
  qed
  have ch: "child fs w k n = Some t \<and> w \<noteq> v" if c: "child fs' w k n = Some t" for w k n t
  proof -
    from child_kind [OF c] keep have "w \<noteq> v \<and> kind fs' k = kind fs k \<and> fs_data fs' k w = fs_data fs k w" by metis
    then show ?thesis using c child_cong [of fs' k fs w w] by simp
  qed
  have "dirs_ok fs'" unfolding dirs_ok_def
  proof (intro allI impI)
    fix k w c
    assume a: "kind fs' k = Some True \<and> fs_data fs' k w = Some c"
    then have "kind fs k = Some True \<and> fs_data fs k w = Some c" using keep [of k True w] by auto
    then show "\<exists>path. dir_bytes path c" using fs_okD(4) [OF ok] unfolding dirs_ok_def by blast
  qed
  moreover have "w \<in> in_versions fs' t \<and> t \<noteq> FILESYSTEM_ROOT_INODE_NUMBER" if "child fs' w k n = Some t" for w k n t
    using tree_okD(1,2) [OF t] ch [OF that] iv by blast
  moreover have "k = k' \<and> n = n'" if "child fs' w k n = Some t" "child fs' w k' n' = Some t" for w k n k' n' t
    using tree_okD(3) [OF t] ch [OF that(1)] ch [OF that(2)] by blast
  moreover have "FILESYSTEM_CUR_MODIFIABLE_VER \<in> in_versions fs' FILESYSTEM_ROOT_INODE_NUMBER"
    using tree_ok_root(2) [OF t] vc by (simp add: iv)
  moreover have "kind fs' FILESYSTEM_ROOT_INODE_NUMBER = Some True"
    using tree_ok_root [OF t] vc kd [of FILESYSTEM_ROOT_INODE_NUMBER] by (auto split: if_splits)
  ultimately have "tree_ok fs'" unfolding tree_ok_def by blast
  then show ?thesis using run st d dv vi kd b by (intro exI [of _ fs']) (auto simp: fs_ok_def)
qed

section \<open>Making a child\<close>

text \<open>Room to save a directory of \<open>n\<close> entries in inode \<open>k\<close>.\<close>

definition dir_room :: "inode_smi_t \<Rightarrow> nat \<Rightarrow> bool" where
  "dir_room fs n \<longleftrightarrow> n < 2 ^ 32 \<and> 8 + 136 * n + smi_block_size fs < 2 ^ 64 \<and>
     length (buffer_pool fs) + 2 * block_count (8 + 136 * n) (smi_block_size fs) \<le> buffer_pool_max_size"

lemma save_dir:
  assumes ok: "storage_ok fs" and k: "kind fs k = Some d" and room: "dir_room fs (length path)"
  obtains fs' where "on_inode k (save_current path) fs = (Inr (), fs')" and "storage_ok fs'"
    and "fs_data fs' = (fs_data fs)(k := (fs_data fs k)(FILESYSTEM_CUR_MODIFIABLE_VER \<mapsto> encode_dentry path))"
    and "links fs' = links fs" and "kind fs' = kind fs"
    and "snapshot_version_list fs' = snapshot_version_list fs" and "smi_block_size fs' = smi_block_size fs"
    and "length (buffer_pool fs') \<le> length (buffer_pool fs) + 2 * block_count (8 + 136 * length path) (smi_block_size fs)"
    and "stat_of fs' = stat_of fs"
proof -
  obtain i where i: "inode_of fs k = Some i" using k by (auto simp: kind_Some)
  note iok = storage_okD [OF ok i]
  have "roomy i (buffer_pool fs) (8 + 136 * length path)" using room iok(2) by (simp add: roomy_def dir_room_def)
  from save_current_step [OF iok(1) this] obtain i' bp' where
    run: "save_current path (i, buffer_pool fs) = (Inr (), (i', bp'))"
    and st: "inode_step i (buffer_pool fs) (2 * block_count (8 + 136 * length path) (block_size i)) i' bp'"
    and vd: "version_data i' bp' = (version_data i (buffer_pool fs))(FILESYSTEM_CUR_MODIFIABLE_VER \<mapsto> encode_dentry path)"
    by blast
  show thesis
  proof (rule on_inode_step [where m = "save_current path", OF ok i run st])
    fix fs'
    assume d: "fs_data fs' = (fs_data fs)(k := version_data i' bp')"
    have d': "fs_data fs' = (fs_data fs)(k := (fs_data fs k)(FILESYSTEM_CUR_MODIFIABLE_VER \<mapsto> encode_dentry path))"
      by (simp add: d vd fs_data_eq [OF i])
    assume bp: "buffer_pool fs' = bp'"
    have ln: "length (buffer_pool fs') \<le> length (buffer_pool fs) + 2 * block_count (8 + 136 * length path) (smi_block_size fs)"
      using st by (simp add: bp inode_step_def iok(2))
    assume 1: "on_inode k (save_current path) fs = (Inr (), fs')" and 2: "storage_ok fs'" and r: "links fs' = links fs"
      "kind fs' = kind fs" "snapshot_version_list fs' = snapshot_version_list fs" "smi_block_size fs' = smi_block_size fs"
    assume "stat_of fs' = stat_of fs"
    with 1 2 d' r ln show thesis by (rule that)
  qed
qed

definition valid_name :: "string \<Rightarrow> bool" where
  "valid_name n \<longleftrightarrow> \<not> list_ex bad_char n \<and> length n < 128"

lemma bad_char_NUL: "bad_char NUL"
  by code_simp

lemma valid_name_storable: "valid_name n \<Longrightarrow> storable_name n"
  using bad_char_NUL unfolding valid_name_def storable_name_def list_ex_iff by blast

lemma child_save:
  assumes "fs_data fs' = (fs_data fs)(k := (fs_data fs k)(FILESYSTEM_CUR_MODIFIABLE_VER \<mapsto> encode_dentry path))"
    and "kind fs' = kind fs" and "kind fs k = Some True" and "dir_bytes path (encode_dentry path)"
  shows "child fs' v m = (if m = k \<and> v = FILESYSTEM_CUR_MODIFIABLE_VER then dir_map path else child fs v m)"
proof (cases "m = k \<and> v = FILESYSTEM_CUR_MODIFIABLE_VER")
  case True
  have "entries fs' v m = Some path"
    using True assms dir_bytes_decode [OF assms(4)] by (simp add: entries_def)
  then show ?thesis using True by (simp add: child_def fun_eq_iff)
next
  case False
  then have "fs_data fs' m v = fs_data fs m v" using assms(1) by auto
  then have "child fs' v m = child fs v m" using child_cong [of fs' m fs v v] assms(2) by simp
  then show ?thesis unfolding if_not_P [OF False] .
qed

lemma make_child_refused_name:
  "list_ex bad_char name \<Longrightarrow>
   make_child_dentry_under_parent k name d fs = (Inl (HTMPFS_error_t HTMPFS_INVALID_DENTRY_NAME), fs)"
  by (simp add: make_child_dentry_under_parent_def exec_simps)

lemma make_child_refused_double:
  assumes "storage_ok fs" and "dirs_ok fs" and "\<not> list_ex bad_char name"
    and ch: "child fs FILESYSTEM_CUR_MODIFIABLE_VER k name = Some t"
  shows "make_child_dentry_under_parent k name d fs = (Inl (HTMPFS_error_t HTMPFS_DOUBLE_MKPATHNAME), fs)"
proof -
  obtain path where e: "entries fs FILESYSTEM_CUR_MODIFIABLE_VER k = Some path" and "dir_map path name = Some t"
    using ch by (auto simp: child_def split: option.splits)
  then have "any_same path name" using dir_map_None [of path name] by (simp add: any_same_iff)
  moreover have "map_of (inode_pool fs) k \<noteq> None" using child_kind [OF ch] by (auto simp: kind_def inode_of_def)
  ultimately show ?thesis
    using open_entries [OF assms(1,2) e] assms(3)
    by (simp add: make_child_dentry_under_parent_def exec_simps check_availability_def)
qed

lemma version_inodes_append:
  assumes "version_inodes fs FILESYSTEM_CUR_MODIFIABLE_VER = Some ks"
  shows "append_current_inode k fs = (Inr (), fs\<lparr>snapshot_version_list :=
           map_assign FILESYSTEM_CUR_MODIFIABLE_VER (ks @ [k]) (snapshot_version_list fs)\<rparr>)"
  using assms by (simp add: append_current_inode_def exec_simps version_inodes_def)

lemma version_inodes_assign:
  "version_inodes fs v = Some ks \<Longrightarrow>
   version_inodes (fs\<lparr>snapshot_version_list := map_assign v ks' (snapshot_version_list fs)\<rparr>) = (version_inodes fs)(v \<mapsto> ks')"
  by (simp add: version_inodes_def)

lemma free_id_bound:
  assumes "map_ok pool" and "length pool < inode_pool_max_size"
  obtains k where "get_free_id inode_pool_max_size pool = Inr k" and "map_of pool k = None" and "k < 2 ^ 64"
proof (rule that [of "free_scan pool (length pool)"])
  show "get_free_id inode_pool_max_size pool = Inr (free_scan pool (length pool))"
    using assms(2) by (simp add: get_free_id_def)
  show "map_of pool (free_scan pool (length pool)) = None" by (rule free_scan_free)
  have "2 * inode_pool_max_size < 2 ^ 64" by (simp add: inode_pool_max_size_def)
  then show "free_scan pool (length pool) < 2 ^ 64" using free_scan_le [OF assms(1)] assms(2) by linarith
qed

text \<open>
  A new inode under a free number, one new edge in the current version, and the inode in the
  current version's list.
\<close>

lemma make_child_ok:
  assumes ok: "fs_ok fs" and path: "entries fs FILESYSTEM_CUR_MODIFIABLE_VER p = Some path"
    and name: "valid_name name" and free: "child fs FILESYSTEM_CUR_MODIFIABLE_VER p name = None"
    and room: "dir_room fs (Suc (length path))" "length (inode_pool fs) < inode_pool_max_size"
    and cur: "version_inodes fs FILESYSTEM_CUR_MODIFIABLE_VER = Some ks"
  shows "\<exists>k fs'. make_child_dentry_under_parent p name d fs = (Inr k, fs') \<and> inode_of fs k = None \<and> p \<noteq> k
     \<and> storage_ok fs'
     \<and> fs_data fs' = (fs_data fs)(k := [FILESYSTEM_CUR_MODIFIABLE_VER \<mapsto> []],
         p := (fs_data fs p)(FILESYSTEM_CUR_MODIFIABLE_VER \<mapsto> encode_dentry (path @ [\<lparr>pathname = name, pack_inode = k\<rparr>])))
     \<and> kind fs' = (kind fs)(k \<mapsto> d) \<and> links fs' = (links fs)(k \<mapsto> 1)
     \<and> version_inodes fs' = (version_inodes fs)(FILESYSTEM_CUR_MODIFIABLE_VER \<mapsto> ks @ [k])
     \<and> map_ok (snapshot_version_list fs') \<and> k < 2 ^ 64 \<and> smi_block_size fs' = smi_block_size fs
     \<and> length (buffer_pool fs') \<le> length (buffer_pool fs) + 2 * block_count (8 + 136 * Suc (length path)) (smi_block_size fs)
     \<and> stat_of fs' = (stat_of fs)(k \<mapsto> zero_stat)"
proof -
  note sok = fs_okD(1) [OF ok] and dok = fs_okD(4) [OF ok]
  obtain c where c: "fs_data fs p FILESYSTEM_CUR_MODIFIABLE_VER = Some c" "dir_bytes path c" and kp: "kind fs p = Some True"
    using entries_data [OF dok path] .
  have open_p: "on_inode p (new_directory_resolver_t FILESYSTEM_CUR_MODIFIABLE_VER) fs = (Inr path, fs)"
    using open_entries [OF sok dok path] .
  have free': "dir_map path name = None" using free path by (simp add: child_def)
  obtain k where k: "get_free_id inode_pool_max_size (inode_pool fs) = Inr k" "map_of (inode_pool fs) k = None" "k < 2 ^ 64"
    using free_id_bound sok room(2) by (auto simp: storage_ok_def)
  have ko: "inode_of fs k = None" using k(2) by (simp add: inode_of_def)
  have pk: "p \<noteq> k" using kp ko kind_inode_of [of fs k] by auto
  let ?fs1 = "add_inode k d fs" and ?path = "path @ [\<lparr>pathname = name, pack_inode = k\<rparr>]"
  note st1 = add_inode_step [OF sok ko, of d]
  have k1: "kind ?fs1 = (kind fs)(k \<mapsto> d)" by (auto simp: kind_def inode_of_add [OF ko] fun_eq_iff)
  have l1: "links ?fs1 = (links fs)(k \<mapsto> 1)" using k(2) by (auto simp: links_def add_inode_def fun_eq_iff)
  have t1: "stat_of ?fs1 = (stat_of fs)(k \<mapsto> zero_stat)"
    by (auto simp: stat_of_def inode_of_add [OF ko] new_inode_t_def fun_eq_iff)
  have kp1: "kind ?fs1 p = Some True" using kp pk k1 by simp
  have "dir_room ?fs1 (length ?path)" using room(1) by (simp add: dir_room_def)
  from save_dir [OF st1(1) kp1 this] obtain fs2 where
    on: "on_inode p (save_current ?path) ?fs1 = (Inr (), fs2)" and ok2: "storage_ok fs2"
    and d2: "fs_data fs2 = (fs_data ?fs1)(p := (fs_data ?fs1 p)(FILESYSTEM_CUR_MODIFIABLE_VER \<mapsto> encode_dentry ?path))"
    and r2: "links fs2 = links ?fs1" "kind fs2 = kind ?fs1" "snapshot_version_list fs2 = snapshot_version_list ?fs1"
      "smi_block_size fs2 = smi_block_size ?fs1"
    and ln: "length (buffer_pool fs2) \<le> length (buffer_pool ?fs1) + 2 * block_count (8 + 136 * length ?path) (smi_block_size ?fs1)"
    and t2: "stat_of fs2 = stat_of ?fs1" by blast
  have cur2: "version_inodes fs2 FILESYSTEM_CUR_MODIFIABLE_VER = Some ks" using cur r2(3) by (simp add: version_inodes_def)
  let ?fs3 = "fs2\<lparr>snapshot_version_list := map_assign FILESYSTEM_CUR_MODIFIABLE_VER (ks @ [k]) (snapshot_version_list fs2)\<rparr>"
  obtain pk' where pp': "map_of (inode_pool fs) p = Some pk'" using kp by (auto simp: kind_def inode_of_def)
  have run1: "modifyx (\<lambda>fs. fs\<lparr>inode_pool := map_emplace k \<lparr>link_count = 1, inode = new_inode_t (smi_block_size fs0) k d\<rparr> (inode_pool fs)\<rparr>) fs
      = (Inr (), fs\<lparr>inode_pool := map_emplace k \<lparr>link_count = 1, inode = new_inode_t (smi_block_size fs0) k d\<rparr> (inode_pool fs)\<rparr>)" for fs0
    by (rule modifyx_app)
  have "make_child_dentry_under_parent p name d fs = (Inr k, ?fs3)"
    using name free' pp' open_p k(1) add_path_ok [OF free', of k] on version_inodes_append [OF cur2, of k]
    by (simp add: make_child_dentry_under_parent_def bindx_app getx_app liftx_app run1 ret_app valid_name_def
        check_availability_def any_same_iff dir_map_None add_inode_def del: One_nat_def)
  moreover have "fs_data ?fs3 = (fs_data fs)(k := [FILESYSTEM_CUR_MODIFIABLE_VER \<mapsto> []],
         p := (fs_data fs p)(FILESYSTEM_CUR_MODIFIABLE_VER \<mapsto> encode_dentry ?path))"
    using update_list_storage(2) [OF ok2] d2 st1(2) pk by simp
  moreover have "version_inodes ?fs3 = (version_inodes fs)(FILESYSTEM_CUR_MODIFIABLE_VER \<mapsto> ks @ [k])"
    using version_inodes_assign [OF cur2] r2(3) by (simp add: version_inodes_def)
  moreover have "stat_of ?fs3 = (stat_of fs)(k \<mapsto> zero_stat)"
    unfolding t1 [symmetric] t2 [symmetric] by (simp add: stat_of_def fun_eq_iff)
  moreover have "map_ok (snapshot_version_list ?fs3)" using fs_okD(2) [OF ok] r2(3) by (simp add: versions_ok_def)
  ultimately show ?thesis
    using update_list_storage(1) [OF ok2] r2 k1 l1 k(3) ko pk ln by (intro exI [of _ k] exI [of _ ?fs3]) simp
qed

lemma child_new_inode:
  assumes "fs_data fs' k = [FILESYSTEM_CUR_MODIFIABLE_VER \<mapsto> []]"
  shows "child fs' v k n = None"
  using assms by (simp add: child_def entries_def decode_dentry_def dir_map_def)

lemma make_child_fs_ok:
  assumes ok: "fs_ok fs" and path: "entries fs FILESYSTEM_CUR_MODIFIABLE_VER p = Some path"
    and name: "valid_name name" and free: "child fs FILESYSTEM_CUR_MODIFIABLE_VER p name = None"
    and room: "dir_room fs (Suc (length path))" "length (inode_pool fs) < inode_pool_max_size"
    and cur: "version_inodes fs FILESYSTEM_CUR_MODIFIABLE_VER = Some ks"
  shows "\<exists>k fs'. make_child_dentry_under_parent p name d fs = (Inr k, fs') \<and> inode_of fs k = None \<and> fs_ok fs'
     \<and> child fs' = (child fs)(FILESYSTEM_CUR_MODIFIABLE_VER := (child fs FILESYSTEM_CUR_MODIFIABLE_VER)
         (p := (child fs FILESYSTEM_CUR_MODIFIABLE_VER p)(name \<mapsto> k)))
     \<and> fs_data fs' k = [FILESYSTEM_CUR_MODIFIABLE_VER \<mapsto> []]
     \<and> (\<forall>m v. m \<noteq> k \<and> (m \<noteq> p \<or> v \<noteq> FILESYSTEM_CUR_MODIFIABLE_VER) \<longrightarrow> fs_data fs' m v = fs_data fs m v)
     \<and> kind fs' = (kind fs)(k \<mapsto> d)
     \<and> version_inodes fs' = (version_inodes fs)(FILESYSTEM_CUR_MODIFIABLE_VER \<mapsto> ks @ [k])
     \<and> smi_block_size fs' = smi_block_size fs
     \<and> length (buffer_pool fs') \<le> length (buffer_pool fs) + 2 * block_count (8 + 136 * Suc (length path)) (smi_block_size fs)
     \<and> stat_of fs' = (stat_of fs)(k \<mapsto> zero_stat)"
proof -
  obtain k fs' where run: "make_child_dentry_under_parent p name d fs = (Inr k, fs')" and ko: "inode_of fs k = None"
    and pk: "p \<noteq> k" and sok: "storage_ok fs'"
    and dt: "fs_data fs' = (fs_data fs)(k := [FILESYSTEM_CUR_MODIFIABLE_VER \<mapsto> []],
         p := (fs_data fs p)(FILESYSTEM_CUR_MODIFIABLE_VER \<mapsto> encode_dentry (path @ [\<lparr>pathname = name, pack_inode = k\<rparr>])))"
    and kd: "kind fs' = (kind fs)(k \<mapsto> d)" and lk: "links fs' = (links fs)(k \<mapsto> 1)"
    and vi: "version_inodes fs' = (version_inodes fs)(FILESYSTEM_CUR_MODIFIABLE_VER \<mapsto> ks @ [k])"
    and mok: "map_ok (snapshot_version_list fs')" and k64: "k < 2 ^ 64" and b: "smi_block_size fs' = smi_block_size fs"
    and ln: "length (buffer_pool fs') \<le> length (buffer_pool fs) + 2 * block_count (8 + 136 * Suc (length path)) (smi_block_size fs)"
    and ts: "stat_of fs' = (stat_of fs)(k \<mapsto> zero_stat)"
    using make_child_ok [OF ok path name free room cur, of d] by blast
  note vok = fs_okD(2) [OF ok] and t = fs_okD(3) [OF ok] and dok = fs_okD(4) [OF ok]
  let ?path = "path @ [\<lparr>pathname = name, pack_inode = k\<rparr>]"
  obtain c where c: "fs_data fs p FILESYSTEM_CUR_MODIFIABLE_VER = Some c" "dir_bytes path c" and kp: "kind fs p = Some True"
    using entries_data [OF dok path] .
  have free': "dir_map path name = None" using free path by (simp add: child_def)
  have db: "dir_bytes ?path (encode_dentry ?path)"
    using c(2) free' valid_name_storable [OF name] k64 room(1)
    by (auto simp: dir_bytes_def storable_pack_def dir_map_None names_def dir_room_def)
  have old: "fs_data fs' m v = fs_data fs m v" if "m \<noteq> k" "m \<noteq> p \<or> v \<noteq> FILESYSTEM_CUR_MODIFIABLE_VER" for m v
    using that by (auto simp: dt)
  have chk: "child fs v k n = None" for v n using kind_inode_of [of fs k] ko by (simp add: child_def entries_def)
  have ch: "child fs' v m n = (if v = FILESYSTEM_CUR_MODIFIABLE_VER \<and> m = p \<and> n = name then Some k else child fs v m n)" for v m n
  proof -
    consider "m = k" | "m = p" "v = FILESYSTEM_CUR_MODIFIABLE_VER" | "m \<noteq> k" "m \<noteq> p \<or> v \<noteq> FILESYSTEM_CUR_MODIFIABLE_VER" by blast
    then show ?thesis
    proof cases
      case 1
      then show ?thesis using pk chk child_new_inode [of fs' k] by (simp add: dt)
    next
      case 2
      have "entries fs' v m = Some ?path"
        using 2 kp kd pk dir_bytes_decode [OF db] by (simp add: entries_def dt)
      then show ?thesis using 2 path dir_map_snoc [OF free', of k] by (simp add: child_def)
    next
      case 3
      then have "child fs' v m = child fs v m" using old [of m v] kd by (intro child_cong) simp_all
      then show ?thesis using 3 by auto
    qed
  qed
  have iv: "in_versions fs' m = (if m = k then {FILESYSTEM_CUR_MODIFIABLE_VER} else in_versions fs m)" for m
  proof -
    have "in_versions fs k = {}" using versions_okD(2) [OF vok, of _ _ k] ko unfolding in_versions_def by blast
    moreover have "v \<in> in_versions fs' m \<longleftrightarrow> v \<in> in_versions fs m \<or> v = FILESYSTEM_CUR_MODIFIABLE_VER \<and> m = k" for v
      using cur by (auto simp: in_versions_def vi)
    ultimately show ?thesis by auto
  qed
  have ino: "inode_of fs' m = None \<longleftrightarrow> m \<noteq> k \<and> inode_of fs m = None" for m
    using kind_inode_of [of fs' m] kind_inode_of [of fs m] kd by (auto split: if_splits)
  have "versions_ok fs'"
  proof (rule versions_okI)
    show "distinct ks'" if "version_inodes fs' w = Some ks'" for w ks'
      using that versions_okD(1) [OF vok] versions_okD(1) [OF vok cur] versions_okD(2) [OF vok cur, of k] ko
      by (auto simp: vi split: if_splits)
    show "inode_of fs' m \<noteq> None" if "version_inodes fs' w = Some ks'" "m \<in> set ks'" for w ks' m
      using that versions_okD(2) [OF vok, of w ks' m] versions_okD(2) [OF vok cur, of m]
      unfolding ino by (auto simp: vi split: if_splits)
    show "n = card (in_versions fs' m)" if "links fs' m = Some n" for m n
      using that versions_okD(3) [OF vok, of m n] by (auto simp: lk iv split: if_splits)
    show "0 < n" if "links fs' m = Some n" for m n
      using that versions_okD(4) [OF vok, of m n] by (auto simp: lk split: if_splits)
    show "fs_data fs' m w \<noteq> None \<longleftrightarrow> w \<in> in_versions fs' m" if w: "inode_of fs' m \<noteq> None" "w \<noteq> FILESYSTEM_CUR_MODIFIABLE_VER" for m w
      using w versions_okD(5) [OF vok, of m w] old [of m w] pk unfolding ino iv by (cases "m = k") (auto simp: dt)
  qed (use mok in \<open>simp_all add: vi\<close>)
  moreover have "tree_ok fs'" unfolding tree_ok_def
  proof (intro conjI allI impI)
    show "dirs_ok fs'" unfolding dirs_ok_def
    proof (intro allI impI)
      fix m w e
      assume e: "kind fs' m = Some True \<and> fs_data fs' m w = Some e"
      consider "m = k" | "m = p" "w = FILESYSTEM_CUR_MODIFIABLE_VER" | "m \<noteq> k" "m \<noteq> p \<or> w \<noteq> FILESYSTEM_CUR_MODIFIABLE_VER" by blast
      then show "\<exists>path. dir_bytes path e"
      proof cases
        case 1
        then have "e = []" using e pk by (simp add: dt split: if_splits)
        then have "dir_bytes [] e" by (simp add: dir_bytes_def names_def)
        then show ?thesis ..
      next
        case 2
        then have "e = encode_dentry ?path" using e by (simp add: dt)
        then show ?thesis using db by blast
      next
        case 3
        then show ?thesis using e old [of m w] kd dok unfolding dirs_ok_def by auto
      qed
    qed
    show "kind fs' FILESYSTEM_ROOT_INODE_NUMBER = Some True"
      using tree_ok_root(1) [OF t] kind_inode_of [of fs k] ko by (auto simp: kd)
    show "FILESYSTEM_CUR_MODIFIABLE_VER \<in> in_versions fs' FILESYSTEM_ROOT_INODE_NUMBER"
      using tree_ok_root(2) [OF t] by (simp add: iv)
    fix v m n s
    assume e: "child fs' v m n = Some s"
    have old_s: "child fs v m n = Some s \<Longrightarrow> s \<noteq> k"
      using tree_okD(1) [OF t, of v m n s] versions_okD(2) [OF vok, of v _ s] ko by (auto simp: in_versions_def)
    show "v \<in> in_versions fs' s" using e tree_okD(1) [OF t, of v m n s] old_s by (auto simp: ch iv split: if_splits)
    show "s \<noteq> FILESYSTEM_ROOT_INODE_NUMBER"
      using e tree_okD(2) [OF t, of v m n s] tree_ok_root(1) [OF t] kind_inode_of [of fs k] ko
      by (auto simp: ch split: if_splits)
  next
    fix v m n m' n' s
    assume e: "child fs' v m n = Some s \<and> child fs' v m' n' = Some s"
    have fresh: "child fs v m n \<noteq> Some k" for m n
      using tree_okD(1) [OF t, of v m n k] versions_okD(2) [OF vok, of v _ k] ko by (auto simp: in_versions_def)
    show "m = m'" using e tree_okD(3) [OF t, of v m n s m' n'] fresh by (auto simp: ch split: if_splits)
    show "n = n'" using e tree_okD(3) [OF t, of v m n s m' n'] fresh by (auto simp: ch split: if_splits)
  qed
  moreover have "child fs' = (child fs)(FILESYSTEM_CUR_MODIFIABLE_VER := (child fs FILESYSTEM_CUR_MODIFIABLE_VER)
         (p := (child fs FILESYSTEM_CUR_MODIFIABLE_VER p)(name \<mapsto> k)))"
    by (auto simp: ch fun_eq_iff)
  moreover have "fs_data fs' k = [FILESYSTEM_CUR_MODIFIABLE_VER \<mapsto> []]" using pk by (simp add: dt)
  ultimately show ?thesis using run ko sok old kd vi b ln ts unfolding fs_ok_def by blast
qed

end
