(* ===== verification/Smi_Removal.thy ===== *)
theory Smi_Removal
  imports Smi_Children
begin

text \<open>
  The fresh file system, removal of a child, and writing to a regular file: the remaining
  operations that keep the invariant \<open>fs_ok\<close>.
\<close>

section \<open>The constructor\<close>

lemma new_fs_views:
  "inode_of (new_inode_smi_t bs) = [FILESYSTEM_ROOT_INODE_NUMBER \<mapsto> new_inode_t bs FILESYSTEM_ROOT_INODE_NUMBER True]"
  "links (new_inode_smi_t bs) = [FILESYSTEM_ROOT_INODE_NUMBER \<mapsto> 1]"
  "kind (new_inode_smi_t bs) = [FILESYSTEM_ROOT_INODE_NUMBER \<mapsto> True]"
  "version_inodes (new_inode_smi_t bs) = [FILESYSTEM_CUR_MODIFIABLE_VER \<mapsto> [FILESYSTEM_ROOT_INODE_NUMBER]]"
  "buffer_pool (new_inode_smi_t bs) = []" "smi_block_size (new_inode_smi_t bs) = bs"
  by (auto simp: inode_of_def links_def kind_def version_inodes_def new_inode_smi_t_def fun_eq_iff
      FILESYSTEM_ROOT_INODE_NUMBER_def)

lemma new_fs_ok:
  assumes "0 < bs" and "bs < 2 ^ 32"
  shows "fs_ok (new_inode_smi_t bs)"
    and "fs_data (new_inode_smi_t bs) FILESYSTEM_ROOT_INODE_NUMBER = [FILESYSTEM_CUR_MODIFIABLE_VER \<mapsto> []]"
    and "child (new_inode_smi_t bs) v k n = None"
proof -
  let ?fs = "new_inode_smi_t bs" and ?r = FILESYSTEM_ROOT_INODE_NUMBER
  have bs64: "bs < 2 ^ 64" using assms(2) by simp
  note new = new_inode_ok [OF map_ok_Nil assms(1) bs64]
  show d: "fs_data ?fs ?r = [FILESYSTEM_CUR_MODIFIABLE_VER \<mapsto> []]"
    using fs_data_eq [of ?fs ?r] new(3) by (simp add: new_fs_views)
  show ch: "child ?fs v k n = None" for v k n
    by (cases "k = ?r") (simp_all add: child_new_inode [OF d], simp add: child_def entries_def new_fs_views)
  have "storage_ok ?fs"
  proof (rule storage_okI)
    show "map_ok (inode_pool ?fs)" by (simp add: new_inode_smi_t_def)
  qed (use assms new in \<open>auto simp: new_fs_views split: if_splits\<close>)
  moreover have iv: "in_versions ?fs k = (if k = ?r then {FILESYSTEM_CUR_MODIFIABLE_VER} else {})" for k
    by (auto simp: in_versions_def new_fs_views)
  have "versions_ok ?fs"
  proof (rule versions_okI)
    show "map_ok (snapshot_version_list ?fs)" by (simp add: new_inode_smi_t_def)
  qed (use d in \<open>auto simp: new_fs_views iv split: if_splits\<close>)
  moreover have "dirs_ok ?fs" unfolding dirs_ok_def
  proof (intro allI impI)
    fix k v c
    assume "kind ?fs k = Some True \<and> fs_data ?fs k v = Some c"
    then have "c = []" using d by (auto simp: new_fs_views split: if_splits)
    then have "dir_bytes [] c" by (simp add: dir_bytes_def names_def)
    then show "\<exists>path. dir_bytes path c" ..
  qed
  ultimately show "fs_ok ?fs" using iv ch by (simp add: fs_ok_def tree_ok_def new_fs_views)
qed

section \<open>Writing a regular file\<close>

lemma file_step_fs_ok:
  assumes ok: "fs_ok fs" and k: "kind fs k = Some False" and sok: "storage_ok fs'"
    and d: "fs_data fs' = (fs_data fs)(k := (fs_data fs k)(FILESYSTEM_CUR_MODIFIABLE_VER \<mapsto> c))"
    and lk: "links fs' = links fs" and kd: "kind fs' = kind fs" and sl: "snapshot_version_list fs' = snapshot_version_list fs"
  shows "fs_ok fs'" and "child fs' = child fs"
proof -
  note vok = fs_okD(2) [OF ok] and t = fs_okD(3) [OF ok]
  have vi: "version_inodes fs' = version_inodes fs" by (simp add: version_inodes_def sl)
  have iv: "in_versions fs' = in_versions fs" using vi by (rule in_versions_cong)
  have ino: "inode_of fs' m = None \<longleftrightarrow> inode_of fs m = None" for m
    using kind_inode_of [of fs' m] kind_inode_of [of fs m] kd by simp
  have same: "m \<noteq> k \<Longrightarrow> fs_data fs' m = fs_data fs m" "w \<noteq> FILESYSTEM_CUR_MODIFIABLE_VER \<Longrightarrow> fs_data fs' m w = fs_data fs m w" for m w
    by (simp_all add: d)
  have "child fs' v m = child fs v m" for v m
  proof (cases "m = k")
    case True
    then show ?thesis using k kd by (simp add: child_def entries_def fun_eq_iff)
  next
    case False
    then show ?thesis using same(1) kd by (intro child_cong) simp_all
  qed
  then show ch: "child fs' = child fs" by (simp add: fun_eq_iff)
  have "versions_ok fs'"
    using versions_okD [OF vok] vok unfolding versions_ok_def vi iv lk ino sl
    by (auto simp: same(2))
  moreover have "dirs_ok fs'" using fs_okD(4) [OF ok] k same(1) unfolding dirs_ok_def kd by (metis option.inject)
  ultimately show "fs_ok fs'" using t sok ch kd iv by (simp add: fs_ok_def tree_ok_def)
qed

text \<open>Room for a file of \<open>n\<close> bytes.\<close>

definition file_room :: "inode_smi_t \<Rightarrow> nat \<Rightarrow> bool" where
  "file_room fs n \<longleftrightarrow> n + smi_block_size fs < 2 ^ 64 \<and>
     length (buffer_pool fs) + 2 * block_count n (smi_block_size fs) \<le> buffer_pool_max_size"

lemma file_op_fs_ok:
  assumes ok: "fs_ok fs" and k: "kind fs k = Some False" and c: "fs_data fs k FILESYSTEM_CUR_MODIFIABLE_VER = Some c"
    and op: "\<And>i. inode_of fs k = Some i \<Longrightarrow> \<not> is_dentry i \<Longrightarrow> inode_ok i (buffer_pool fs) \<Longrightarrow> block_size i = smi_block_size fs \<Longrightarrow>
      version_data i (buffer_pool fs) FILESYSTEM_CUR_MODIFIABLE_VER = Some c \<Longrightarrow>
      \<exists>i' bp' n. m (i, buffer_pool fs) = (Inr r, (i', bp')) \<and> inode_step i (buffer_pool fs) n i' bp'
        \<and> version_data i' bp' = (version_data i (buffer_pool fs))(FILESYSTEM_CUR_MODIFIABLE_VER \<mapsto> c')"
  shows "\<exists>fs'. on_inode k m fs = (Inr r, fs') \<and> fs_ok fs'
     \<and> fs_data fs' = (fs_data fs)(k := (fs_data fs k)(FILESYSTEM_CUR_MODIFIABLE_VER \<mapsto> c'))
     \<and> kind fs' = kind fs \<and> version_inodes fs' = version_inodes fs \<and> child fs' = child fs
     \<and> stat_of fs' = stat_of fs"
proof -
  obtain i where i: "inode_of fs k = Some i" "\<not> is_dentry i" using k by (auto simp: kind_Some)
  note sok = fs_okD(1) [OF ok]
  note iok = storage_okD [OF sok i(1)]
  have vd: "version_data i (buffer_pool fs) = fs_data fs k" using fs_data_eq [OF i(1)] by simp
  obtain i' bp' n where run: "m (i, buffer_pool fs) = (Inr r, (i', bp'))"
    and st: "inode_step i (buffer_pool fs) n i' bp'"
    and vd': "version_data i' bp' = (fs_data fs k)(FILESYSTEM_CUR_MODIFIABLE_VER \<mapsto> c')"
    using op [OF i iok(1,2)] c unfolding vd by blast
  show ?thesis
  proof (rule on_inode_step [where m = m, OF sok i(1) run st])
    fix fs'
    assume on: "on_inode k m fs = (Inr r, fs')" and s: "storage_ok fs'" and d: "fs_data fs' = (fs_data fs)(k := version_data i' bp')"
      and lk: "links fs' = links fs" and kd: "kind fs' = kind fs" and sl: "snapshot_version_list fs' = snapshot_version_list fs"
    assume t: "stat_of fs' = stat_of fs"
    note f = file_step_fs_ok [OF ok k s d [unfolded vd'] lk kd sl]
    show ?thesis using on f d vd' kd sl t by (intro exI [of _ fs']) (simp add: version_inodes_def)
  qed
qed

lemma write_resize_fs_ok:
  assumes ok: "fs_ok fs" and k: "kind fs k = Some False" and c: "fs_data fs k FILESYSTEM_CUR_MODIFIABLE_VER = Some c"
    and room: "file_room fs (offset + len)" and len: "0 < len" "len \<le> length src"
  shows "\<exists>fs'. on_inode k (inode_write src len offset True False) fs = (Inr len, fs') \<and> fs_ok fs'
     \<and> fs_data fs' = (fs_data fs)(k := (fs_data fs k)(FILESYSTEM_CUR_MODIFIABLE_VER \<mapsto> resized offset c @ take len src))
     \<and> kind fs' = kind fs \<and> version_inodes fs' = version_inodes fs \<and> child fs' = child fs
     \<and> stat_of fs' = stat_of fs"
proof (rule file_op_fs_ok [OF ok k c])
  fix i
  assume i: "\<not> is_dentry i" "inode_ok i (buffer_pool fs)" "block_size i = smi_block_size fs"
    "version_data i (buffer_pool fs) FILESYSTEM_CUR_MODIFIABLE_VER = Some c"
  have "roomy i (buffer_pool fs) (offset + len)" using room i(3) by (simp add: roomy_def file_room_def)
  from inode_write_resize_step [OF i(2) this len, of False] i(1,4) show
    "\<exists>i' bp' n. inode_write src len offset True False (i, buffer_pool fs) = (Inr len, (i', bp'))
       \<and> inode_step i (buffer_pool fs) n i' bp'
       \<and> version_data i' bp' = (version_data i (buffer_pool fs))(FILESYSTEM_CUR_MODIFIABLE_VER \<mapsto> resized offset c @ take len src)"
    by auto
qed

lemma truncate_fs_ok:
  assumes ok: "fs_ok fs" and k: "kind fs k = Some False" and c: "fs_data fs k FILESYSTEM_CUR_MODIFIABLE_VER = Some c"
    and room: "file_room fs n"
  shows "\<exists>fs'. on_inode k (inode_truncate n) fs = (Inr (), fs') \<and> fs_ok fs'
     \<and> fs_data fs' = (fs_data fs)(k := (fs_data fs k)(FILESYSTEM_CUR_MODIFIABLE_VER \<mapsto> resized n c))
     \<and> kind fs' = kind fs \<and> version_inodes fs' = version_inodes fs \<and> child fs' = child fs
     \<and> stat_of fs' = stat_of fs"
proof (rule file_op_fs_ok [OF ok k c])
  fix i
  assume i: "\<not> is_dentry i" "inode_ok i (buffer_pool fs)" "block_size i = smi_block_size fs"
    "version_data i (buffer_pool fs) FILESYSTEM_CUR_MODIFIABLE_VER = Some c"
  have "roomy i (buffer_pool fs) n" using room i(3) by (simp add: roomy_def file_room_def)
  from inode_truncate_step [OF i(2) this] i(4) show
    "\<exists>i' bp' m. inode_truncate n (i, buffer_pool fs) = (Inr (), (i', bp'))
       \<and> inode_step i (buffer_pool fs) m i' bp'
       \<and> version_data i' bp' = (version_data i (buffer_pool fs))(FILESYSTEM_CUR_MODIFIABLE_VER \<mapsto> resized n c)"
    by auto
qed

lemma write_fixed_fs_ok:
  assumes ok: "fs_ok fs" and k: "kind fs k = Some False" and c: "fs_data fs k FILESYSTEM_CUR_MODIFIABLE_VER = Some c"
    and room: "length (buffer_pool fs) + length c \<le> buffer_pool_max_size" and nw: "offset + len < 2 ^ 64"
    and len: "0 < len" "offset < length c" "len \<le> length src"
  shows "\<exists>fs'. on_inode k (inode_write src len offset False False) fs = (Inr (min len (length c - offset)), fs') \<and> fs_ok fs'
     \<and> fs_data fs' = (fs_data fs)(k := (fs_data fs k)(FILESYSTEM_CUR_MODIFIABLE_VER
         \<mapsto> overwrite offset (take (length c - offset) (take len src)) c))
     \<and> kind fs' = kind fs \<and> version_inodes fs' = version_inodes fs \<and> child fs' = child fs
     \<and> stat_of fs' = stat_of fs"
proof (rule file_op_fs_ok [OF ok k c])
  fix i
  assume i: "\<not> is_dentry i" "inode_ok i (buffer_pool fs)" "block_size i = smi_block_size fs"
    "version_data i (buffer_pool fs) FILESYSTEM_CUR_MODIFIABLE_VER = Some c"
  from inode_write_fixed_step [OF i(2,4) room nw len, of False] i(1) show
    "\<exists>i' bp' n. inode_write src len offset False False (i, buffer_pool fs) = (Inr (min len (length c - offset)), (i', bp'))
       \<and> inode_step i (buffer_pool fs) n i' bp'
       \<and> version_data i' bp' = (version_data i (buffer_pool fs))(FILESYSTEM_CUR_MODIFIABLE_VER
           \<mapsto> overwrite offset (take (length c - offset) (take len src)) c)"
    by blast
qed

section \<open>Reading\<close>

lemma read_fs_eq:
  assumes ok: "fs_ok fs" and c: "fs_data fs k v = Some c" and nw: "offset + len < 2 ^ 64"
    and inside: "offset < length c \<or> length c mod smi_block_size fs \<noteq> 0"
  shows "on_inode k (inode_read v len offset) fs = (Inr (take len (drop offset c)), fs)"
proof -
  obtain i where i: "inode_of fs k = Some i" using c fs_data_none [of fs k v] by (cases "inode_of fs k") auto
  note iok = storage_okD [OF fs_okD(1) [OF ok] i]
  have "version_data i (buffer_pool fs) v = Some c" using fs_data_eq [OF i] c by simp
  then obtain bl where bl: "map_of (buffer_map i) v = Some bl" "holds (block_size i) (buffer_pool fs) bl c"
    using iok(1) by (blast elim: inode_ok_version)
  show ?thesis
    using on_inode_pure [where m = "inode_read v len offset", OF i inode_read_ok [OF bl nw]] inside iok(2) by simp
qed

section \<open>Removing a child\<close>

lemma remove_path_length: "remove_path path name = Inr rest \<Longrightarrow> length rest \<le> length path"
  by (induction path arbitrary: rest) (fastforce split: if_splits sum.splits)+

lemma dir_room_mono:
  assumes "storage_ok fs" and "dir_room fs n" and "m \<le> n"
  shows "dir_room fs m"
proof -
  have "block_count (8 + 136 * m) (smi_block_size fs) \<le> block_count (8 + 136 * n) (smi_block_size fs)"
    using assms by (intro block_count_mono) (simp_all add: storage_ok_def)
  then show ?thesis using assms by (simp add: dir_room_def)
qed

text \<open>A target that may go: a file, or a directory without entries.\<close>

definition removable :: "inode_smi_t \<Rightarrow> nat \<Rightarrow> bool" where
  "removable fs t \<longleftrightarrow> kind fs t = Some False \<or> entries fs FILESYSTEM_CUR_MODIFIABLE_VER t = Some []"

lemma check_dir_empty_ok:
  assumes "storage_ok fs" and "dirs_ok fs" and "removable fs t"
  shows "check_dir_empty t fs = (Inr (), fs)"
  using assms open_file [of fs t] open_entries [of fs FILESYSTEM_CUR_MODIFIABLE_VER t "[]"]
  by (auto simp: removable_def check_dir_empty_def exec_simps target_count_def)

lemma check_dir_empty_refused:
  assumes "storage_ok fs" and "dirs_ok fs" and "entries fs FILESYSTEM_CUR_MODIFIABLE_VER t = Some path" and "path \<noteq> []"
  shows "check_dir_empty t fs = (Inl (HTMPFS_error_t HTMPFS_DIR_NOT_EMPTY), fs)"
  using assms open_entries [OF assms(1-3)] by (simp add: check_dir_empty_def exec_simps target_count_def)

lemma remove_child_not_empty:
  assumes ok: "fs_ok fs" and ch: "child fs FILESYSTEM_CUR_MODIFIABLE_VER p name = Some t"
    and e: "entries fs FILESYSTEM_CUR_MODIFIABLE_VER t = Some path" and ne: "path \<noteq> []"
  shows "remove_child_dentry_under_parent p name fs = (Inl (HTMPFS_error_t HTMPFS_DIR_NOT_EMPTY), fs)"
proof -
  obtain pp where pp: "entries fs FILESYSTEM_CUR_MODIFIABLE_VER p = Some pp" "dir_map pp name = Some t"
    using ch by (auto simp: child_def split: option.splits)
  have "map_of (inode_pool fs) p \<noteq> None" using child_kind [OF ch] by (auto simp: kind_def inode_of_def)
  then show ?thesis
    using open_entries [OF fs_okD(1,4) [OF ok] pp(1)] pp(2) check_dir_empty_refused [OF fs_okD(1,4) [OF ok] e ne]
    by (auto simp: remove_child_dentry_under_parent_def exec_simps namei_eq)
qed

lemma remove_child_missing:
  assumes ok: "fs_ok fs" and e: "entries fs FILESYSTEM_CUR_MODIFIABLE_VER p = Some path"
    and ch: "child fs FILESYSTEM_CUR_MODIFIABLE_VER p name = None"
  shows "remove_child_dentry_under_parent p name fs = (Inl (HTMPFS_error_t HTMPFS_NO_SUCH_FILE_OR_DIR), fs)"
proof -
  have "kind fs p = Some True" using e by (simp add: entries_def split: if_splits)
  then have "map_of (inode_pool fs) p \<noteq> None" by (auto simp: kind_def inode_of_def)
  moreover have "dir_map path name = None" using ch e by (simp add: child_def)
  ultimately show ?thesis
    using open_entries [OF fs_okD(1,4) [OF ok] e]
    by (auto simp: remove_child_dentry_under_parent_def exec_simps namei_eq)
qed

lemma remove_child_run:
  assumes ok: "fs_ok fs" and path: "entries fs FILESYSTEM_CUR_MODIFIABLE_VER p = Some path"
    and t: "child fs FILESYSTEM_CUR_MODIFIABLE_VER p name = Some t" and rm: "removable fs t"
    and room: "dir_room fs (length path)" "length (snapshot_version_list fs) < 2 ^ 64"
    and cur: "version_inodes fs FILESYSTEM_CUR_MODIFIABLE_VER = Some ks"
  shows "\<exists>rest fs'. remove_child_dentry_under_parent p name fs = (Inr (), fs') \<and> p \<noteq> t
     \<and> dir_bytes rest (encode_dentry rest) \<and> dir_map rest = (dir_map path)(name := None) \<and> storage_ok fs'
     \<and> fs_data fs' = (fs_data fs)(p := (fs_data fs p)(FILESYSTEM_CUR_MODIFIABLE_VER \<mapsto> encode_dentry rest),
          t := if last_version fs t then (\<lambda>v. None) else fs_data fs t)
     \<and> kind fs' = (kind fs)(t := if last_version fs t then None else kind fs t)
     \<and> links fs' = (links fs)(t := if last_version fs t then None else map_option (\<lambda>n. n - 1) (links fs t))
     \<and> version_inodes fs' = (version_inodes fs)(FILESYSTEM_CUR_MODIFIABLE_VER \<mapsto> remove1 t ks)
     \<and> map_ok (snapshot_version_list fs') \<and> smi_block_size fs' = smi_block_size fs \<and> length rest \<le> length path
     \<and> length (buffer_pool fs') \<le> length (buffer_pool fs) + 2 * block_count (8 + 136 * length path) (smi_block_size fs)"
proof -
  note sok = fs_okD(1) [OF ok] and vok = fs_okD(2) [OF ok] and tok = fs_okD(3) [OF ok] and dok = fs_okD(4) [OF ok]
  obtain c where c: "fs_data fs p FILESYSTEM_CUR_MODIFIABLE_VER = Some c" "dir_bytes path c" and kp: "kind fs p = Some True"
    using entries_data [OF dok path] .
  have dt: "dir_map path name = Some t" using t path by (simp add: child_def)
  have pt: "p \<noteq> t"
  proof
    assume "p = t"
    then have "path = []" using rm kp path by (simp add: removable_def)
    then show False using dt by (simp add: dir_map_def)
  qed
  obtain rest where rest: "remove_path path name = Inr rest" "dir_map rest = (dir_map path)(name := None)"
    "set rest \<subseteq> set path" "distinct (names rest)"
    using remove_path_ok [of path name t] c(2) dt by (auto simp: dir_bytes_def)
  have len: "length rest \<le> length path" using rest(1) by (rule remove_path_length)
  have db: "dir_bytes rest (encode_dentry rest)" using c(2) rest(3,4) len by (auto simp: dir_bytes_def)
  obtain fs2 where on: "on_inode p (save_current rest) fs = (Inr (), fs2)" and ok2: "storage_ok fs2"
    and d2: "fs_data fs2 = (fs_data fs)(p := (fs_data fs p)(FILESYSTEM_CUR_MODIFIABLE_VER \<mapsto> encode_dentry rest))"
    and r2: "links fs2 = links fs" "kind fs2 = kind fs" "snapshot_version_list fs2 = snapshot_version_list fs"
      "smi_block_size fs2 = smi_block_size fs"
    and l2: "length (buffer_pool fs2) \<le> length (buffer_pool fs) + 2 * block_count (8 + 136 * length rest) (smi_block_size fs)"
    using save_dir [OF sok kp dir_room_mono [OF sok room(1) len]] by blast
  have "block_count (8 + 136 * length rest) (smi_block_size fs) \<le> block_count (8 + 136 * length path) (smi_block_size fs)"
    using sok len by (intro block_count_mono) (simp_all add: storage_ok_def)
  then have l2: "length (buffer_pool fs2) \<le> length (buffer_pool fs) + 2 * block_count (8 + 136 * length path) (smi_block_size fs)"
    using l2 by linarith
  let ?fs3 = "fs2\<lparr>snapshot_version_list := map_assign FILESYSTEM_CUR_MODIFIABLE_VER (remove1 t ks) (snapshot_version_list fs2)\<rparr>"
  have cur2: "version_inodes fs2 FILESYSTEM_CUR_MODIFIABLE_VER = Some ks" using cur r2(3) by (simp add: version_inodes_def)
  then have run3: "remove_current_inode t fs2 = (Inr (), ?fs3)"
    by (simp add: remove_current_inode_def exec_simps version_inodes_def)
  note st3 = update_list_storage [OF ok2, of "map_assign FILESYSTEM_CUR_MODIFIABLE_VER (remove1 t ks) (snapshot_version_list fs2)"]
  have tv: "FILESYSTEM_CUR_MODIFIABLE_VER \<in> in_versions fs t" using tree_okD(1) [OF tok t] .
  have "inode_of fs t \<noteq> None" using tv versions_okD(2) [OF vok, of _ _ t] unfolding in_versions_def by blast
  then obtain n where n: "links fs t = Some n" using links_inode_of [of fs t] by auto
  have n0: "0 < n" using versions_okD(4) [OF vok n] .
  have n64: "n < 2 ^ 64" using versions_okD(3) [OF vok n] card_in_versions_le [OF vok, of t] room(2) by simp
  have n3: "links ?fs3 t = Some n" using n r2(1) by simp
  obtain pk where pk: "map_of (inode_pool ?fs3) t = Some pk" "link_count pk = n" using n3 by (auto simp: links_def)
  have s1: "sub64 n 1 = n - 1" using n0 n64 by (intro sub64_small) simp_all
  let ?fs4 = "if n = 1 then drop_inode t (with_links t 0 ?fs3) else with_links t (n - 1) ?fs3"
  have lv: "last_version fs t \<longleftrightarrow> n = 1" using n by (simp add: last_version_def)
  have "map_of (inode_pool fs) p \<noteq> None" using kp by (auto simp: kind_def inode_of_def)
  then have run: "remove_child_dentry_under_parent p name fs = (Inr (), ?fs4)"
    using open_entries [OF sok dok path] dt check_dir_empty_ok [OF sok dok rm] rest(1) on run3 pk n0
    by (auto simp: remove_child_dentry_under_parent_def exec_simps namei_eq s1 erase_inode_def drop_inode_def
        simp del: One_nat_def)
  have ok4: "storage_ok ?fs4" using with_links_storage [OF st3(1)] drop_inode_step [of "with_links t 0 ?fs3" t] by simp
  have d4: "fs_data ?fs4 = (fs_data fs)(p := (fs_data fs p)(FILESYSTEM_CUR_MODIFIABLE_VER \<mapsto> encode_dentry rest),
          t := if last_version fs t then (\<lambda>v. None) else fs_data fs t)"
    using with_links_storage [OF st3(1)] drop_inode_step(2) [of "with_links t 0 ?fs3" t] pt
    by (auto simp: lv st3(2) d2 fun_eq_iff)
  have k4: "kind ?fs4 = (kind fs)(t := if last_version fs t then None else kind fs t)"
    using r2(2) by (simp add: lv kind_drop)
  have l4: "links ?fs4 = (links fs)(t := if last_version fs t then None else map_option (\<lambda>n. n - 1) (links fs t))"
    using links_with_links [OF n3] n r2(1) by (simp add: lv links_drop)
  have v4: "version_inodes ?fs4 = (version_inodes fs)(FILESYSTEM_CUR_MODIFIABLE_VER \<mapsto> remove1 t ks)"
    using version_inodes_assign [OF cur2, of "remove1 t ks"] r2(3) by (simp add: version_inodes_def)
  have m4: "map_ok (snapshot_version_list ?fs4)" using versions_okD(6) [OF vok] r2(3) by simp
  have b4: "smi_block_size ?fs4 = smi_block_size fs" using r2(4) by simp
  have p4: "length (buffer_pool ?fs4) \<le> length (buffer_pool fs) + 2 * block_count (8 + 136 * length path) (smi_block_size fs)"
    using l2 by simp
  show ?thesis using run pt db rest(2) ok4 d4 k4 l4 v4 m4 b4 len p4 by (intro exI conjI)
qed

lemma remove_child_fs_ok:
  assumes ok: "fs_ok fs" and path: "entries fs FILESYSTEM_CUR_MODIFIABLE_VER p = Some path"
    and t: "child fs FILESYSTEM_CUR_MODIFIABLE_VER p name = Some t" and rm: "removable fs t"
    and room: "dir_room fs (length path)" "length (snapshot_version_list fs) < 2 ^ 64"
    and cur: "version_inodes fs FILESYSTEM_CUR_MODIFIABLE_VER = Some ks"
  shows "\<exists>fs'. remove_child_dentry_under_parent p name fs = (Inr (), fs') \<and> fs_ok fs'
     \<and> child fs' = (child fs)(FILESYSTEM_CUR_MODIFIABLE_VER := (child fs FILESYSTEM_CUR_MODIFIABLE_VER)
         (p := (child fs FILESYSTEM_CUR_MODIFIABLE_VER p)(name := None)))
     \<and> (\<forall>m v. v \<noteq> FILESYSTEM_CUR_MODIFIABLE_VER \<longrightarrow> fs_data fs' m v = fs_data fs m v)
     \<and> (\<forall>m. m \<noteq> p \<and> m \<noteq> t \<longrightarrow> fs_data fs' m = fs_data fs m)
     \<and> kind fs' = (kind fs)(t := if in_versions fs t = {FILESYSTEM_CUR_MODIFIABLE_VER} then None else kind fs t)
     \<and> version_inodes fs' = (version_inodes fs)(FILESYSTEM_CUR_MODIFIABLE_VER \<mapsto> remove1 t ks)
     \<and> smi_block_size fs' = smi_block_size fs
     \<and> (\<exists>rest. entries fs' FILESYSTEM_CUR_MODIFIABLE_VER p = Some rest \<and> length rest \<le> length path)
     \<and> length (buffer_pool fs') \<le> length (buffer_pool fs) + 2 * block_count (8 + 136 * length path) (smi_block_size fs)"
proof -
  let ?cur = FILESYSTEM_CUR_MODIFIABLE_VER
  note vok = fs_okD(2) [OF ok] and tok = fs_okD(3) [OF ok] and dok = fs_okD(4) [OF ok]
  obtain rest fs' where run: "remove_child_dentry_under_parent p name fs = (Inr (), fs')" and pt: "p \<noteq> t"
    and db: "dir_bytes rest (encode_dentry rest)" and dm: "dir_map rest = (dir_map path)(name := None)" and sok: "storage_ok fs'"
    and d: "fs_data fs' = (fs_data fs)(p := (fs_data fs p)(?cur \<mapsto> encode_dentry rest),
          t := if last_version fs t then (\<lambda>v. None) else fs_data fs t)"
    and kd: "kind fs' = (kind fs)(t := if last_version fs t then None else kind fs t)"
    and lk: "links fs' = (links fs)(t := if last_version fs t then None else map_option (\<lambda>n. n - 1) (links fs t))"
    and vi: "version_inodes fs' = (version_inodes fs)(?cur \<mapsto> remove1 t ks)"
    and mok: "map_ok (snapshot_version_list fs')" and b: "smi_block_size fs' = smi_block_size fs"
    and rl: "length rest \<le> length path"
      "length (buffer_pool fs') \<le> length (buffer_pool fs) + 2 * block_count (8 + 136 * length path) (smi_block_size fs)"
    using remove_child_run [OF ok path t rm room cur] by blast
  obtain c where "kind fs p = Some True" using entries_data [OF dok path] by blast
  then have en: "entries fs' ?cur p = Some rest" using pt dir_bytes_decode [OF db] by (simp add: entries_def d kd)
  have tv: "?cur \<in> in_versions fs t" using tree_okD(1) [OF tok t] .
  have tks: "t \<in> set ks" using tv cur by (simp add: in_versions_def)
  have dist: "distinct ks" using versions_okD(1) [OF vok cur] .
  obtain n where n: "links fs t = Some n" "n = card (in_versions fs t)"
    using versions_okD(2) [OF vok cur tks] links_inode_of [of fs t] versions_okD(3) [OF vok, of t] by fastforce
  have lv: "last_version fs t \<longleftrightarrow> in_versions fs t = {?cur}"
  proof -
    have "last_version fs t \<longleftrightarrow> card (in_versions fs t) = 1" using n by (simp add: last_version_def)
    also have "\<dots> \<longleftrightarrow> (\<exists>x. in_versions fs t = {x})" by (simp add: card_1_singleton_iff)
    also have "\<dots> \<longleftrightarrow> in_versions fs t = {?cur}"
    proof
      assume "\<exists>x. in_versions fs t = {x}"
      then obtain x where x: "in_versions fs t = {x}" ..
      then have "x = ?cur" using tv by simp
      with x show "in_versions fs t = {?cur}" by simp
    qed (rule exI)
    finally show ?thesis .
  qed
  have iv: "in_versions fs' m = (if m = t then in_versions fs t - {?cur} else in_versions fs m)" for m
    using cur dist by (auto simp: in_versions_def vi)
  have snap: "fs_data fs t v = None" if "last_version fs t" "v \<noteq> ?cur" for v
    using versions_okD(5) [OF vok versions_okD(2) [OF vok cur tks] that(2)] that lv by auto
  have other: "fs_data fs' m v = fs_data fs m v" if "v \<noteq> ?cur" for m v
    using that snap [OF _ that] by (auto simp: d)
  have ch: "child fs' v m x = (if v = ?cur \<and> m = p \<and> x = name then None else child fs v m x)" for v m x
  proof -
    consider "m = p" "v = ?cur" | "m = t" "last_version fs t" | "m \<noteq> p \<or> v \<noteq> ?cur" "m \<noteq> t \<or> \<not> last_version fs t" by blast
    then show ?thesis
    proof cases
      case 1
      then show ?thesis using en path dm by (simp add: child_def)
    next
      case 2
      have "child fs v t x = None"
      proof (cases "v = ?cur")
        case True
        then show ?thesis using rm by (auto simp: removable_def child_def entries_def dir_map_def split: option.splits if_splits)
      next
        case False
        then show ?thesis using snap [OF 2(2) False] by (simp add: child_def entries_def)
      qed
      then show ?thesis using 2 pt by (simp add: child_def entries_def kd)
    next
      case 3
      then have "fs_data fs' m v = fs_data fs m v" "kind fs' m = kind fs m" by (auto simp: d kd)
      then have "child fs' v m = child fs v m" by (rule child_cong [rotated])
      then show ?thesis using 3(1) by auto
    qed
  qed
  have ino: "inode_of fs' m = None \<longleftrightarrow> inode_of fs m = None \<or> m = t \<and> last_version fs t" for m
    using kind_inode_of [of fs' m] kind_inode_of [of fs m] by (cases "m = t"; cases "last_version fs t") (auto simp: kd)
  have "versions_ok fs'"
  proof (rule versions_okI)
    show "distinct ks'" if "version_inodes fs' w = Some ks'" for w ks'
      using that versions_okD(1) [OF vok, of w ks'] dist by (auto simp: vi split: if_splits)
    show "inode_of fs' m \<noteq> None" if w: "version_inodes fs' w = Some ks'" "m \<in> set ks'" for w ks' m
    proof -
      have "w \<in> in_versions fs' m" using w by (auto simp: in_versions_def)
      then have "w \<in> in_versions fs m" "m = t \<longrightarrow> w \<noteq> ?cur" unfolding iv by (auto split: if_splits)
      moreover from this have "inode_of fs m \<noteq> None"
        using versions_okD(2) [OF vok, of w _ m] unfolding in_versions_def by blast
      ultimately show ?thesis unfolding ino lv by blast
    qed
    fix m n'
    assume l: "links fs' m = Some n'"
    have c: "links fs m = Some x \<Longrightarrow> x = card (in_versions fs m) \<and> 0 < x" for x
      using versions_okD(3,4) [OF vok, of m x] by simp
    show "n' = card (in_versions fs' m)"
      using l c finite_in_versions [of fs t] tv by (auto simp: lk iv split: if_splits)
    show "0 < n'"
    proof (cases "m = t")
      case True
      then have "n' = n - 1" "n \<noteq> 1" using l n(1) by (auto simp: lk last_version_def split: if_splits)
      then show ?thesis using c [of n] True n(1) by simp
    next
      case False
      then show ?thesis using l c by (simp add: lk)
    qed
  next
    show "fs_data fs' m w \<noteq> None \<longleftrightarrow> w \<in> in_versions fs' m" if w: "inode_of fs' m \<noteq> None" "w \<noteq> ?cur" for m w
      using w versions_okD(5) [OF vok, of m w] other [OF w(2), of m] unfolding ino iv by auto
  qed (use mok in \<open>simp_all add: vi\<close>)
  moreover have "tree_ok fs'" unfolding tree_ok_def
  proof (intro conjI allI impI)
    show "dirs_ok fs'" unfolding dirs_ok_def
    proof (intro allI impI)
      fix m w e
      assume e: "kind fs' m = Some True \<and> fs_data fs' m w = Some e"
      show "\<exists>path. dir_bytes path e"
      proof (cases "m = p \<and> w = ?cur")
        case True
        then show ?thesis using e db pt by (auto simp: d)
      next
        case False
        then have "kind fs m = Some True \<and> fs_data fs m w = Some e" using e by (auto simp: d kd split: if_splits)
        then show ?thesis using dok unfolding dirs_ok_def by blast
      qed
    qed
    show "kind fs' FILESYSTEM_ROOT_INODE_NUMBER = Some True" "?cur \<in> in_versions fs' FILESYSTEM_ROOT_INODE_NUMBER"
      using tree_ok_root [OF tok] tree_okD(2) [OF tok t] by (auto simp: kd iv)
    fix v m x s
    assume e: "child fs' v m x = Some s"
    then have e': "child fs v m x = Some s" "\<not> (v = ?cur \<and> m = p \<and> x = name)" by (auto simp: ch split: if_splits)
    show "v \<in> in_versions fs' s" using tree_okD(1,3) [OF tok e'(1)] t e'(2) by (auto simp: iv)
    show "s \<noteq> FILESYSTEM_ROOT_INODE_NUMBER" using tree_okD(2) [OF tok e'(1)] .
  next
    fix v m x m' x' s
    assume e: "child fs' v m x = Some s \<and> child fs' v m' x' = Some s"
    then have "child fs v m x = Some s" "child fs v m' x' = Some s" by (auto simp: ch split: if_splits)
    from tree_okD(3) [OF tok this] show "m = m'" "x = x'" by simp_all
  qed
  moreover have "child fs' = (child fs)(?cur := (child fs ?cur)(p := (child fs ?cur p)(name := None)))"
    by (auto simp: ch fun_eq_iff)
  moreover have "fs_data fs' m = fs_data fs m" if "m \<noteq> p \<and> m \<noteq> t" for m using that by (simp add: d)
  ultimately show ?thesis using run sok other kd lv vi b en rl unfolding fs_ok_def by (intro exI [of _ fs']) simp
qed

end
