(* ===== verification/Smi_Reach.thy ===== *)
theory Smi_Reach
  imports Smi_Removal
begin

text \<open>
  Sequences of file system operations as a step relation: every reachable state satisfies
  \<open>fs_ok\<close>, no guarded operation fails, and whatever happens after a snapshot was taken, its
  version keeps its tree and its bytes until it is deleted.
\<close>

section \<open>Operations and steps\<close>

datatype fs_op =
    Make nat string bool
  | Remove nat string
  | Write nat data_t nat
  | Overwrite nat data_t nat
  | Truncate nat nat
  | Snapshot string
  | Unsnapshot string

fun run_op :: "fs_op \<Rightarrow> unit smi_exec" where
  "run_op (Make p name d) = bindx (make_child_dentry_under_parent p name d) (\<lambda>_. ret ())"
| "run_op (Remove p name) = remove_child_dentry_under_parent p name"
| "run_op (Write k src offset) = bindx (on_inode k (inode_write src (length src) offset True False)) (\<lambda>_. ret ())"
| "run_op (Overwrite k src offset) = bindx (on_inode k (inode_write src (length src) offset False False)) (\<lambda>_. ret ())"
| "run_op (Truncate k n) = on_inode k (inode_truncate n)"
| "run_op (Snapshot v) = create_snapshot_volume v"
| "run_op (Unsnapshot v) = delete_snapshot_volume v"

text \<open>The guards: an argument that makes sense, and room in the pools and counters.\<close>

definition is_file :: "inode_smi_t \<Rightarrow> nat \<Rightarrow> bool" where
  "is_file fs k \<longleftrightarrow> kind fs k = Some False \<and> fs_data fs k FILESYSTEM_CUR_MODIFIABLE_VER \<noteq> None"

fun op_ok :: "inode_smi_t \<Rightarrow> fs_op \<Rightarrow> bool" where
  "op_ok fs (Make p name d) =
     (case entries fs FILESYSTEM_CUR_MODIFIABLE_VER p of None \<Rightarrow> False
      | Some path \<Rightarrow> valid_name name \<and> dir_map path name = None \<and> dir_room fs (Suc (length path))
          \<and> length (inode_pool fs) < inode_pool_max_size)"
| "op_ok fs (Remove p name) =
     (case entries fs FILESYSTEM_CUR_MODIFIABLE_VER p of None \<Rightarrow> False
      | Some path \<Rightarrow> (case dir_map path name of None \<Rightarrow> False | Some t \<Rightarrow> removable fs t)
          \<and> dir_room fs (length path) \<and> length (snapshot_version_list fs) < 2 ^ 64)"
| "op_ok fs (Write k src offset) = (is_file fs k \<and> src \<noteq> [] \<and> file_room fs (offset + length src))"
| "op_ok fs (Overwrite k src offset) =
     (is_file fs k \<and> src \<noteq> [] \<and> offset + length src < 2 ^ 64
      \<and> offset < length (the (fs_data fs k FILESYSTEM_CUR_MODIFIABLE_VER))
      \<and> length (buffer_pool fs) + length (the (fs_data fs k FILESYSTEM_CUR_MODIFIABLE_VER)) \<le> buffer_pool_max_size)"
| "op_ok fs (Truncate k n) = (is_file fs k \<and> file_room fs n)"
| "op_ok fs (Snapshot v) = (version_inodes fs v = None \<and> counters_ok fs \<and> length (snapshot_version_list fs) + 1 < 2 ^ 64)"
| "op_ok fs (Unsnapshot v) = (version_inodes fs v \<noteq> None \<and> v \<noteq> FILESYSTEM_CUR_MODIFIABLE_VER
      \<and> length (snapshot_version_list fs) < 2 ^ 64)"

inductive fs_step :: "inode_smi_t \<Rightarrow> fs_op \<Rightarrow> inode_smi_t \<Rightarrow> bool" where
  step: "op_ok fs op \<Longrightarrow> run_op op fs = (r, fs') \<Longrightarrow> fs_step fs op fs'"

inductive_cases fs_stepE: "fs_step fs op fs'"

inductive fs_steps :: "inode_smi_t \<Rightarrow> fs_op list \<Rightarrow> inode_smi_t \<Rightarrow> bool" where
  steps_Nil: "fs_steps fs [] fs"
| steps_Cons: "fs_step fs op fs' \<Longrightarrow> fs_steps fs' ops fs'' \<Longrightarrow> fs_steps fs (op # ops) fs''"

inductive_simps fs_steps_Nil: "fs_steps fs [] fs'"
inductive_simps fs_steps_Cons: "fs_steps fs (op # ops) fs'"

text \<open>A version that stays: what is bound to it, in kinds, bytes and the list of inodes.\<close>

definition version_kept :: "string \<Rightarrow> inode_smi_t \<Rightarrow> inode_smi_t \<Rightarrow> bool" where
  "version_kept v fs fs' \<longleftrightarrow> version_inodes fs' v = version_inodes fs v \<and>
     (\<forall>k. v \<in> in_versions fs k \<longrightarrow> kind fs' k = kind fs k \<and> fs_data fs' k v = fs_data fs k v)"

lemma version_kept_refl: "version_kept v fs fs"
  by (simp add: version_kept_def)

lemma version_kept_trans: "version_kept v fs fs1 \<Longrightarrow> version_kept v fs1 fs2 \<Longrightarrow> version_kept v fs fs2"
  by (auto simp: version_kept_def in_versions_def)

lemma current_list:
  assumes "fs_ok fs"
  obtains ks where "version_inodes fs FILESYSTEM_CUR_MODIFIABLE_VER = Some ks"
  using fs_okD(2) [OF assms] by (auto simp: versions_ok_def)

section \<open>Every guarded operation succeeds and keeps the invariant\<close>

lemma in_versions_inode: "versions_ok fs \<Longrightarrow> v \<in> in_versions fs k \<Longrightarrow> inode_of fs k \<noteq> None"
  using versions_okD(2) [of fs v _ k] by (auto simp: in_versions_def)

lemma run_op_ok:
  assumes ok: "fs_ok fs" and g: "op_ok fs op"
  shows "\<exists>fs'. run_op op fs = (Inr (), fs') \<and> fs_ok fs' \<and>
     (\<forall>v. v \<noteq> FILESYSTEM_CUR_MODIFIABLE_VER \<and> op \<noteq> Unsnapshot v \<and> version_inodes fs v \<noteq> None \<longrightarrow> version_kept v fs fs')"
proof -
  obtain ks where cur: "version_inodes fs FILESYSTEM_CUR_MODIFIABLE_VER = Some ks" using ok by (rule current_list)
  have kp: "version_kept v fs fs'"
    if "version_inodes fs' v = version_inodes fs v" "\<And>k. v \<in> in_versions fs k \<Longrightarrow> kind fs' k = kind fs k"
      "\<And>k. v \<in> in_versions fs k \<Longrightarrow> fs_data fs' k v = fs_data fs k v" for v fs'
    using that by (simp add: version_kept_def)
  show ?thesis
  proof (cases op)
    case (Make p name d)
    then obtain path where e: "entries fs FILESYSTEM_CUR_MODIFIABLE_VER p = Some path" and a: "valid_name name"
      "dir_map path name = None" "dir_room fs (Suc (length path))" "length (inode_pool fs) < inode_pool_max_size"
      using g by (auto split: option.splits)
    have "child fs FILESYSTEM_CUR_MODIFIABLE_VER p name = None" using e a(2) by (simp add: child_def)
    from make_child_fs_ok [OF ok e a(1) this a(3,4) cur, of d] obtain k fs' where
      r: "make_child_dentry_under_parent p name d fs = (Inr k, fs')" "inode_of fs k = None" "fs_ok fs'"
      and dt: "\<And>m v. m \<noteq> k \<Longrightarrow> m \<noteq> p \<or> v \<noteq> FILESYSTEM_CUR_MODIFIABLE_VER \<Longrightarrow> fs_data fs' m v = fs_data fs m v"
      and kd: "kind fs' = (kind fs)(k \<mapsto> d)"
      and vi: "version_inodes fs' = (version_inodes fs)(FILESYSTEM_CUR_MODIFIABLE_VER \<mapsto> ks @ [k])" by blast
    have "version_kept v fs fs'" if "v \<noteq> FILESYSTEM_CUR_MODIFIABLE_VER" for v
    proof (rule kp)
      fix m
      assume "v \<in> in_versions fs m"
      then have "m \<noteq> k" using in_versions_inode [OF fs_okD(2) [OF ok]] r(2) by blast
      then show "kind fs' m = kind fs m" "fs_data fs' m v = fs_data fs m v" using kd dt that by simp_all
    qed (use vi that in simp)
    then show ?thesis using r Make by (auto simp: exec_simps)
  next
    case (Remove p name)
    then obtain path t where e: "entries fs FILESYSTEM_CUR_MODIFIABLE_VER p = Some path" and a: "dir_map path name = Some t"
      "removable fs t" "dir_room fs (length path)" "length (snapshot_version_list fs) < 2 ^ 64"
      using g by (auto split: option.splits)
    have "child fs FILESYSTEM_CUR_MODIFIABLE_VER p name = Some t" using e a(1) by (simp add: child_def)
    from remove_child_fs_ok [OF ok e this a(2,3,4) cur] obtain fs' where
      r: "remove_child_dentry_under_parent p name fs = (Inr (), fs')" "fs_ok fs'"
      and dt: "\<And>m v. v \<noteq> FILESYSTEM_CUR_MODIFIABLE_VER \<Longrightarrow> fs_data fs' m v = fs_data fs m v"
      and kd: "kind fs' = (kind fs)(t := if in_versions fs t = {FILESYSTEM_CUR_MODIFIABLE_VER} then None else kind fs t)"
      and vi: "version_inodes fs' = (version_inodes fs)(FILESYSTEM_CUR_MODIFIABLE_VER \<mapsto> remove1 t ks)" by blast
    have "version_kept v fs fs'" if "v \<noteq> FILESYSTEM_CUR_MODIFIABLE_VER" for v
    proof (rule kp)
      fix m
      assume "v \<in> in_versions fs m"
      then show "kind fs' m = kind fs m" "fs_data fs' m v = fs_data fs m v" using that kd dt by auto
    qed (use vi that in simp)
    then show ?thesis using r Remove by auto
  next
    case (Write k src offset)
    then obtain c where k: "kind fs k = Some False" "fs_data fs k FILESYSTEM_CUR_MODIFIABLE_VER = Some c"
      and a: "file_room fs (offset + length src)" "0 < length src" "length src \<le> length src"
      using g by (auto simp: is_file_def)
    from write_resize_fs_ok [OF ok k a] show ?thesis
      unfolding Write by (auto simp: exec_simps version_kept_def)
  next
    case (Overwrite k src offset)
    then obtain c where k: "kind fs k = Some False" "fs_data fs k FILESYSTEM_CUR_MODIFIABLE_VER = Some c"
      and a: "length (buffer_pool fs) + length c \<le> buffer_pool_max_size" "offset + length src < 2 ^ 64"
        "0 < length src" "offset < length c" "length src \<le> length src"
      using g by (auto simp: is_file_def)
    from write_fixed_fs_ok [OF ok k a] show ?thesis
      unfolding Overwrite by (auto simp: exec_simps version_kept_def)
  next
    case (Truncate k n)
    then obtain c where k: "kind fs k = Some False" "fs_data fs k FILESYSTEM_CUR_MODIFIABLE_VER = Some c"
      and a: "file_room fs n"
      using g by (auto simp: is_file_def)
    from truncate_fs_ok [OF ok k a] show ?thesis
      unfolding Truncate by (auto simp: exec_simps version_kept_def)
  next
    case (Snapshot w)
    then have a: "version_inodes fs w = None" "counters_ok fs" "length (snapshot_version_list fs) + 1 < 2 ^ 64"
      using g by simp_all
    from create_snapshot_volume_fs_ok [OF ok cur a] obtain fs' where
      r: "create_snapshot_volume w fs = (Inr (), fs')" "fs_ok fs'"
      and dt: "fs_data fs' = (\<lambda>k. if k \<in> set ks then (fs_data fs k)(w := fs_data fs k FILESYSTEM_CUR_MODIFIABLE_VER) else fs_data fs k)"
      and vi: "version_inodes fs' = (version_inodes fs)(w \<mapsto> ks)" and kd: "kind fs' = kind fs" by blast
    have "version_kept v fs fs'" if "version_inodes fs v \<noteq> None" for v
      using that a(1) by (intro kp) (auto simp: vi kd dt)
    then show ?thesis using r Snapshot by auto
  next
    case (Unsnapshot w)
    then obtain ws where w: "version_inodes fs w = Some ws" and a: "w \<noteq> FILESYSTEM_CUR_MODIFIABLE_VER"
      "length (snapshot_version_list fs) < 2 ^ 64"
      using g by auto
    from delete_snapshot_volume_fs_ok [OF ok w a] obtain fs' where
      r: "delete_snapshot_volume w fs = (Inr (), fs')" "fs_ok fs'"
      and dt: "\<And>k x u. x \<noteq> w \<Longrightarrow> u \<noteq> w \<Longrightarrow> u \<in> in_versions fs k \<Longrightarrow> fs_data fs' k x = fs_data fs k x"
      and vi: "version_inodes fs' = (version_inodes fs)(w := None)"
      and kd: "\<And>k. kind fs' k = (if in_versions fs k = {w} then None else kind fs k)" by blast
    have "version_kept v fs fs'" if "v \<noteq> w" for v
    proof (rule kp)
      show "version_inodes fs' v = version_inodes fs v" using vi that by simp
      fix k
      assume v: "v \<in> in_versions fs k"
      then have "in_versions fs k \<noteq> {w}" using that by blast
      then show "kind fs' k = kind fs k" by (simp add: kd)
      show "fs_data fs' k v = fs_data fs k v" using that that v by (rule dt)
    qed
    then show ?thesis using r Unsnapshot by auto
  qed
qed

lemma fs_step_ok:
  assumes "fs_ok fs" and "fs_step fs op fs'"
  shows "fs_ok fs'"
    and "v \<noteq> FILESYSTEM_CUR_MODIFIABLE_VER \<Longrightarrow> op \<noteq> Unsnapshot v \<Longrightarrow> version_inodes fs v \<noteq> None \<Longrightarrow> version_kept v fs fs'"
proof -
  from assms(2) obtain r where g: "op_ok fs op" and run: "run_op op fs = (r, fs')" by (rule fs_stepE)
  from run_op_ok [OF assms(1) g] run show "fs_ok fs'" by simp
  from run_op_ok [OF assms(1) g] run show
    "v \<noteq> FILESYSTEM_CUR_MODIFIABLE_VER \<Longrightarrow> op \<noteq> Unsnapshot v \<Longrightarrow> version_inodes fs v \<noteq> None \<Longrightarrow> version_kept v fs fs'" by auto
qed

lemma fs_steps_ok: "fs_steps fs ops fs' \<Longrightarrow> fs_ok fs \<Longrightarrow> fs_ok fs'"
  by (induction rule: fs_steps.induct) (auto dest: fs_step_ok(1))

lemma fs_steps_kept:
  "fs_steps fs ops fs' \<Longrightarrow> fs_ok fs \<Longrightarrow> v \<noteq> FILESYSTEM_CUR_MODIFIABLE_VER \<Longrightarrow> Unsnapshot v \<notin> set ops \<Longrightarrow>
   version_inodes fs v \<noteq> None \<Longrightarrow> version_kept v fs fs'"
proof (induction rule: fs_steps.induct)
  case (steps_Nil fs)
  show ?case by (rule version_kept_refl)
next
  case (steps_Cons fs op fs' ops fs'')
  have k: "version_kept v fs fs'" using steps_Cons.prems by (intro fs_step_ok(2) [OF steps_Cons.prems(1) steps_Cons.hyps(1)]) auto
  then have "version_inodes fs' v \<noteq> None" using steps_Cons.prems(4) by (simp add: version_kept_def)
  then have "version_kept v fs' fs''"
    using steps_Cons.prems fs_step_ok(1) [OF steps_Cons.prems(1) steps_Cons.hyps(1)] by (intro steps_Cons.IH) simp_all
  with k show ?case by (rule version_kept_trans)
qed

section \<open>What is seen through a version that is kept\<close>

lemma version_kept_child:
  assumes "version_kept v fs fs'" and "v \<in> in_versions fs k"
  shows "child fs' v k = child fs v k"
  using assms by (intro child_cong) (simp_all add: version_kept_def)

lemma version_kept_resolve:
  assumes ok: "fs_ok fs" and kept: "version_kept v fs fs'" and root: "v \<in> in_versions fs k"
  shows "resolve fs' v p k = resolve fs v p k"
proof (rule resolve_same [where P = "\<lambda>k. v \<in> in_versions fs k"])
  show "kind fs' k = kind fs k \<and> fs_data fs' k v = fs_data fs k v" if "v \<in> in_versions fs k" for k
    using kept that by (simp add: version_kept_def)
  show "v \<in> in_versions fs t" if "child fs v k n = Some t" for k n t
    using tree_okD(1) [OF fs_okD(3) [OF ok] that] .
qed (rule root)

text \<open>Right after the snapshot the new version resolves as the current one.\<close>

lemma create_snapshot_resolve:
  assumes ok: "fs_ok fs" and cur: "version_inodes fs FILESYSTEM_CUR_MODIFIABLE_VER = Some ks"
    and d: "fs_data fs' = (\<lambda>k. if k \<in> set ks then (fs_data fs k)(v := fs_data fs k FILESYSTEM_CUR_MODIFIABLE_VER) else fs_data fs k)"
    and kd: "kind fs' = kind fs" and k: "k \<in> set ks"
  shows "resolve fs' v p k = resolve fs FILESYSTEM_CUR_MODIFIABLE_VER p k"
proof (rule resolve_same [where P = "\<lambda>k. k \<in> set ks"])
  show "kind fs' k = kind fs k \<and> fs_data fs' k v = fs_data fs k FILESYSTEM_CUR_MODIFIABLE_VER" if "k \<in> set ks" for k
    using that d kd by simp
  show "t \<in> set ks" if "child fs FILESYSTEM_CUR_MODIFIABLE_VER k n = Some t" for k n t
    using tree_okD(1) [OF fs_okD(3) [OF ok] that] cur by (simp add: in_versions_def)
qed (rule k)

section \<open>A snapshot seen after later operations\<close>

lemma resolve_in_version:
  assumes "fs_ok fs" and "resolve fs v p k = Inr t" and "v \<in> in_versions fs k"
  shows "v \<in> in_versions fs t"
  using assms(2,3)
proof (induction p arbitrary: k)
  case Nil
  then show ?case by simp
next
  case (Cons n p)
  then obtain s where "child fs v k n = Some s" "resolve fs v p s = Inr t"
    by (auto split: option.splits bool.splits if_splits)
  then show ?case using tree_okD(1) [OF fs_okD(3) [OF assms(1)]] Cons.IH by blast
qed

text \<open>Any guarded operations but the deletion of the version itself may have run since.\<close>

lemma snapshot_later:
  assumes ok: "fs_ok fs" and g: "op_ok fs (Snapshot v)" and cr: "create_snapshot_volume v fs = (Inr (), fs1)"
    and st: "fs_steps fs1 ops fs2" and un: "Unsnapshot v \<notin> set ops"
  shows "fs_ok fs2" and "version_inodes fs2 v \<noteq> None"
    and "resolve fs2 v p FILESYSTEM_ROOT_INODE_NUMBER = resolve fs FILESYSTEM_CUR_MODIFIABLE_VER p FILESYSTEM_ROOT_INODE_NUMBER"
    and "FILESYSTEM_CUR_MODIFIABLE_VER \<in> in_versions fs k \<Longrightarrow> fs_data fs2 k v = fs_data fs k FILESYSTEM_CUR_MODIFIABLE_VER"
proof -
  obtain ks where cur: "version_inodes fs FILESYSTEM_CUR_MODIFIABLE_VER = Some ks" using ok by (rule current_list)
  have new: "version_inodes fs v = None" and vc: "v \<noteq> FILESYSTEM_CUR_MODIFIABLE_VER" using g cur by auto
  have ok1: "fs_ok fs1"
    and d: "fs_data fs1 = (\<lambda>k. if k \<in> set ks then (fs_data fs k)(v := fs_data fs k FILESYSTEM_CUR_MODIFIABLE_VER) else fs_data fs k)"
    and vi: "version_inodes fs1 = (version_inodes fs)(v \<mapsto> ks)" and kd: "kind fs1 = kind fs"
    using create_snapshot_volume_fs_ok [OF ok cur new] g cr by auto
  have in_ks: "FILESYSTEM_CUR_MODIFIABLE_VER \<in> in_versions fs k \<longleftrightarrow> k \<in> set ks" "v \<in> in_versions fs1 k \<longleftrightarrow> k \<in> set ks" for k
    using cur by (simp_all add: in_versions_def vi)
  have root: "FILESYSTEM_ROOT_INODE_NUMBER \<in> set ks" using tree_ok_root(2) [OF fs_okD(3) [OF ok]] in_ks by simp
  have kept: "version_kept v fs1 fs2" using fs_steps_kept [OF st ok1 vc un] by (simp add: vi)
  show "fs_ok fs2" using st ok1 by (rule fs_steps_ok)
  show "version_inodes fs2 v \<noteq> None" using kept by (simp add: version_kept_def vi)
  show "resolve fs2 v p FILESYSTEM_ROOT_INODE_NUMBER = resolve fs FILESYSTEM_CUR_MODIFIABLE_VER p FILESYSTEM_ROOT_INODE_NUMBER"
    using version_kept_resolve [OF ok1 kept] create_snapshot_resolve [OF ok cur d kd root] root in_ks by simp
  show "fs_data fs2 k v = fs_data fs k FILESYSTEM_CUR_MODIFIABLE_VER" if "FILESYSTEM_CUR_MODIFIABLE_VER \<in> in_versions fs k"
    using that kept in_ks by (simp add: version_kept_def d)
qed

text \<open>The same on the paths the program is given.\<close>

lemma path_to_string_slash: "\<forall>n\<in>set p. component n \<Longrightarrow> p \<noteq> [] \<Longrightarrow> path_to_string p \<noteq> [] \<and> hd (path_to_string p) = slash"
  by (cases p) (auto simp: component_def)

lemma locate_current:
  assumes "\<forall>n\<in>set p. component n" and "p = [] \<or> hd p \<noteq> ''.snapshot''"
  shows "locate fs (path_to_string p) = resolve fs FILESYSTEM_CUR_MODIFIABLE_VER p FILESYSTEM_ROOT_INODE_NUMBER"
  using assms components_path_to_string [OF assms(1)] path_to_string_slash [OF assms(1)]
  by (cases p) (auto simp: locate_def)

lemma locate_version:
  assumes "component v" and "v \<noteq> FILESYSTEM_CUR_MODIFIABLE_VER" and "\<forall>n\<in>set p. component n" and "version_inodes fs v \<noteq> None"
  shows "locate fs (make_path_with_version (path_to_string p) v) = resolve fs v p FILESYSTEM_ROOT_INODE_NUMBER"
proof -
  have "make_path_with_version (path_to_string p) v \<noteq> []" "hd (make_path_with_version (path_to_string p) v) = slash"
    using assms(2) by (simp_all add: make_path_with_version_def)
  then show ?thesis
    using assms(2,4) components_with_version [OF assms(1-3)] by (auto simp: locate_def)
qed

end
