(* ===== verification/Fuse.thy ===== *)
theory Fuse
  imports Smi
begin

text \<open>
  The FUSE handlers of \<open>fuse.cpp\<close>. A handler works on the file system object and returns the
  number FUSE gets; what it stores through a pointer of the caller is part of its state or of
  its result. The operating system is a parameter: the clock, the identity of the process and
  the value \<open>errno\<close> has when a standard exception is caught.
\<close>

unbundle bit_operations_syntax

section \<open>The environment\<close>

text \<open>\<open>clock\<close> gives the result of the \<open>n\<close>-th call of \<open>get_current_time\<close> in one handler.\<close>

record env =
  clock :: "nat \<Rightarrow> timespec"
  the_uid :: nat
  the_gid :: nat
  sys_errno :: nat

definition S_IFDIR :: nat where "S_IFDIR = 0x4000"
definition S_IFREG :: nat where "S_IFREG = 0x8000"
definition S_IFLNK :: nat where "S_IFLNK = 0xA000"
definition mode_755 :: nat where "mode_755 = 0x1ED"

lemmas mode_defs = S_IFDIR_def S_IFREG_def S_IFLNK_def mode_755_def

definition SNAPSHOT_ENTRY :: string where "SNAPSHOT_ENTRY = ''.snapshot''"

text \<open>The conversions between the integer types: \<open>(int)\<close> of 64 bits, \<open>off_t\<close> and back.\<close>

definition to_int32 :: "nat \<Rightarrow> int" where
  "to_int32 n = (int n + 2 ^ 31) mod 2 ^ 32 - 2 ^ 31"

definition to_off_t :: "nat \<Rightarrow> int" where
  "to_off_t n = (int n + 2 ^ 63) mod 2 ^ 64 - 2 ^ 63"

definition of_off_t :: "int \<Rightarrow> nat" where
  "of_off_t z = nat (z mod 2 ^ 64)"

section \<open>What the handlers share\<close>

text \<open>
  \<open>CATCH_TAIL\<close>. Undefined behaviour is no exception, so nothing catches it.
\<close>

definition catch_tail :: "env \<Rightarrow> ('s, exc, int) exec \<Rightarrow> ('s, exc, int) exec" where
  "catch_tail env m = catchx m (\<lambda>e. case e of
       HTMPFS_error_t c \<Rightarrow> ret (- int (errno_of c))
     | Std_out_of_range \<Rightarrow> ret (- int (sys_errno env))
     | Undefined_behaviour \<Rightarrow> throw Undefined_behaviour)"

text \<open>The same for a handler that also stores bytes: none are reported on an error.\<close>

definition catch_tail_data :: "env \<Rightarrow> ('s, exc, int \<times> data_t) exec \<Rightarrow> ('s, exc, int \<times> data_t) exec" where
  "catch_tail_data env m = catchx m (\<lambda>e. bindx (catch_tail env (throw e)) (\<lambda>r. ret (r, [])))"

text \<open>\<open>CHECK_RDONLY_FS\<close>, with the rest of the handler as its continuation.\<close>

definition check_rdonly_fs :: "string \<Rightarrow> int smi_exec \<Rightarrow> int smi_exec" where
  "check_rdonly_fs path rest =
     bindx (liftx (if_snapshot path [])) (\<lambda>(version, parsed_path).
     if version \<noteq> FILESYSTEM_CUR_MODIFIABLE_VER then ret (- int EROFS) else rest)"

definition inode_by_path :: "string \<Rightarrow> nat smi_exec" where
  "inode_by_path path = bindx (get_inode_id_by_path path) get_inode_by_id"

text \<open>Assignments to \<open>inode->fs_stat\<close>.\<close>

definition on_stat :: "nat \<Rightarrow> (stat \<Rightarrow> stat) \<Rightarrow> unit smi_exec" where
  "on_stat k f = on_inode k (modifyx (\<lambda>(i, bp). (i\<lparr>fs_stat := f (fs_stat i)\<rparr>, bp)))"

definition get_stat :: "nat \<Rightarrow> stat smi_exec" where
  "get_stat k = on_inode k (getx (\<lambda>s. fs_stat (fst s)))"

text \<open>
  Two handlers also store something for their caller: their state is the file system with
  what has been stored so far.
\<close>

definition on_fs :: "'a smi_exec \<Rightarrow> (inode_smi_t \<times> 'o, exc, 'a) exec" where
  "on_fs m = zoomx fst (\<lambda>fs s. (fs, snd s)) m"

definition set_out :: "('o \<Rightarrow> 'o) \<Rightarrow> (inode_smi_t \<times> 'o, exc, unit) exec" where
  "set_out f = modifyx (\<lambda>(fs, out). (fs, f out))"

section \<open>Attributes\<close>

definition do_getattr :: "env \<Rightarrow> string \<Rightarrow> (inode_smi_t \<times> stat, exc, int) exec" where
  "do_getattr env path =
     catch_tail env
        (if path = ''/'' @ SNAPSHOT_ENTRY then
           bindx (set_out (\<lambda>s. s\<lparr>st_ctim := clock env 0, st_atim := clock env 1, st_mtim := clock env 2,
             st_ino := 0, st_mode := mode_755 OR S_IFDIR, st_gid := the_gid env, st_uid := the_uid env,
             st_nlink := 1, st_size := 0\<rparr>)) (\<lambda>_. ret 0)
         else
           bindx (liftx (if_snapshot path [])) (\<lambda>(version, parsed_path).
           bindx (on_fs (get_inode_id_by_path path)) (\<lambda>ino.
           bindx (on_fs (get_inode_by_id ino)) (\<lambda>k.
           bindx (on_fs (get_stat k)) (\<lambda>st.
           bindx (set_out (\<lambda>_. st)) (\<lambda>_.
           bindx (on_fs (on_inode k (current_data_size version))) (\<lambda>sz.
           bindx (set_out (\<lambda>s. s\<lparr>st_size := to_off_t sz\<rparr>)) (\<lambda>_.
           bindx (on_fs (count_link_for_inode ino)) (\<lambda>n.
           bindx (set_out (\<lambda>s. s\<lparr>st_nlink := n\<rparr>)) (\<lambda>_.
           bindx (set_out (\<lambda>s. s\<lparr>st_ino := ino\<rparr>)) (\<lambda>_. ret 0)))))))))))"

definition do_fgetattr :: "env \<Rightarrow> string \<Rightarrow> (inode_smi_t \<times> stat, exc, int) exec" where
  "do_fgetattr env path = do_getattr env path"

definition do_chmod :: "env \<Rightarrow> string \<Rightarrow> nat \<Rightarrow> int smi_exec" where
  "do_chmod env path mode =
     catch_tail env (check_rdonly_fs path
       (bindx (inode_by_path path) (\<lambda>k.
        bindx (on_stat k (\<lambda>s. s\<lparr>st_mode := mode, st_ctim := clock env 0\<rparr>)) (\<lambda>_. ret 0))))"

definition do_chown :: "env \<Rightarrow> string \<Rightarrow> nat \<Rightarrow> nat \<Rightarrow> int smi_exec" where
  "do_chown env path uid gid =
     catch_tail env (check_rdonly_fs path
       (bindx (inode_by_path path) (\<lambda>k.
        bindx (on_stat k (\<lambda>s. s\<lparr>st_uid := uid, st_gid := gid, st_ctim := clock env 0\<rparr>)) (\<lambda>_. ret 0))))"

definition do_utimens :: "env \<Rightarrow> string \<Rightarrow> timespec \<Rightarrow> timespec \<Rightarrow> int smi_exec" where
  "do_utimens env path tv0 tv1 =
     catch_tail env (check_rdonly_fs path
       (bindx (inode_by_path path) (\<lambda>k.
        bindx (on_stat k (\<lambda>s. s\<lparr>st_atim := tv0, st_mtim := tv1\<rparr>)) (\<lambda>_. ret 0))))"

text \<open>\<open>mode\<close> is one of the access masks 0 to 7; \<open>-!x\<close> is 0 or -1.\<close>

definition do_access :: "env \<Rightarrow> string \<Rightarrow> nat \<Rightarrow> int smi_exec" where
  "do_access env path mode =
     catch_tail env
       (if path = ''/'' @ SNAPSHOT_ENTRY then ret 0
        else
        bindx (inode_by_path path) (\<lambda>k.
        if mode = 0 then ret 0
        else
        bindx (get_stat k) (\<lambda>st.
        let mode' = push_bit 6 mode AND 0x01C0 in
        ret (if mode' AND st_mode st = 0 then -1 else 0))))"

section \<open>Directories\<close>

text \<open>The names given to \<open>filler\<close> are appended to a list; its result is ignored.\<close>

definition filler :: "string list \<Rightarrow> (inode_smi_t \<times> string list, exc, unit) exec" where
  "filler ns = set_out (\<lambda>out. out @ ns)"

definition do_readdir :: "env \<Rightarrow> string \<Rightarrow> (inode_smi_t \<times> string list, exc, int) exec" where
  "do_readdir env path =
     catch_tail env
        (bindx (filler [''.'', ''..'']) (\<lambda>_.
         bindx (if path = ''/'' then filler [SNAPSHOT_ENTRY] else ret ()) (\<lambda>_.
         if path = ''/'' @ SNAPSHOT_ENTRY then
           bindx (on_fs (getx snapshot_version_list)) (\<lambda>vs.
           bindx (filler (map (\<lambda>i. c_str (fst i)) vs)) (\<lambda>_. ret 0))
         else
           bindx (liftx (if_snapshot path [])) (\<lambda>(version, parsed_path).
           bindx (on_fs (inode_by_path path)) (\<lambda>k.
           bindx (on_fs (on_inode k (new_directory_resolver_t version))) (\<lambda>directoryResolver.
           bindx (filler (map (\<lambda>i. c_str (pathname i)) (to_vector directoryResolver))) (\<lambda>_. ret 0)))))))"

text \<open>A path whose parent is the snapshot directory.\<close>

definition under_snapshot_entry :: "path_t \<Rightarrow> bool" where
  "under_snapshot_entry vpath \<longleftrightarrow> length vpath = 2 \<and> last vpath = SNAPSHOT_ENTRY"

definition do_mkdir :: "env \<Rightarrow> string \<Rightarrow> nat \<Rightarrow> int smi_exec" where
  "do_mkdir env path mode =
     catch_tail env
       (bindx (liftx (path_pop_end (new_path_t path))) (\<lambda>(target_name, vpath).
        if target_name = [] then throw (HTMPFS_error_t HTMPFS_INVALID_DENTRY_NAME)
        else if under_snapshot_entry vpath then
          bindx (create_snapshot_volume target_name) (\<lambda>_. ret 0)
        else check_rdonly_fs path
          (bindx (get_inode_id_by_path (path_to_string vpath)) (\<lambda>parent_id.
           bindx (make_child_dentry_under_parent parent_id target_name True) (\<lambda>child_id.
           bindx (get_inode_by_id child_id) (\<lambda>k.
           bindx (on_stat k (\<lambda>s. s\<lparr>st_size := 0, st_ctim := clock env 0, st_atim := clock env 1,
             st_mtim := clock env 2, st_ino := FILESYSTEM_ROOT_INODE_NUMBER, st_mode := mode OR S_IFDIR,
             st_nlink := 1\<rparr>)) (\<lambda>_. ret 0)))))))"

definition do_rmdir :: "env \<Rightarrow> string \<Rightarrow> int smi_exec" where
  "do_rmdir env path =
     catch_tail env
       (bindx (liftx (path_pop_end (new_path_t path))) (\<lambda>(target_name, vpath).
        if target_name = [] then throw (HTMPFS_error_t HTMPFS_INVALID_DENTRY_NAME)
        else if target_name = SNAPSHOT_ENTRY then ret (- int EROFS)
        else if under_snapshot_entry vpath then
          bindx (delete_snapshot_volume target_name) (\<lambda>_. ret 0)
        else check_rdonly_fs path (bindx (remove_inode_by_path path) (\<lambda>_. ret 0))))"

definition do_unlink :: "env \<Rightarrow> string \<Rightarrow> int smi_exec" where
  "do_unlink env path =
     catch_tail env (check_rdonly_fs path (bindx (remove_inode_by_path path) (\<lambda>_. ret 0)))"

section \<open>Making files\<close>

definition do_create :: "env \<Rightarrow> string \<Rightarrow> nat \<Rightarrow> int smi_exec" where
  "do_create env path mode =
     catch_tail env (check_rdonly_fs path
       (bindx (liftx (path_pop_end (new_path_t path))) (\<lambda>(target_name, vpath).
        if length vpath = 0 then throw (HTMPFS_error_t HTMPFS_INVALID_DENTRY_NAME)
        else
        bindx (get_inode_id_by_path (path_to_string vpath)) (\<lambda>ino.
        bindx (make_child_dentry_under_parent ino target_name False) (\<lambda>new_target_id.
        bindx (get_inode_by_id new_target_id) (\<lambda>k.
        let cur_time = clock env 0 in
        bindx (on_stat k (\<lambda>s. s\<lparr>st_mode := mode, st_nlink := 1, st_atim := cur_time, st_ctim := cur_time,
          st_mtim := cur_time, st_gid := the_gid env, st_uid := the_uid env\<rparr>)) (\<lambda>_. ret 0)))))))"

definition do_mknod :: "env \<Rightarrow> string \<Rightarrow> nat \<Rightarrow> nat \<Rightarrow> int smi_exec" where
  "do_mknod env path mode device =
     catch_tail env (check_rdonly_fs path
       (bindx (liftx (path_pop_end (new_path_t path))) (\<lambda>(target_name, vpath).
        if target_name = [] then throw (HTMPFS_error_t HTMPFS_INVALID_DENTRY_NAME)
        else
        bindx (get_inode_id_by_path (path_to_string vpath)) (\<lambda>ino.
        bindx (make_child_dentry_under_parent ino target_name False) (\<lambda>new_inode_id.
        bindx (get_inode_by_id new_inode_id) (\<lambda>k.
        let cur_time = clock env 0 in
        bindx (on_stat k (\<lambda>s. s\<lparr>st_mode := mode, st_nlink := 1, st_atim := cur_time, st_ctim := cur_time,
          st_mtim := cur_time, st_dev := device\<rparr>)) (\<lambda>_. ret 0)))))))"

text \<open>
  \<open>target\<close> is the second argument, which FUSE gives the path of the new link; the same
  string is written into the link.
\<close>

definition do_symlink :: "env \<Rightarrow> string \<Rightarrow> string \<Rightarrow> int smi_exec" where
  "do_symlink env path target =
     catch_tail env (check_rdonly_fs path (check_rdonly_fs target
       (bindx (liftx (path_pop_end (new_path_t target))) (\<lambda>(target_name, vpath).
        if target_name = [] then throw (HTMPFS_error_t HTMPFS_INVALID_DENTRY_NAME)
        else
        bindx (get_inode_id_by_path (path_to_string vpath)) (\<lambda>parent_inode.
        bindx (make_child_dentry_under_parent parent_inode target_name False) (\<lambda>new_inode_id.
        bindx (get_inode_by_id new_inode_id) (\<lambda>k.
        let cur_time = clock env 0 in
        bindx (on_stat k (\<lambda>s. s\<lparr>st_mode := S_IFLNK OR mode_755, st_nlink := 1, st_atim := cur_time,
          st_ctim := cur_time, st_mtim := cur_time, st_size := to_off_t (length target)\<rparr>)) (\<lambda>_.
        bindx (on_inode k (inode_write target (length target) 0 True False)) (\<lambda>_. ret 0)))))))))"

section \<open>File contents\<close>

definition do_open :: "env \<Rightarrow> string \<Rightarrow> int smi_exec" where
  "do_open env path =
     catch_tail env
       (if path = ''/'' @ SNAPSHOT_ENTRY then ret 0
        else bindx (get_inode_id_by_path path) (\<lambda>_. ret 0))"

text \<open>The number returned and the bytes stored at \<open>buffer\<close>.\<close>

definition do_read :: "env \<Rightarrow> string \<Rightarrow> nat \<Rightarrow> int \<Rightarrow> (int \<times> data_t) smi_exec" where
  "do_read env path sz offset =
     catch_tail_data env
       (bindx (liftx (if_snapshot path [])) (\<lambda>(version, parsed_path).
        bindx (inode_by_path path) (\<lambda>k.
        bindx (on_stat k (\<lambda>s. s\<lparr>st_atim := clock env 0\<rparr>)) (\<lambda>_.
        bindx (on_inode k (inode_read version sz (of_off_t offset))) (\<lambda>cs.
        ret (to_int32 (length cs), cs))))))"

definition do_write :: "env \<Rightarrow> string \<Rightarrow> data_t \<Rightarrow> nat \<Rightarrow> int \<Rightarrow> int smi_exec" where
  "do_write env path src sz offset =
     catch_tail env (check_rdonly_fs path
       (bindx (inode_by_path path) (\<lambda>k.
        bindx (on_inode k (current_data_size FILESYSTEM_CUR_MODIFIABLE_VER)) (\<lambda>current_data_sz.
        bindx (on_stat k (\<lambda>s. s\<lparr>st_mtim := clock env 0\<rparr>)) (\<lambda>_.
        let if_resize = (add64 (of_off_t offset) sz > current_data_sz) in
        bindx (on_inode k (inode_write src sz (of_off_t offset) if_resize False)) (\<lambda>n.
        ret (to_int32 n)))))))"

text \<open>
  The inner \<open>try\<close> of \<open>do_truncate\<close>: a missing file is made; after any other error of the
  program's own the pointer \<open>inode\<close> has no value, and its use below is undefined.
\<close>

definition inode_to_truncate :: "env \<Rightarrow> string \<Rightarrow> int \<Rightarrow> nat option smi_exec" where
  "inode_to_truncate env path sz =
     catchx (bindx (inode_by_path path) (\<lambda>k. ret (Some k)))
       (\<lambda>e. case e of
          HTMPFS_error_t c \<Rightarrow>
            if c = HTMPFS_NO_SUCH_FILE_OR_DIR then
              bindx (liftx (path_pop_end (new_path_t path))) (\<lambda>(target_name, vpath).
              if length vpath = 0 then throw (HTMPFS_error_t HTMPFS_INVALID_DENTRY_NAME)
              else
              bindx (get_inode_id_by_path (path_to_string vpath)) (\<lambda>ino.
              bindx (make_child_dentry_under_parent ino target_name False) (\<lambda>new_inode_id.
              bindx (get_inode_by_id new_inode_id) (\<lambda>k.
              let cur_time = clock env 0 in
              bindx (on_stat k (\<lambda>s. s\<lparr>st_size := sz, st_nlink := 1, st_atim := cur_time,
                st_ctim := cur_time, st_mtim := cur_time\<rparr>)) (\<lambda>_. ret (Some k))))))
            else ret None
        | _ \<Rightarrow> throw e)"

definition do_truncate :: "env \<Rightarrow> string \<Rightarrow> int \<Rightarrow> int smi_exec" where
  "do_truncate env path sz =
     catch_tail env (check_rdonly_fs path
       (bindx (inode_to_truncate env path sz) (\<lambda>found. case found of
            None \<Rightarrow> throw Undefined_behaviour
          | Some k \<Rightarrow> bindx (on_inode k (inode_truncate (of_off_t sz))) (\<lambda>_. ret 0))))"

definition do_ftruncate :: "env \<Rightarrow> string \<Rightarrow> int \<Rightarrow> int smi_exec" where
  "do_ftruncate env path len = do_truncate env path len"

text \<open>The sum of two \<open>off_t\<close> is undefined when it overflows.\<close>

definition add_off_t :: "int \<Rightarrow> int \<Rightarrow> exc + int" where
  "add_off_t a b = (if - (2 ^ 63) \<le> a + b \<and> a + b < 2 ^ 63 then Inr (a + b) else Inl Undefined_behaviour)"

definition do_fallocate :: "env \<Rightarrow> string \<Rightarrow> nat \<Rightarrow> int \<Rightarrow> int \<Rightarrow> int smi_exec" where
  "do_fallocate env path mode offset len =
     catch_tail env (check_rdonly_fs path
       (bindx (inode_by_path path) (\<lambda>k.
        let cur_time = clock env 0 in
        bindx (on_stat k (\<lambda>s. s\<lparr>st_mode := mode OR S_IFREG, st_nlink := 1, st_ctim := cur_time\<rparr>)) (\<lambda>_.
        bindx (liftx (add_off_t offset len)) (\<lambda>n.
        bindx (on_stat k (\<lambda>s. s\<lparr>st_size := n\<rparr>)) (\<lambda>_.
        bindx (on_inode k (inode_truncate (of_off_t n))) (\<lambda>_. ret 0)))))))"

definition do_readlink :: "env \<Rightarrow> string \<Rightarrow> nat \<Rightarrow> (int \<times> data_t) smi_exec" where
  "do_readlink env path sz =
     catch_tail_data env
       (bindx (liftx (if_snapshot path [])) (\<lambda>(version, parsed_path).
        bindx (inode_by_path path) (\<lambda>k.
        bindx (get_stat k) (\<lambda>st.
        if st_mode st AND S_IFLNK \<noteq> 0 then
          bindx (on_inode k (inode_read version sz 0)) (\<lambda>cs. ret (0, cs))
        else ret (- int EINVAL, [])))))"

section \<open>Renaming\<close>

text \<open>The first half of \<open>do_rename\<close>: the new entry, in place of an existing one.\<close>

definition rename_add :: "nat \<Rightarrow> dentries \<Rightarrow> string \<Rightarrow> nat \<Rightarrow> unit smi_exec" where
  "rename_add target_parent tag_directoryResolver target_name ino =
     catchx
       (bindx (liftx (add_path tag_directoryResolver target_name ino)) (\<lambda>path.
        on_inode target_parent (save_current path)))
       (\<lambda>e. if e \<noteq> HTMPFS_error_t HTMPFS_DOUBLE_MKPATHNAME then throw e
            else
            bindx (remove_child_dentry_under_parent target_parent target_name) (\<lambda>_.
            bindx (on_inode target_parent (refresh FILESYSTEM_CUR_MODIFIABLE_VER)) (\<lambda>path.
            bindx (liftx (add_path path target_name ino)) (\<lambda>path'.
            on_inode target_parent (save_current path')))))"

definition do_rename :: "env \<Rightarrow> string \<Rightarrow> string \<Rightarrow> int smi_exec" where
  "do_rename env path name =
     catch_tail env (check_rdonly_fs path (check_rdonly_fs name
       (bindx (get_inode_id_by_path path) (\<lambda>ino.
        bindx (liftx (path_pop_end (new_path_t path))) (\<lambda>(original_name, original).
        if length original = 0 then throw (HTMPFS_error_t HTMPFS_INVALID_DENTRY_NAME)
        else
        bindx (liftx (path_pop_end (new_path_t name))) (\<lambda>(target_name, target).
        if length target = 0 then throw (HTMPFS_error_t HTMPFS_INVALID_DENTRY_NAME)
        else
        bindx (get_inode_id_by_path (path_to_string target)) (\<lambda>target_parent_inode_id.
        bindx (get_inode_by_id target_parent_inode_id) (\<lambda>target_parent.
        bindx (on_inode target_parent (new_directory_resolver_t FILESYSTEM_CUR_MODIFIABLE_VER)) (\<lambda>tag_directoryResolver.
        bindx (rename_add target_parent tag_directoryResolver target_name ino) (\<lambda>_.
        bindx (get_inode_id_by_path (path_to_string original)) (\<lambda>parent_inode_id.
        bindx (get_inode_by_id parent_inode_id) (\<lambda>parent.
        bindx (on_inode parent (new_directory_resolver_t FILESYSTEM_CUR_MODIFIABLE_VER)) (\<lambda>ori_directoryResolver.
        bindx (liftx (remove_path ori_directoryResolver original_name)) (\<lambda>path'.
        bindx (on_inode parent (save_current path')) (\<lambda>_. ret 0)))))))))))))))"

section \<open>Handlers without effect, start-up\<close>

definition do_flush :: "string \<Rightarrow> int" where "do_flush path = 0"
definition do_release :: "string \<Rightarrow> int" where "do_release path = 0"
definition do_fsync :: "string \<Rightarrow> int" where "do_fsync path = 0"
definition do_releasedir :: "string \<Rightarrow> int" where "do_releasedir path = 0"
definition do_fsyncdir :: "string \<Rightarrow> int" where "do_fsyncdir path = 0"

text \<open>\<open>do_init\<close> sets one capability bit, whose value is FUSE's.\<close>

definition do_init :: "nat \<Rightarrow> nat \<Rightarrow> nat" where
  "do_init fuse_cap_atomic_o_trunc capable = capable OR fuse_cap_atomic_o_trunc"

definition do_destroy :: "unit smi_exec" where
  "do_destroy = ret ()"

text \<open>
  \<open>dereference_inode\<close> is not called. It ends without a \<open>return\<close>, which is undefined when its
  end is reached.
\<close>

definition dereference_inode :: "nat \<Rightarrow> string \<Rightarrow> string smi_exec" where
  "dereference_inode root_inode version =
     bindx (get_inode_by_id root_inode) (\<lambda>k.
     bindx (on_inode k (inode_to_string version)) (\<lambda>_. throw Undefined_behaviour))"

end
