(* ===== verification/Fuse_Files.thy ===== *)
theory Fuse_Files
  imports Fuse Smi_Reach
begin

text \<open>
  The FUSE handlers against the file system's abstract view: how attributes, error numbers
  and the read-only check behave, and the handlers on file contents and attributes.
\<close>

section \<open>Attributes\<close>

definition put_stat :: "nat \<Rightarrow> (stat \<Rightarrow> stat) \<Rightarrow> inode_smi_t \<Rightarrow> inode_smi_t" where
  "put_stat k f fs = (case inode_of fs k of None \<Rightarrow> fs
     | Some i \<Rightarrow> put_inode k (i\<lparr>fs_stat := f (fs_stat i)\<rparr>) (buffer_pool fs) fs)"

lemma on_stat_eq: "inode_of fs k \<noteq> None \<Longrightarrow> on_stat k f fs = (Inr (), put_stat k f fs)"
  unfolding on_stat_def put_stat_def
  by (auto intro!: on_inode_eq [where m = "modifyx (\<lambda>(i, bp). (i\<lparr>fs_stat := f (fs_stat i)\<rparr>, bp))"] simp: modifyx_app)

lemma get_stat_eq: "stat_of fs k = Some st \<Longrightarrow> get_stat k fs = (Inr st, fs)"
  unfolding get_stat_def stat_of_def
  by (auto simp: getx_app intro!: on_inode_pure)

lemma with_stat_views [simp]:
  "inode_ok (i\<lparr>fs_stat := s\<rparr>) bp = inode_ok i bp" "blocks_of (i\<lparr>fs_stat := s\<rparr>) = blocks_of i"
  "version_data (i\<lparr>fs_stat := s\<rparr>) bp = version_data i bp"
  by (simp_all add: inode_ok_def blocks_of_def version_data_def snap_refs_def [abs_def] fun_eq_iff)

lemma put_stat_fields [simp]:
  "smi_block_size (put_stat k f fs) = smi_block_size fs" "buffer_pool (put_stat k f fs) = buffer_pool fs"
  "snapshot_version_list (put_stat k f fs) = snapshot_version_list fs"
  "version_inodes (put_stat k f fs) = version_inodes fs"
  by (auto simp: put_stat_def version_inodes_def split: option.splits)

lemma inode_of_put_stat:
  "inode_of (put_stat k f fs) m = (if m = k then map_option (\<lambda>i. i\<lparr>fs_stat := f (fs_stat i)\<rparr>) (inode_of fs k) else inode_of fs m)"
  by (auto simp: put_stat_def inode_of_put split: option.splits)

lemma put_stat_views [simp]:
  "kind (put_stat k f fs) = kind fs" "links (put_stat k f fs) = links fs" "fs_data (put_stat k f fs) = fs_data fs"
  "stat_of (put_stat k f fs) = (stat_of fs)(k := map_option f (stat_of fs k))"
proof -
  show "kind (put_stat k f fs) = kind fs" by (auto simp: kind_def inode_of_put_stat fun_eq_iff option.map_comp comp_def)
  show "links (put_stat k f fs) = links fs"
    by (auto simp: put_stat_def links_def link_count_put fun_eq_iff split: option.splits)
  show "stat_of (put_stat k f fs) = (stat_of fs)(k := map_option f (stat_of fs k))"
    by (auto simp: stat_of_def inode_of_put_stat fun_eq_iff option.map_comp comp_def)
  show "fs_data (put_stat k f fs) = fs_data fs"
  proof
    fix m
    show "fs_data (put_stat k f fs) m = fs_data fs m"
    proof (cases "inode_of fs m")
      case None
      then have "inode_of (put_stat k f fs) m = None" by (auto simp: inode_of_put_stat)
      with None show ?thesis by (simp add: fun_eq_iff fs_data_none)
    next
      case (Some i)
      then show ?thesis
        using fs_data_eq [of "put_stat k f fs" m] fs_data_eq [OF Some] by (cases "m = k") (auto simp: inode_of_put_stat)
    qed
  qed
qed

lemma put_stat_entries [simp]: "entries (put_stat k f fs) = entries fs" "child (put_stat k f fs) = child fs"
  by (simp_all add: entries_def child_def fun_eq_iff)

lemma put_stat_length [simp]: "length (inode_pool (put_stat k f fs)) = length (inode_pool fs)"
  by (simp add: put_stat_def put_inode_def split: option.splits)

lemma put_stat_ok:
  assumes "fs_ok fs"
  shows "fs_ok (put_stat k f fs)"
proof -
  note ok = fs_okD [OF assms]
  have same: "inode_of (put_stat k f fs) m = None \<longleftrightarrow> inode_of fs m = None" for m by (simp add: inode_of_put_stat)
  have "storage_ok (put_stat k f fs)"
  proof (rule storage_okI)
    show "inode_ok i (buffer_pool (put_stat k f fs)) \<and> block_size i = smi_block_size (put_stat k f fs) \<and> inode_id i = m"
      if "inode_of (put_stat k f fs) m = Some i" for m i
      using that storage_okD [OF ok(1)] by (auto simp: inode_of_put_stat split: if_splits)
    show "blocks_of i \<inter> blocks_of j = {}"
      if "inode_of (put_stat k f fs) l = Some i" "inode_of (put_stat k f fs) m = Some j" "l \<noteq> m" for l m i j
    proof -
      have old: "\<exists>i0. inode_of fs m = Some i0 \<and> blocks_of i0 = blocks_of i"
        if "inode_of (put_stat k f fs) m = Some i" for m i
        using that by (auto simp: inode_of_put_stat split: if_splits)
      from old [OF that(1)] old [OF that(2)] storage_ok_disjoint [OF ok(1) _ _ that(3)] show ?thesis by metis
    qed
    show "map_ok (inode_pool (put_stat k f fs))"
      using ok(1) by (simp add: put_stat_def storage_ok_def split: option.splits)
  qed (use ok(1) in \<open>simp_all add: storage_ok_def\<close>)
  moreover have iv: "in_versions (put_stat k f fs) = in_versions fs" by (rule in_versions_cong) simp
  then have "versions_ok (put_stat k f fs)" using ok(2) by (simp add: versions_ok_def same)
  moreover have "tree_ok (put_stat k f fs)" using ok(3,4) iv by (simp add: tree_ok_def dirs_ok_def)
  ultimately show ?thesis by (simp add: fs_ok_def)
qed

lemma resolve_cong: "kind fs' = kind fs \<Longrightarrow> fs_data fs' = fs_data fs \<Longrightarrow> resolve fs' v p k = resolve fs v p k"
  by (rule resolve_same [where P = "\<lambda>_. True"]) simp_all

lemma locate_cong:
  "kind fs' = kind fs \<Longrightarrow> fs_data fs' = fs_data fs \<Longrightarrow> version_inodes fs' = version_inodes fs \<Longrightarrow> locate fs' path = locate fs path"
  using resolve_cong [of fs' fs] by (cases "components path") (simp_all add: locate_def del: resolve.simps)

section \<open>Errors and the read-only check\<close>

lemma catch_tail_Inr: "m s = (Inr r, s') \<Longrightarrow> catch_tail env m s = (Inr r, s')"
  by (simp add: catch_tail_def catchx_app)

lemma catch_tail_error: "m s = (Inl (HTMPFS_error_t c), s') \<Longrightarrow> catch_tail env m s = (Inr (- int (errno_of c)), s')"
  by (simp add: catch_tail_def catchx_app ret_app)

lemma catch_tail_undefined: "m s = (Inl Undefined_behaviour, s') \<Longrightarrow> catch_tail env m s = (Inl Undefined_behaviour, s')"
  by (simp add: catch_tail_def catchx_app throw_app)

lemma catch_tail_data_Inr: "m s = (Inr r, s') \<Longrightarrow> catch_tail_data env m s = (Inr r, s')"
  by (simp add: catch_tail_data_def catchx_app)

lemma check_rdonly_current:
  "if_snapshot path [] = Inr (FILESYSTEM_CUR_MODIFIABLE_VER, q) \<Longrightarrow> check_rdonly_fs path m = m"
  by (simp add: check_rdonly_fs_def exec_simps fun_eq_iff)

lemma check_rdonly_version:
  "if_snapshot path [] = Inr (v, q) \<Longrightarrow> v \<noteq> FILESYSTEM_CUR_MODIFIABLE_VER \<Longrightarrow>
   catch_tail env (check_rdonly_fs path m) fs = (Inr (- int EROFS), fs)"
  by (rule catch_tail_Inr) (simp add: check_rdonly_fs_def exec_simps)

section \<open>The inode behind a path\<close>

lemma resolve_inode: "fs_ok fs \<Longrightarrow> resolve fs v p k = Inr t \<Longrightarrow> inode_of fs k \<noteq> None \<Longrightarrow> inode_of fs t \<noteq> None"
proof (induction p arbitrary: k)
  case Nil
  then show ?case by simp
next
  case (Cons n p)
  then obtain s where s: "child fs v k n = Some s" "resolve fs v p s = Inr t"
    by (auto split: option.splits bool.splits if_splits)
  have "inode_of fs s \<noteq> None"
    using tree_okD(1) [OF fs_okD(3) [OF Cons.prems(1)] s(1)] in_versions_inode [OF fs_okD(2) [OF Cons.prems(1)]] by blast
  then show ?case using Cons.IH [OF Cons.prems(1) s(2)] by simp
qed

lemma locate_inode: "fs_ok fs \<Longrightarrow> locate fs path = Inr k \<Longrightarrow> inode_of fs k \<noteq> None"
proof -
  assume ok: "fs_ok fs" and l: "locate fs path = Inr k"
  have root: "inode_of fs FILESYSTEM_ROOT_INODE_NUMBER \<noteq> None"
    using tree_ok_root(1) [OF fs_okD(3) [OF ok]] by (auto simp: kind_Some)
  then show ?thesis
    using l resolve_inode [OF ok _ root] by (auto simp: locate_def simp del: resolve.simps split: if_splits list.splits)
qed

lemma get_inode_by_id_eq: "inode_of fs k \<noteq> None \<Longrightarrow> get_inode_by_id k fs = (Inr k, fs)"
  by (auto simp: get_inode_by_id_def exec_simps inode_of_def)

lemma inode_by_path_eq:
  assumes "fs_ok fs"
  shows "inode_by_path path fs = (locate fs path, fs)"
  using assms get_inode_by_id_eq locate_inode [OF assms]
  by (cases "locate fs path") (simp_all add: inode_by_path_def bindx_app get_inode_id_by_path_eq fs_okD)

lemma get_inode_id_by_path_locate: "fs_ok fs \<Longrightarrow> get_inode_id_by_path path fs = (locate fs path, fs)"
  by (simp add: get_inode_id_by_path_eq fs_okD)

lemma data_size_fs_eq:
  assumes "fs_ok fs" and "fs_data fs k v = Some c"
  shows "on_inode k (current_data_size v) fs = (Inr (length c), fs)"
proof -
  obtain i where i: "inode_of fs k = Some i" using assms(2) fs_data_none [of fs k v] by (cases "inode_of fs k") auto
  have "version_data i (buffer_pool fs) v = Some c" using fs_data_eq [OF i] assms(2) by simp
  then obtain bl where "map_of (buffer_map i) v = Some bl" "holds (block_size i) (buffer_pool fs) bl c"
    using storage_okD(1) [OF fs_okD(1) [OF assms(1)] i] by (blast elim: inode_ok_version)
  from current_data_size_eq [OF this] show ?thesis using i by (intro on_inode_pure)
qed

section \<open>Reading and writing\<close>

text \<open>What writing at an offset does to the bytes of a file: POSIX keeps the bytes behind.\<close>

definition pwrite :: "nat \<Rightarrow> data_t \<Rightarrow> data_t \<Rightarrow> data_t" where
  "pwrite offset src c = resized offset c @ src @ drop (offset + length src) c"

definition write_room :: "inode_smi_t \<Rightarrow> data_t \<Rightarrow> nat \<Rightarrow> bool" where
  "write_room fs c n \<longleftrightarrow> file_room fs n \<and> length (buffer_pool fs) + length c \<le> buffer_pool_max_size"

lemma of_off_t_nonneg: "0 \<le> z \<Longrightarrow> z < 2 ^ 63 \<Longrightarrow> of_off_t z = nat z"
  by (simp add: of_off_t_def)

lemma to_int32_small: "n < 2 ^ 31 \<Longrightarrow> to_int32 n = int n"
  by (simp add: to_int32_def)

lemma to_off_t_small: "n < 2 ^ 63 \<Longrightarrow> to_off_t n = int n"
  by (simp add: to_off_t_def)

text \<open>The choice that \<open>do_write\<close> makes for \<open>resize\<close> gives exactly that.\<close>

lemma write_choice:
  assumes ok: "fs_ok fs" and k: "kind fs k = Some False" and c: "fs_data fs k FILESYSTEM_CUR_MODIFIABLE_VER = Some c"
    and src: "src \<noteq> []" and nw: "offset + length src < 2 ^ 64" and room: "write_room fs c (offset + length src)"
  shows "\<exists>fs'. on_inode k (inode_write src (length src) offset (add64 offset (length src) > length c) False) fs
       = (Inr (length src), fs') \<and> fs_ok fs'
     \<and> fs_data fs' = (fs_data fs)(k := (fs_data fs k)(FILESYSTEM_CUR_MODIFIABLE_VER \<mapsto> pwrite offset src c))
     \<and> kind fs' = kind fs \<and> version_inodes fs' = version_inodes fs \<and> child fs' = child fs \<and> stat_of fs' = stat_of fs"
proof -
  have add: "add64 offset (length src) = offset + length src" using nw by (rule add64_small)
  have len: "0 < length src" "length src \<le> length src" using src by simp_all
  show ?thesis
  proof (cases "offset + length src > length c")
    case True
    then have "pwrite offset src c = resized offset c @ take (length src) src" by (simp add: pwrite_def)
    then show ?thesis
      using True write_resize_fs_ok [OF ok k c _ len] room unfolding add write_room_def by simp
  next
    case False
    then have "pwrite offset src c = overwrite offset (take (length c - offset) (take (length src) src)) c"
      by (simp add: pwrite_def overwrite_def resized_def)
    moreover have "offset < length c" using False len(1) by linarith
    moreover have "min (length src) (length c - offset) = length src" using False by simp
    ultimately show ?thesis
      using False write_fixed_fs_ok [OF ok k c _ nw len(1) _ len(2)] room unfolding add write_room_def by simp
  qed
qed

lemma do_write_ok:
  assumes ok: "fs_ok fs" and cur: "if_snapshot path [] = Inr (FILESYSTEM_CUR_MODIFIABLE_VER, q)"
    and l: "locate fs path = Inr k" and k: "kind fs k = Some False"
    and c: "fs_data fs k FILESYSTEM_CUR_MODIFIABLE_VER = Some c" and src: "src \<noteq> []"
    and int: "0 \<le> offset" "offset < 2 ^ 63" "nat offset + length src < 2 ^ 64" "length src < 2 ^ 31"
    and room: "write_room fs c (nat offset + length src)"
  shows "\<exists>fs'. do_write env path src (length src) offset fs = (Inr (int (length src)), fs') \<and> fs_ok fs'
     \<and> fs_data fs' = (fs_data fs)(k := (fs_data fs k)(FILESYSTEM_CUR_MODIFIABLE_VER \<mapsto> pwrite (nat offset) src c))
     \<and> kind fs' = kind fs \<and> version_inodes fs' = version_inodes fs \<and> child fs' = child fs
     \<and> stat_of fs' = (stat_of fs)(k := map_option (\<lambda>s. s\<lparr>st_mtim := clock env 0\<rparr>) (stat_of fs k))"
proof -
  let ?fs1 = "put_stat k (\<lambda>s. s\<lparr>st_mtim := clock env 0\<rparr>) fs"
  have ino: "inode_of fs k \<noteq> None" using k by (auto simp: kind_Some)
  have ok1: "fs_ok ?fs1" using ok by (rule put_stat_ok)
  have k1: "kind ?fs1 k = Some False" and c1: "fs_data ?fs1 k FILESYSTEM_CUR_MODIFIABLE_VER = Some c"
    using k c by simp_all
  have room1: "write_room ?fs1 c (nat offset + length src)" using room by (simp add: write_room_def file_room_def)
  obtain fs' where w: "on_inode k (inode_write src (length src) (nat offset) (add64 (nat offset) (length src) > length c) False) ?fs1
       = (Inr (length src), fs')" and r: "fs_ok fs'"
     "fs_data fs' = (fs_data ?fs1)(k := (fs_data ?fs1 k)(FILESYSTEM_CUR_MODIFIABLE_VER \<mapsto> pwrite (nat offset) src c))"
     "kind fs' = kind ?fs1" "version_inodes fs' = version_inodes ?fs1" "child fs' = child ?fs1" "stat_of fs' = stat_of ?fs1"
    using write_choice [OF ok1 k1 c1 src int(3) room1] by blast
  have "do_write env path src (length src) offset fs = (Inr (int (length src)), fs')"
    unfolding do_write_def check_rdonly_current [OF cur]
    by (rule catch_tail_Inr)
       (use l w in \<open>simp add: bindx_app inode_by_path_eq [OF ok] data_size_fs_eq [OF ok c] on_stat_eq [OF ino]
          of_off_t_nonneg [OF int(1,2)] ret_app to_int32_small [OF int(4)]\<close>)
  then show ?thesis using r by simp
qed

lemma do_read_ok:
  assumes ok: "fs_ok fs" and v: "if_snapshot path [] = Inr (v, q)" and l: "locate fs path = Inr k"
    and c: "fs_data fs k v = Some c" and int: "0 \<le> offset" "offset < 2 ^ 63" "nat offset + n < 2 ^ 64" "n < 2 ^ 31"
    and inside: "nat offset < length c \<or> length c mod smi_block_size fs \<noteq> 0"
  shows "do_read env path n offset fs
    = (Inr (int (min n (length c - nat offset)), take n (drop (nat offset) c)), put_stat k (\<lambda>s. s\<lparr>st_atim := clock env 0\<rparr>) fs)"
proof -
  let ?fs1 = "put_stat k (\<lambda>s. s\<lparr>st_atim := clock env 0\<rparr>) fs"
  have ino: "inode_of fs k \<noteq> None" using locate_inode [OF ok l] .
  have "on_inode k (inode_read v n (nat offset)) ?fs1 = (Inr (take n (drop (nat offset) c)), ?fs1)"
    using c int(3) inside by (intro read_fs_eq [OF put_stat_ok [OF ok]]) simp_all
  moreover have "to_int32 (min (length c - nat offset) n) = int (min n (length c - nat offset))"
    using int(4) by (subst to_int32_small) (simp_all add: min.commute)
  ultimately show ?thesis
    unfolding do_read_def
    by (intro catch_tail_data_Inr)
       (use l in \<open>simp add: bindx_app liftx_app v inode_by_path_eq [OF ok] on_stat_eq [OF ino]
          of_off_t_nonneg [OF int(1,2)] ret_app min.commute\<close>)
qed

section \<open>Attributes and listings\<close>

lemma do_getattr_ok:
  assumes ok: "fs_ok fs" and path: "path \<noteq> ''/'' @ SNAPSHOT_ENTRY" and v: "if_snapshot path [] = Inr (v, q)"
    and l: "locate fs path = Inr k" and c: "fs_data fs k v = Some c" and len: "length c < 2 ^ 63"
    and st: "stat_of fs k = Some st"
  shows "do_getattr env path (fs, out)
    = (Inr 0, (fs, st\<lparr>st_size := int (length c), st_nlink := card (in_versions fs k), st_ino := k\<rparr>))"
proof -
  have ino: "inode_of fs k \<noteq> None" using locate_inode [OF ok l] .
  then obtain n where n: "links fs k = Some n" using links_inode_of [of fs k] by auto
  then have card: "n = card (in_versions fs k)" using versions_okD(3) [OF fs_okD(2) [OF ok]] by blast
  show ?thesis
    unfolding do_getattr_def
    by (rule catch_tail_Inr)
       (use path l card in \<open>simp add: bindx_app liftx_app v on_fs_def zoomx_app set_out_def modifyx_app
          get_inode_id_by_path_locate [OF ok] get_inode_by_id_eq [OF ino] get_stat_eq [OF st] data_size_fs_eq [OF ok c]
          count_link_eq [OF n] to_off_t_small [OF len] ret_app\<close>)
qed

lemma do_readdir_ok:
  assumes ok: "fs_ok fs" and path: "path \<noteq> ''/'' @ SNAPSHOT_ENTRY" and v: "if_snapshot path [] = Inr (v, q)"
    and l: "locate fs path = Inr k" and e: "entries fs v k = Some dl"
  shows "do_readdir env path (fs, out)
    = (Inr 0, (fs, out @ [''.'', ''..''] @ (if path = ''/'' then [SNAPSHOT_ENTRY] else []) @ names dl))"
proof -
  have c_str: "map (\<lambda>i. c_str (pathname i)) dl = names dl"
    using entries_data [OF fs_okD(4) [OF ok] e] by (auto simp: names_def dir_bytes_def storable_pack_def storable_name_def c_str_def takeWhile_eq_all_conv)
  show ?thesis
    unfolding do_readdir_def
    by (rule catch_tail_Inr)
       (use path l v c_str in \<open>cases "path = ''/''"; simp add: bindx_app liftx_app v on_fs_def zoomx_app set_out_def filler_def modifyx_app
          inode_by_path_eq [OF ok] open_entries [OF fs_okD(1,4) [OF ok] e] ret_app to_vector_def\<close>)
qed

lemma do_readdir_snapshots:
  "do_readdir env (''/'' @ SNAPSHOT_ENTRY) (fs, out)
    = (Inr 0, (fs, out @ [''.'', ''..''] @ map (\<lambda>i. c_str (fst i)) (snapshot_version_list fs)))"
  unfolding do_readdir_def
  by (rule catch_tail_Inr)
     (simp add: bindx_app on_fs_def zoomx_app set_out_def filler_def modifyx_app getx_app ret_app SNAPSHOT_ENTRY_def)

end
