(* ===== verification/Fuse_Tree.thy ===== *)
theory Fuse_Tree
  imports Fuse_Files
begin

text \<open>
  The FUSE handlers that change the directory tree: creating and removing, and the snapshot
  directory.
\<close>

section \<open>Paths by their components\<close>

text \<open>A list of components outside the snapshot directory.\<close>

definition plain_path :: "string list \<Rightarrow> bool" where
  "plain_path p \<longleftrightarrow> (\<forall>n\<in>set p. component n) \<and> (p = [] \<or> hd p \<noteq> ''.snapshot'')"

lemma plain_pathD:
  "plain_path p \<Longrightarrow> \<forall>n\<in>set p. component n" "plain_path (p @ [n]) \<Longrightarrow> plain_path p" "plain_path (p @ [n]) \<Longrightarrow> component n"
  by (cases p; simp add: plain_path_def)+

lemma plain_path_current:
  "plain_path p \<Longrightarrow> p \<noteq> [] \<Longrightarrow> if_snapshot (path_to_string p) [] = Inr (FILESYSTEM_CUR_MODIFIABLE_VER, path_to_string p)"
  using components_path_to_string [OF plain_pathD(1)] by (intro if_snapshot_current) (simp_all add: plain_path_def)

lemma plain_path_locate:
  "plain_path p \<Longrightarrow> locate fs (path_to_string p) = resolve fs FILESYSTEM_CUR_MODIFIABLE_VER p FILESYSTEM_ROOT_INODE_NUMBER"
  using locate_current by (simp add: plain_path_def)

lemma plain_path_pop:
  "plain_path (p @ [n]) \<Longrightarrow> path_pop_end (new_path_t (path_to_string (p @ [n]))) = Inr (n, '''' # p)"
  using components_path_to_string [OF plain_pathD(1)] by (simp add: path_pop_end_def new_path_t_eq)

lemma plain_path_parent:
  "fs_ok fs \<Longrightarrow> plain_path p \<Longrightarrow> get_inode_id_by_path (path_to_string p) fs
    = (resolve fs FILESYSTEM_CUR_MODIFIABLE_VER p FILESYSTEM_ROOT_INODE_NUMBER, fs)"
  by (simp add: get_inode_id_by_path_locate plain_path_locate)

section \<open>Paths after a change\<close>

text \<open>A path that was found is still found when directories and their entries are kept.\<close>

lemma resolve_mono:
  assumes "\<And>k. kind fs k = Some True \<Longrightarrow> kind fs' k = Some True"
    and "\<And>k. kind fs k = Some True \<Longrightarrow> fs_data fs k v \<noteq> None \<Longrightarrow> fs_data fs' k v \<noteq> None"
    and "\<And>k n t. child fs v k n = Some t \<Longrightarrow> child fs' v k n = Some t"
  shows "resolve fs v p k = Inr t \<Longrightarrow> resolve fs' v p k = Inr t"
proof (induction p arbitrary: k)
  case Nil
  then show ?case by simp
next
  case (Cons n p)
  then obtain s where s: "kind fs k = Some True" "fs_data fs k v \<noteq> None" "child fs v k n = Some s" "resolve fs v p s = Inr t"
    by (auto split: option.splits bool.splits if_splits)
  then show ?case using assms(1) [OF s(1)] assms(2) [OF s(1,2)] assms(3) [OF s(3)] Cons.IH by simp
qed

lemma resolve_snoc:
  "resolve fs v p k = Inr d \<Longrightarrow> child fs v d n = Some t \<Longrightarrow> resolve fs v (p @ [n]) k = Inr t"
  using child_kind [of fs v d n t] by (induction p arbitrary: k) (auto split: option.splits bool.splits if_splits)

section \<open>Creating\<close>

text \<open>What the three handlers that make a node do after parsing the path.\<close>

definition make_node :: "nat \<Rightarrow> string \<Rightarrow> bool \<Rightarrow> (stat \<Rightarrow> stat) \<Rightarrow> int smi_exec" where
  "make_node parent name d f =
     bindx (make_child_dentry_under_parent parent name d) (\<lambda>new_id.
     bindx (get_inode_by_id new_id) (\<lambda>k. bindx (on_stat k f) (\<lambda>_. ret 0)))"

lemma make_node_ok:
  assumes ok: "fs_ok fs" and g: "op_ok fs (Make p name d)"
  shows "\<exists>k fs'. make_node p name d f fs = (Inr 0, fs') \<and> inode_of fs k = None \<and> fs_ok fs'
     \<and> child fs' = (child fs)(FILESYSTEM_CUR_MODIFIABLE_VER := (child fs FILESYSTEM_CUR_MODIFIABLE_VER)
         (p := (child fs FILESYSTEM_CUR_MODIFIABLE_VER p)(name \<mapsto> k)))
     \<and> kind fs' = (kind fs)(k \<mapsto> d) \<and> fs_data fs' k = [FILESYSTEM_CUR_MODIFIABLE_VER \<mapsto> []]
     \<and> (\<forall>m v. m \<noteq> k \<and> (m \<noteq> p \<or> v \<noteq> FILESYSTEM_CUR_MODIFIABLE_VER) \<longrightarrow> fs_data fs' m v = fs_data fs m v)
     \<and> stat_of fs' = (stat_of fs)(k \<mapsto> f zero_stat) \<and> in_versions fs' k = {FILESYSTEM_CUR_MODIFIABLE_VER}
     \<and> (\<forall>v. v \<noteq> FILESYSTEM_CUR_MODIFIABLE_VER \<longrightarrow> version_inodes fs' v = version_inodes fs v)
     \<and> smi_block_size fs' = smi_block_size fs
     \<and> length (buffer_pool fs') \<le> length (buffer_pool fs)
         + 2 * block_count (8 + 136 * Suc (length (the (entries fs FILESYSTEM_CUR_MODIFIABLE_VER p)))) (smi_block_size fs)"
proof -
  obtain path where e: "entries fs FILESYSTEM_CUR_MODIFIABLE_VER p = Some path" and a: "valid_name name"
    "dir_map path name = None" "dir_room fs (Suc (length path))" "length (inode_pool fs) < inode_pool_max_size"
    using g by (auto split: option.splits)
  have free: "child fs FILESYSTEM_CUR_MODIFIABLE_VER p name = None" using e a(2) by (simp add: child_def)
  obtain ks where cur: "version_inodes fs FILESYSTEM_CUR_MODIFIABLE_VER = Some ks" using ok by (rule current_list)
  obtain k fs1 where run: "make_child_dentry_under_parent p name d fs = (Inr k, fs1)"
    and ko: "inode_of fs k = None" and ok1: "fs_ok fs1"
    and ch: "child fs1 = (child fs)(FILESYSTEM_CUR_MODIFIABLE_VER := (child fs FILESYSTEM_CUR_MODIFIABLE_VER)
         (p := (child fs FILESYSTEM_CUR_MODIFIABLE_VER p)(name \<mapsto> k)))"
    and dk: "fs_data fs1 k = [FILESYSTEM_CUR_MODIFIABLE_VER \<mapsto> []]"
    and dm: "\<forall>m v. m \<noteq> k \<and> (m \<noteq> p \<or> v \<noteq> FILESYSTEM_CUR_MODIFIABLE_VER) \<longrightarrow> fs_data fs1 m v = fs_data fs m v"
    and kd: "kind fs1 = (kind fs)(k \<mapsto> d)"
    and vi: "version_inodes fs1 = (version_inodes fs)(FILESYSTEM_CUR_MODIFIABLE_VER \<mapsto> ks @ [k])"
    and st: "stat_of fs1 = (stat_of fs)(k \<mapsto> zero_stat)" and bs: "smi_block_size fs1 = smi_block_size fs"
    and len: "length (buffer_pool fs1) \<le> length (buffer_pool fs) + 2 * block_count (8 + 136 * Suc (length path)) (smi_block_size fs)"
    using make_child_fs_ok [OF ok e a(1) free a(3,4) cur, of d] by blast
  have "kind fs1 k = Some d" using kd by simp
  then have ino: "inode_of fs1 k \<noteq> None" by (auto simp: kind_Some)
  have "make_node p name d f fs = (Inr 0, put_stat k f fs1)"
    using run get_inode_by_id_eq [OF ino] on_stat_eq [OF ino, of f] by (simp add: make_node_def bindx_app ret_app)
  moreover have "in_versions (put_stat k f fs1) k = {FILESYSTEM_CUR_MODIFIABLE_VER}"
  proof -
    have "v \<in> in_versions fs k \<Longrightarrow> False" for v using in_versions_inode [OF fs_okD(2) [OF ok]] ko by blast
    then show ?thesis by (auto simp: in_versions_def vi split: if_splits)
  qed
  moreover have "fs_ok (put_stat k f fs1)" using ok1 by (rule put_stat_ok)
  ultimately show ?thesis using ko ch dk dm kd st vi bs len e by (intro exI [of _ k] exI [of _ "put_stat k f fs1"]) simp
qed

lemma plain_path_snoc: "plain_path (p @ [n]) \<Longrightarrow> if_snapshot (path_to_string (p @ [n])) []
    = Inr (FILESYSTEM_CUR_MODIFIABLE_VER, path_to_string (p @ [n]))"
  by (rule plain_path_current) simp_all

lemma catch_tail_cong: "m s = m' s \<Longrightarrow> catch_tail env m s = catch_tail env m' s"
  by (simp add: catch_tail_def catchx_app)

lemmas plain_path_rules = plain_path_pop plain_path_parent [OF _ plain_pathD(2)] check_rdonly_current [OF plain_path_snoc]

lemma component_not_Nil: "plain_path (p @ [n]) \<Longrightarrow> n \<noteq> []"
  using plain_pathD(3) [of p n] by (simp add: component_def)

lemma do_create_eq:
  assumes ok: "fs_ok fs" and p: "plain_path (p @ [n])" and d: "resolve fs FILESYSTEM_CUR_MODIFIABLE_VER p FILESYSTEM_ROOT_INODE_NUMBER = Inr d"
  shows "do_create env (path_to_string (p @ [n])) mode fs
    = catch_tail env (make_node d n False (\<lambda>s. s\<lparr>st_mode := mode, st_nlink := 1, st_atim := clock env 0,
        st_ctim := clock env 0, st_mtim := clock env 0, st_gid := the_gid env, st_uid := the_uid env\<rparr>)) fs"
  unfolding do_create_def plain_path_rules(3) [OF p]
  by (rule catch_tail_cong) (simp add: bindx_app liftx_app plain_path_rules(1) [OF p] plain_path_rules(2) [OF ok p] d make_node_def)

lemma do_mknod_eq:
  assumes ok: "fs_ok fs" and p: "plain_path (p @ [n])" and d: "resolve fs FILESYSTEM_CUR_MODIFIABLE_VER p FILESYSTEM_ROOT_INODE_NUMBER = Inr d"
  shows "do_mknod env (path_to_string (p @ [n])) mode device fs
    = catch_tail env (make_node d n False (\<lambda>s. s\<lparr>st_mode := mode, st_nlink := 1, st_atim := clock env 0,
        st_ctim := clock env 0, st_mtim := clock env 0, st_dev := device\<rparr>)) fs"
  unfolding do_mknod_def plain_path_rules(3) [OF p]
  by (rule catch_tail_cong)
     (simp add: bindx_app liftx_app plain_path_rules(1) [OF p] plain_path_rules(2) [OF ok p] d make_node_def component_not_Nil [OF p])

lemma under_snapshot_plain: "plain_path (p @ [n]) \<Longrightarrow> \<not> under_snapshot_entry ('''' # p)"
  by (cases p) (auto simp: under_snapshot_entry_def plain_path_def SNAPSHOT_ENTRY_def)

lemma do_mkdir_eq:
  assumes ok: "fs_ok fs" and p: "plain_path (p @ [n])" and d: "resolve fs FILESYSTEM_CUR_MODIFIABLE_VER p FILESYSTEM_ROOT_INODE_NUMBER = Inr d"
  shows "do_mkdir env (path_to_string (p @ [n])) mode fs
    = catch_tail env (make_node d n True (\<lambda>s. s\<lparr>st_size := 0, st_ctim := clock env 0, st_atim := clock env 1,
        st_mtim := clock env 2, st_ino := FILESYSTEM_ROOT_INODE_NUMBER, st_mode := mode OR S_IFDIR, st_nlink := 1\<rparr>)) fs"
  unfolding do_mkdir_def
  by (rule catch_tail_cong)
     (simp add: bindx_app liftx_app plain_path_rules(1) [OF p] plain_path_rules(2) [OF ok p] d make_node_def
        component_not_Nil [OF p] under_snapshot_plain [OF p] plain_path_rules(3) [OF p])

text \<open>A new file is found under its path.\<close>

lemma current_data: "fs_ok fs \<Longrightarrow> inode_of fs k \<noteq> None \<Longrightarrow> fs_data fs k FILESYSTEM_CUR_MODIFIABLE_VER \<noteq> None"
  using inode_ok_has_current [OF storage_okD(1) [OF fs_okD(1)]] fs_data_eq [of fs k] by fastforce

lemma make_node_visible:
  assumes d: "resolve fs FILESYSTEM_CUR_MODIFIABLE_VER p FILESYSTEM_ROOT_INODE_NUMBER = Inr d"
    and free: "child fs FILESYSTEM_CUR_MODIFIABLE_VER d n = None" and ino: "inode_of fs k = None"
    and ok: "fs_ok fs'"
    and ch: "child fs' = (child fs)(FILESYSTEM_CUR_MODIFIABLE_VER := (child fs FILESYSTEM_CUR_MODIFIABLE_VER)
         (d := (child fs FILESYSTEM_CUR_MODIFIABLE_VER d)(n \<mapsto> k)))"
    and kd: "kind fs' = (kind fs)(k \<mapsto> b)"
  shows "resolve fs' FILESYSTEM_CUR_MODIFIABLE_VER (p @ [n]) FILESYSTEM_ROOT_INODE_NUMBER = Inr k"
proof (rule resolve_snoc)
  show "resolve fs' FILESYSTEM_CUR_MODIFIABLE_VER p FILESYSTEM_ROOT_INODE_NUMBER = Inr d"
  proof (rule resolve_mono [OF _ _ _ d])
    have nk: "kind fs k = None" using ino by (simp add: kind_inode_of)
    show k: "kind fs' m = Some True" if "kind fs m = Some True" for m using that nk kd by auto
    show "fs_data fs' m FILESYSTEM_CUR_MODIFIABLE_VER \<noteq> None" if "kind fs m = Some True" for m
      using current_data [OF ok] k [OF that] by (auto simp: kind_Some)
    show "child fs' FILESYSTEM_CUR_MODIFIABLE_VER m x = Some t" if "child fs FILESYSTEM_CUR_MODIFIABLE_VER m x = Some t" for m x t
      using that free by (auto simp: ch)
  qed
  show "child fs' FILESYSTEM_CUR_MODIFIABLE_VER d n = Some k" by (simp add: ch)
qed

section \<open>The snapshot directory\<close>

lemma snapshot_path:
  assumes "component v"
  shows "path_pop_end (new_path_t (path_to_string [''.snapshot'', v])) = Inr (v, ['''', ''.snapshot''])"
  using components_path_to_string [of "[''.snapshot'', v]"] assms by (simp add: path_pop_end_def new_path_t_eq)

text \<open>The last component of any path, and the paths that do not name a volume.\<close>

lemma entry_pop:
  "components s \<noteq> [] \<Longrightarrow> path_pop_end (new_path_t s) = Inr (last (components s), '''' # butlast (components s))"
  by (simp add: path_pop_end_def new_path_t_eq)

lemma entry_name: "components s \<noteq> [] \<Longrightarrow> last (components s) \<noteq> []"
  using components_component [of "last (components s)" s] by (auto simp: component_def)

lemma not_volume: "p \<noteq> [] \<Longrightarrow> \<not> (length p = 2 \<and> hd p = ''.snapshot'') \<Longrightarrow> \<not> under_snapshot_entry ('''' # butlast p)"
  by (cases p; cases "tl p") (auto simp: under_snapshot_entry_def SNAPSHOT_ENTRY_def)

lemma do_mkdir_snapshot:
  assumes "component v"
  shows "do_mkdir env (path_to_string [''.snapshot'', v]) mode fs
    = catch_tail env (bindx (create_snapshot_volume v) (\<lambda>_. ret 0)) fs"
  unfolding do_mkdir_def bindx_app snapshot_path [OF assms] liftx_def
  by (rule catch_tail_cong)
     (use assms in \<open>simp add: bindx_app snapshot_path [OF assms] under_snapshot_entry_def SNAPSHOT_ENTRY_def component_def
        del: path_to_string.simps\<close>)

lemma do_rmdir_snapshot:
  assumes "component v" and "v \<noteq> ''.snapshot''"
  shows "do_rmdir env (path_to_string [''.snapshot'', v]) fs
    = catch_tail env (bindx (delete_snapshot_volume v) (\<lambda>_. ret 0)) fs"
  unfolding do_rmdir_def bindx_app snapshot_path [OF assms(1)] liftx_def
  by (rule catch_tail_cong)
     (use assms in \<open>simp add: bindx_app snapshot_path [OF assms(1)] under_snapshot_entry_def SNAPSHOT_ENTRY_def component_def
        del: path_to_string.simps\<close>)

section \<open>Removing\<close>

lemma current_entries:
  assumes "fs_ok fs" and "kind fs k = Some True"
  obtains path where "entries fs FILESYSTEM_CUR_MODIFIABLE_VER k = Some path"
proof -
  obtain c where "fs_data fs k FILESYSTEM_CUR_MODIFIABLE_VER = Some c"
    using current_data [OF assms(1), of k] assms(2) by (auto simp: kind_Some)
  with dirs_okE [OF fs_okD(4) [OF assms(1)] assms(2)] show thesis using that by blast
qed

lemma descend_eq:
  "fs_ok fs \<Longrightarrow> inode_of fs k \<noteq> None \<Longrightarrow>
   descend (length p) (p @ r) k fs = (resolve fs FILESYSTEM_CUR_MODIFIABLE_VER p k, fs)"
proof (induction p arbitrary: k)
  case Nil
  then show ?case by (simp add: ret_app)
next
  case (Cons n p)
  note ok = Cons.prems(1) and cur = current_data [OF Cons.prems]
  obtain dk where dk: "kind fs k = Some dk" using Cons.prems(2) kind_inode_of [of fs k] by auto
  show ?case
  proof (cases dk)
    case False
    then show ?thesis using dk open_file [of fs k] by (simp add: bindx_app)
  next
    case True
    have "kind fs k = Some True" using dk True by simp
    then obtain path where e: "entries fs FILESYSTEM_CUR_MODIFIABLE_VER k = Some path"
      by (rule current_entries [OF ok])
    note open_k = open_entries [OF fs_okD(1,4) [OF ok] e]
    show ?thesis
    proof (cases "dir_map path n")
      case None
      then show ?thesis using open_k e dk True cur by (auto simp: bindx_app liftx_app namei_eq child_def)
    next
      case (Some t)
      then have ch: "child fs FILESYSTEM_CUR_MODIFIABLE_VER k n = Some t" using e by (simp add: child_def)
      then have t: "inode_of fs t \<noteq> None"
        using tree_okD(1) [OF fs_okD(3) [OF ok] ch] in_versions_inode [OF fs_okD(2) [OF ok]] by blast
      have "resolve fs FILESYSTEM_CUR_MODIFIABLE_VER (n # p) k = resolve fs FILESYSTEM_CUR_MODIFIABLE_VER p t"
        using dk True cur ch by auto
      then show ?thesis
        using open_k Some Cons.IH [OF ok t] get_inode_by_id_eq [OF t] by (simp add: bindx_app liftx_app namei_eq)
    qed
  qed
qed

lemma root_inode: "fs_ok fs \<Longrightarrow> inode_of fs FILESYSTEM_ROOT_INODE_NUMBER \<noteq> None"
  using tree_ok_root(1) [OF fs_okD(3)] by (auto simp: kind_Some)

lemma get_inode_number:
  assumes "fs_ok fs" and "inode_of fs k \<noteq> None"
  shows "on_inode k (getx (\<lambda>s. inode_id (fst s))) fs = (Inr k, fs)"
proof -
  obtain i where i: "inode_of fs k = Some i" using assms(2) by auto
  show ?thesis
    using storage_okD(3) [OF fs_okD(1) [OF assms(1)] i]
    by (intro on_inode_pure [where m = "getx (\<lambda>s. inode_id (fst s))", OF i]) (simp add: getx_app)
qed

lemma remove_inode_by_path_eq:
  assumes ok: "fs_ok fs" and p: "\<forall>m\<in>set (p @ [n]). component m"
  shows "remove_inode_by_path (path_to_string (p @ [n])) fs
    = (case resolve fs FILESYSTEM_CUR_MODIFIABLE_VER p FILESYSTEM_ROOT_INODE_NUMBER of Inl e \<Rightarrow> (Inl e, fs)
       | Inr d \<Rightarrow> remove_child_dentry_under_parent d n fs)"
proof -
  have c: "components (path_to_string (p @ [n])) = p @ [n]" using p by (rule components_path_to_string)
  then have ne: "path_to_string (p @ [n]) \<noteq> ''/''" by (metis components_slash snoc_eq_iff_butlast)
  have d: "descend (length p) (p @ [n]) FILESYSTEM_ROOT_INODE_NUMBER fs
      = (resolve fs FILESYSTEM_CUR_MODIFIABLE_VER p FILESYSTEM_ROOT_INODE_NUMBER, fs)"
    using descend_eq [OF ok root_inode [OF ok]] .
  show ?thesis
  proof (cases "resolve fs FILESYSTEM_CUR_MODIFIABLE_VER p FILESYSTEM_ROOT_INODE_NUMBER")
    case (Inl e)
    then show ?thesis using ne d by (simp add: remove_inode_by_path_def new_path_t_eq c path_last_def bindx_app liftx_app)
  next
    case (Inr t)
    then have "inode_of fs t \<noteq> None" using resolve_inode [OF ok _ root_inode [OF ok]] by blast
    then show ?thesis
      using Inr ne d get_inode_number [OF ok]
      by (simp add: remove_inode_by_path_def new_path_t_eq c path_last_def bindx_app liftx_app)
  qed
qed

lemma do_unlink_eq:
  assumes ok: "fs_ok fs" and p: "plain_path (p @ [n])" and d: "resolve fs FILESYSTEM_CUR_MODIFIABLE_VER p FILESYSTEM_ROOT_INODE_NUMBER = Inr d"
  shows "do_unlink env (path_to_string (p @ [n])) fs
    = catch_tail env (bindx (remove_child_dentry_under_parent d n) (\<lambda>_. ret 0)) fs"
  unfolding do_unlink_def plain_path_rules(3) [OF p]
  by (rule catch_tail_cong) (simp add: bindx_app remove_inode_by_path_eq [OF ok plain_pathD(1) [OF p]] d)

lemma do_rmdir_eq:
  assumes ok: "fs_ok fs" and p: "plain_path (p @ [n])" and n: "n \<noteq> ''.snapshot''"
    and d: "resolve fs FILESYSTEM_CUR_MODIFIABLE_VER p FILESYSTEM_ROOT_INODE_NUMBER = Inr d"
  shows "do_rmdir env (path_to_string (p @ [n])) fs
    = catch_tail env (bindx (remove_child_dentry_under_parent d n) (\<lambda>_. ret 0)) fs"
  unfolding do_rmdir_def
  by (rule catch_tail_cong)
     (use n in \<open>simp add: bindx_app liftx_app plain_path_rules(1) [OF p] component_not_Nil [OF p] under_snapshot_plain [OF p]
        SNAPSHOT_ENTRY_def plain_path_rules(3) [OF p] remove_inode_by_path_eq [OF ok plain_pathD(1) [OF p]] d\<close>)

end
