(* ===== verification/Fuse_Rename.thy ===== *)
theory Fuse_Rename
  imports Fuse_Tree
begin

text \<open>
  \<open>do_rename\<close>: an entry moves to a free name, with the invariant back in place after the
  second of the two saves.
\<close>

section \<open>Replacing the entries of one directory\<close>

lemma versions_ok_cong:
  assumes "versions_ok fs" and "snapshot_version_list fs' = snapshot_version_list fs" and "links fs' = links fs"
    and "kind fs' = kind fs" and "\<And>k v. v \<noteq> FILESYSTEM_CUR_MODIFIABLE_VER \<Longrightarrow> fs_data fs' k v = fs_data fs k v"
  shows "versions_ok fs'" and "in_versions fs' = in_versions fs" and "version_inodes fs' = version_inodes fs"
proof -
  show vi: "version_inodes fs' = version_inodes fs" using assms(2) by (simp add: version_inodes_def)
  then show iv: "in_versions fs' = in_versions fs" by (rule in_versions_cong)
  have ino: "inode_of fs' k = None \<longleftrightarrow> inode_of fs k = None" for k
    using kind_inode_of [of fs k] kind_inode_of [of fs' k] assms(4) by simp
  show "versions_ok fs'"
    using versions_okD [OF assms(1)] assms unfolding versions_ok_def vi iv ino by auto
qed

lemma dirs_ok_save:
  assumes "dirs_ok fs" and "dir_bytes path (encode_dentry path)" and "kind fs' = kind fs"
    and "fs_data fs' = (fs_data fs)(k := (fs_data fs k)(FILESYSTEM_CUR_MODIFIABLE_VER \<mapsto> encode_dentry path))"
  shows "dirs_ok fs'"
  using assms unfolding dirs_ok_def by auto

text \<open>What one save does to every view; the tree is only required to be well formed afterwards.\<close>

lemma save_entries:
  assumes ok: "storage_ok fs" and dok: "dirs_ok fs" and k: "kind fs k = Some True"
    and room: "dir_room fs (length path)" and b: "dir_bytes path (encode_dentry path)"
  obtains fs' where "on_inode k (save_current path) fs = (Inr (), fs')" and "storage_ok fs'" and "dirs_ok fs'"
    and "child fs' = (child fs)(FILESYSTEM_CUR_MODIFIABLE_VER := (child fs FILESYSTEM_CUR_MODIFIABLE_VER)(k := dir_map path))"
    and "entries fs' FILESYSTEM_CUR_MODIFIABLE_VER k = Some path"
    and "\<And>m. m \<noteq> k \<Longrightarrow> entries fs' FILESYSTEM_CUR_MODIFIABLE_VER m = entries fs FILESYSTEM_CUR_MODIFIABLE_VER m"
    and "\<And>m v. v \<noteq> FILESYSTEM_CUR_MODIFIABLE_VER \<or> m \<noteq> k \<Longrightarrow> fs_data fs' m v = fs_data fs m v"
    and "links fs' = links fs" and "kind fs' = kind fs" and "stat_of fs' = stat_of fs"
    and "snapshot_version_list fs' = snapshot_version_list fs" and "smi_block_size fs' = smi_block_size fs"
    and "length (buffer_pool fs') \<le> length (buffer_pool fs) + 2 * block_count (8 + 136 * length path) (smi_block_size fs)"
proof -
  obtain fs' where run: "on_inode k (save_current path) fs = (Inr (), fs')" and s: "storage_ok fs'"
    and d: "fs_data fs' = (fs_data fs)(k := (fs_data fs k)(FILESYSTEM_CUR_MODIFIABLE_VER \<mapsto> encode_dentry path))"
    and r: "links fs' = links fs" "kind fs' = kind fs" "snapshot_version_list fs' = snapshot_version_list fs"
      "smi_block_size fs' = smi_block_size fs"
      "length (buffer_pool fs') \<le> length (buffer_pool fs) + 2 * block_count (8 + 136 * length path) (smi_block_size fs)"
      "stat_of fs' = stat_of fs"
    using save_dir [OF ok k room] by blast
  show thesis
  proof (rule that [OF run s dirs_ok_save [OF dok b r(2) d] _ _ _ _ r(1,2,6,3,4,5)])
    show "child fs' = (child fs)(FILESYSTEM_CUR_MODIFIABLE_VER := (child fs FILESYSTEM_CUR_MODIFIABLE_VER)(k := dir_map path))"
      using child_save [OF d r(2) k b] by (auto simp: fun_eq_iff)
    show "entries fs' FILESYSTEM_CUR_MODIFIABLE_VER k = Some path"
      using k r(2) dir_bytes_decode [OF b] by (simp add: entries_def d)
    show "entries fs' FILESYSTEM_CUR_MODIFIABLE_VER m = entries fs FILESYSTEM_CUR_MODIFIABLE_VER m" if "m \<noteq> k" for m
      using that r(2) by (intro entries_cong) (simp_all add: d)
    show "fs_data fs' m v = fs_data fs m v" if "v \<noteq> FILESYSTEM_CUR_MODIFIABLE_VER \<or> m \<noteq> k" for m v
      using that by (auto simp: d)
  qed
qed

lemma entries_dir_bytes:
  assumes "dirs_ok fs" and "entries fs v k = Some path"
  shows "dir_bytes path (encode_dentry path)"
  using entries_data [OF assms] by (auto simp: dir_bytes_def)

lemma dir_bytes_snoc:
  assumes "dir_bytes path (encode_dentry path)" and "dir_map path n = None" and "storable_name n" and "k < 2 ^ 64"
    and "Suc (length path) < 2 ^ 32"
  shows "dir_bytes (path @ [\<lparr>pathname = n, pack_inode = k\<rparr>]) (encode_dentry (path @ [\<lparr>pathname = n, pack_inode = k\<rparr>]))"
  using assms by (auto simp: dir_bytes_def storable_pack_def dir_map_None names_def)

lemma dir_bytes_remove:
  assumes "dir_bytes path (encode_dentry path)" and "dir_map path n = Some k"
  obtains rest where "remove_path path n = Inr rest" and "dir_map rest = (dir_map path)(n := None)"
    and "dir_bytes rest (encode_dentry rest)" and "length rest \<le> length path"
proof -
  obtain rest where r: "remove_path path n = Inr rest" "dir_map rest = (dir_map path)(n := None)" "set rest \<subseteq> set path" "distinct (names rest)"
    using assms by (auto simp: dir_bytes_def elim: remove_path_ok)
  have "dir_bytes rest (encode_dentry rest)"
    using assms(1) r(3,4) remove_path_length [OF r(1)] by (auto simp: dir_bytes_def)
  with r(1,2) show thesis using remove_path_length [OF r(1)] by (rule that)
qed

lemma resolve_snocE:
  assumes "resolve fs v (p @ [n]) k = Inr t"
  obtains d where "resolve fs v p k = Inr d" and "child fs v d n = Some t"
proof -
  have "\<exists>d. resolve fs v p k = Inr d \<and> child fs v d n = Some t"
    using assms by (induction p arbitrary: k) (auto split: option.splits bool.splits if_splits)
  then show thesis using that by blast
qed

text \<open>Inode numbers in a directory fit its format.\<close>

lemma child_number:
  assumes "dirs_ok fs" and "child fs v k n = Some t"
  shows "t < 2 ^ 64"
proof -
  obtain path where e: "entries fs v k = Some path" "dir_map path n = Some t"
    using assms(2) by (auto simp: child_def split: option.splits)
  have "\<forall>p\<in>set path. pack_inode p < 2 ^ 64"
    using entries_dir_bytes [OF assms(1) e(1)] by (simp add: dir_bytes_def storable_pack_def)
  moreover have "(n, t) \<in> set (map (\<lambda>i. (pathname i, pack_inode i)) path)"
    using e(2) unfolding dir_map_def by (rule map_of_SomeD)
  ultimately show ?thesis by auto
qed

section \<open>Moving an entry to a free name\<close>

definition rename_room :: "inode_smi_t \<Rightarrow> nat \<Rightarrow> bool" where
  "rename_room fs n \<longleftrightarrow> n < 2 ^ 32 \<and> 8 + 136 * n + smi_block_size fs < 2 ^ 64 \<and>
     length (buffer_pool fs) + 4 * block_count (8 + 136 * n) (smi_block_size fs) \<le> buffer_pool_max_size"

lemma rename_room_first:
  assumes "storage_ok fs" and "rename_room fs n" and "m \<le> n"
  shows "dir_room fs m"
proof -
  have "dir_room fs n" using assms(2) by (simp add: rename_room_def dir_room_def)
  then show ?thesis using dir_room_mono [OF assms(1) _ assms(3)] by blast
qed

lemma rename_room_second:
  assumes ok: "storage_ok fs" and room: "rename_room fs n" and m: "m \<le> n" "l \<le> n" and bs: "smi_block_size fs' = smi_block_size fs"
    and len: "length (buffer_pool fs') \<le> length (buffer_pool fs) + 2 * block_count (8 + 136 * m) (smi_block_size fs)"
    and ok': "storage_ok fs'"
  shows "dir_room fs' l"
proof -
  have "block_count (8 + 136 * m) (smi_block_size fs) \<le> block_count (8 + 136 * n) (smi_block_size fs)"
    using ok m by (intro block_count_mono) (simp_all add: storage_ok_def)
  then have "dir_room fs' n" using room len bs by (simp add: rename_room_def dir_room_def)
  then show ?thesis using dir_room_mono [OF ok' _ m(2)] by blast
qed

text \<open>The invariant of a tree in which one edge has moved.\<close>

lemma moved_tree_ok:
  assumes ok: "fs_ok fs" and sok: "storage_ok fs'" and dok: "dirs_ok fs'"
    and same: "snapshot_version_list fs' = snapshot_version_list fs" "links fs' = links fs" "kind fs' = kind fs"
      "\<And>k v. v \<noteq> FILESYSTEM_CUR_MODIFIABLE_VER \<Longrightarrow> fs_data fs' k v = fs_data fs k v"
    and t: "child fs FILESYSTEM_CUR_MODIFIABLE_VER d1 n = Some t"
    and ch: "\<And>v k x s. child fs' v k x = Some s \<Longrightarrow> v = FILESYSTEM_CUR_MODIFIABLE_VER \<and> k = d2 \<and> x = m \<and> s = t
        \<or> child fs v k x = Some s \<and> (v, k, x) \<noteq> (FILESYSTEM_CUR_MODIFIABLE_VER, d1, n)"
  shows "fs_ok fs'"
proof -
  note tok = fs_okD(3) [OF ok]
  have vok: "versions_ok fs'" and iv: "in_versions fs' = in_versions fs"
    using versions_ok_cong [OF fs_okD(2) [OF ok] same] by simp_all
  have "tree_ok fs'" unfolding tree_ok_def
  proof (intro conjI allI impI)
    show "dirs_ok fs'" by (rule dok)
    show "kind fs' FILESYSTEM_ROOT_INODE_NUMBER = Some True" using tree_ok_root(1) [OF tok] same(3) by simp
    show "FILESYSTEM_CUR_MODIFIABLE_VER \<in> in_versions fs' FILESYSTEM_ROOT_INODE_NUMBER" using tree_ok_root(2) [OF tok] iv by simp
    fix v k x s
    assume c: "child fs' v k x = Some s"
    show "v \<in> in_versions fs' s" using ch [OF c] tree_okD(1) [OF tok t] tree_okD(1) [OF tok, of v k x s] iv by auto
    show "s \<noteq> FILESYSTEM_ROOT_INODE_NUMBER" using ch [OF c] tree_okD(2) [OF tok t] tree_okD(2) [OF tok, of v k x s] by auto
  next
    fix v k x k' x' s
    assume "child fs' v k x = Some s \<and> child fs' v k' x' = Some s"
    then have a: "child fs' v k x = Some s" and b: "child fs' v k' x' = Some s" by simp_all
    have "k = k' \<and> x = x'"
      using ch [OF a] ch [OF b] tree_okD(3) [OF tok t, of k' x'] tree_okD(3) [OF tok t, of k x]
        tree_okD(3) [OF tok, of v k x s k' x'] by auto
    then show "k = k'" "x = x'" by simp_all
  qed
  then show ?thesis using sok vok by (simp add: fs_ok_def)
qed

text \<open>
  The two saves from the state in which the target name is free: what happens between the
  lookups of the two directories and the result.
\<close>

lemma rename_core:
  assumes ok: "fs_ok fs"
    and d1: "resolve fs FILESYSTEM_CUR_MODIFIABLE_VER p FILESYSTEM_ROOT_INODE_NUMBER = Inr d1"
    and t: "child fs FILESYSTEM_CUR_MODIFIABLE_VER d1 n = Some t"
    and e1: "entries fs FILESYSTEM_CUR_MODIFIABLE_VER d1 = Some path1"
    and e2: "entries fs FILESYSTEM_CUR_MODIFIABLE_VER d2 = Some path2"
    and free: "child fs FILESYSTEM_CUR_MODIFIABLE_VER d2 m = None" and name: "storable_name m"
    and room: "rename_room fs N" "length path1 \<le> N" "Suc (length path2) \<le> N"
  obtains fs1 path rest fs' where "on_inode d2 (save_current (path2 @ [\<lparr>pathname = m, pack_inode = t\<rparr>])) fs = (Inr (), fs1)"
    and "storage_ok fs1" and "dirs_ok fs1"
    and "resolve fs1 FILESYSTEM_CUR_MODIFIABLE_VER p FILESYSTEM_ROOT_INODE_NUMBER = Inr d1" and "inode_of fs1 d1 \<noteq> None"
    and "entries fs1 FILESYSTEM_CUR_MODIFIABLE_VER d1 = Some path" and "remove_path path n = Inr rest"
    and "on_inode d1 (save_current rest) fs1 = (Inr (), fs')" and "fs_ok fs'"
    and "\<forall>k x. child fs' FILESYSTEM_CUR_MODIFIABLE_VER k x
          = (if k = d1 \<and> x = n then None else if k = d2 \<and> x = m then Some t else child fs FILESYSTEM_CUR_MODIFIABLE_VER k x)"
    and "\<forall>k v. v \<noteq> FILESYSTEM_CUR_MODIFIABLE_VER \<or> k \<noteq> d1 \<and> k \<noteq> d2 \<longrightarrow> fs_data fs' k v = fs_data fs k v"
    and "kind fs' = kind fs" and "links fs' = links fs" and "stat_of fs' = stat_of fs" and "version_inodes fs' = version_inodes fs"
proof -
  note sok = fs_okD(1) [OF ok] and dok = fs_okD(4) [OF ok]
  have k1: "kind fs d1 = Some True" and k2: "kind fs d2 = Some True"
    using entries_data [OF dok e1] entries_data [OF dok e2] by blast+
  have free': "dir_map path2 m = None" using free e2 by (simp add: child_def)
  let ?path2 = "path2 @ [\<lparr>pathname = m, pack_inode = t\<rparr>]"
  have N: "N < 2 ^ 32" using room(1) by (simp add: rename_room_def)
  have b2: "dir_bytes ?path2 (encode_dentry ?path2)"
    using dir_bytes_snoc [OF entries_dir_bytes [OF dok e2] free' name child_number [OF dok t]] room(3) N by simp
  have l2: "length ?path2 \<le> N" using room(3) by simp
  obtain fs1 where run1: "on_inode d2 (save_current ?path2) fs = (Inr (), fs1)" and sok1: "storage_ok fs1" and dok1: "dirs_ok fs1"
    and ch1: "child fs1 = (child fs)(FILESYSTEM_CUR_MODIFIABLE_VER := (child fs FILESYSTEM_CUR_MODIFIABLE_VER)(d2 := dir_map ?path2))"
    and en1: "entries fs1 FILESYSTEM_CUR_MODIFIABLE_VER d2 = Some ?path2"
      "\<And>m. m \<noteq> d2 \<Longrightarrow> entries fs1 FILESYSTEM_CUR_MODIFIABLE_VER m = entries fs FILESYSTEM_CUR_MODIFIABLE_VER m"
    and dt1: "\<And>m v. v \<noteq> FILESYSTEM_CUR_MODIFIABLE_VER \<or> m \<noteq> d2 \<Longrightarrow> fs_data fs1 m v = fs_data fs m v"
    and r1: "links fs1 = links fs" "kind fs1 = kind fs" "stat_of fs1 = stat_of fs"
      "snapshot_version_list fs1 = snapshot_version_list fs" "smi_block_size fs1 = smi_block_size fs"
    and len1: "length (buffer_pool fs1) \<le> length (buffer_pool fs) + 2 * block_count (8 + 136 * length ?path2) (smi_block_size fs)"
    using save_entries [OF sok dok k2 rename_room_first [OF sok room(1) l2] b2] by metis
  have c2: "dir_map ?path2 = (child fs FILESYSTEM_CUR_MODIFIABLE_VER d2)(m \<mapsto> t)"
    using dir_map_snoc [OF free', of t] e2 by (simp add: child_def fun_eq_iff)
  have found1: "resolve fs1 FILESYSTEM_CUR_MODIFIABLE_VER p FILESYSTEM_ROOT_INODE_NUMBER = Inr d1"
  proof (rule resolve_mono [OF _ _ _ d1])
    show "kind fs1 k = Some True" if "kind fs k = Some True" for k using that r1(2) by simp
    show "fs_data fs1 k FILESYSTEM_CUR_MODIFIABLE_VER \<noteq> None" if "fs_data fs k FILESYSTEM_CUR_MODIFIABLE_VER \<noteq> None" for k
      using that dt1 [of FILESYSTEM_CUR_MODIFIABLE_VER k] entries_data [OF dok1 en1(1)] by (cases "k = d2") auto
    show "child fs1 FILESYSTEM_CUR_MODIFIABLE_VER k x = Some s" if "child fs FILESYSTEM_CUR_MODIFIABLE_VER k x = Some s" for k x s
      using that free by (auto simp: ch1 c2)
  qed
  define path where "path = (if d1 = d2 then ?path2 else path1)"
  have en: "entries fs1 FILESYSTEM_CUR_MODIFIABLE_VER d1 = Some path" using en1 e1 by (simp add: path_def)
  have dm: "dir_map path = child fs1 FILESYSTEM_CUR_MODIFIABLE_VER d1" using en by (simp add: child_def fun_eq_iff)
  have "child fs1 FILESYSTEM_CUR_MODIFIABLE_VER d1 n = Some t" using t free by (auto simp: ch1 c2)
  then have "dir_map path n = Some t" using dm by simp
  then obtain rest where rest: "remove_path path n = Inr rest" "dir_map rest = (dir_map path)(n := None)"
    and b1: "dir_bytes rest (encode_dentry rest)" and lr: "length rest \<le> length path"
    using dir_bytes_remove [OF entries_dir_bytes [OF dok1 en]] by blast
  have "length path \<le> N" using l2 room(2) by (simp add: path_def)
  then have "length rest \<le> N" using lr by simp
  then have room2: "dir_room fs1 (length rest)" by (rule rename_room_second [OF sok room(1) l2 _ r1(5) len1 sok1])
  have k1': "kind fs1 d1 = Some True" using k1 r1(2) by simp
  obtain fs2 where run2: "on_inode d1 (save_current rest) fs1 = (Inr (), fs2)" and sok2: "storage_ok fs2" and dok2: "dirs_ok fs2"
    and ch2: "child fs2 = (child fs1)(FILESYSTEM_CUR_MODIFIABLE_VER := (child fs1 FILESYSTEM_CUR_MODIFIABLE_VER)(d1 := dir_map rest))"
    and dt2: "\<And>m v. v \<noteq> FILESYSTEM_CUR_MODIFIABLE_VER \<or> m \<noteq> d1 \<Longrightarrow> fs_data fs2 m v = fs_data fs1 m v"
    and r2: "links fs2 = links fs1" "kind fs2 = kind fs1" "stat_of fs2 = stat_of fs1"
      "snapshot_version_list fs2 = snapshot_version_list fs1"
    using save_entries [OF sok1 dok1 k1' room2 b1] by metis
  have child2: "child fs2 v k x = (if v = FILESYSTEM_CUR_MODIFIABLE_VER then
      (if k = d1 \<and> x = n then None else if k = d2 \<and> x = m then Some t else child fs v k x) else child fs v k x)" for v k x
    by (auto simp: ch2 rest(2) dm ch1 c2)
  have ok2: "fs_ok fs2"
  proof (rule moved_tree_ok [OF ok sok2 dok2 _ _ _ _ t])
    show "fs_data fs2 k v = fs_data fs k v" if "v \<noteq> FILESYSTEM_CUR_MODIFIABLE_VER" for k v
      using that dt2 [of v k] dt1 [of v k] by simp
    show "v = FILESYSTEM_CUR_MODIFIABLE_VER \<and> k = d2 \<and> x = m \<and> s = t
        \<or> child fs v k x = Some s \<and> (v, k, x) \<noteq> (FILESYSTEM_CUR_MODIFIABLE_VER, d1, n)" if "child fs2 v k x = Some s" for v k x s
      using that unfolding child2 by (auto split: if_splits)
  qed (simp_all add: r1 r2)
  have i1: "inode_of fs1 d1 \<noteq> None" using k1' by (auto simp: kind_Some)
  have dt: "fs_data fs2 k v = fs_data fs k v" if "v \<noteq> FILESYSTEM_CUR_MODIFIABLE_VER \<or> k \<noteq> d1 \<and> k \<noteq> d2" for k v
    using that dt2 [of v k] dt1 [of v k] by auto
  show thesis
    by (rule that [OF run1 sok1 dok1 found1 i1 en rest(1) run2 ok2]) (use child2 r1 r2 dt in \<open>simp_all add: version_inodes_def\<close>)
qed

text \<open>The handler from that state on, given what its first half did to the directory.\<close>

lemma do_rename_eq:
  assumes ok: "fs_ok fs" and p: "plain_path (p @ [n])" and q: "plain_path (q @ [m])"
    and d1: "resolve fs FILESYSTEM_CUR_MODIFIABLE_VER p FILESYSTEM_ROOT_INODE_NUMBER = Inr d1"
    and t: "child fs FILESYSTEM_CUR_MODIFIABLE_VER d1 n = Some t"
    and d2: "resolve fs FILESYSTEM_CUR_MODIFIABLE_VER q FILESYSTEM_ROOT_INODE_NUMBER = Inr d2"
    and e2: "entries fs FILESYSTEM_CUR_MODIFIABLE_VER d2 = Some path2"
    and add: "rename_add d2 path2 m t fs = (Inr (), fs1)"
    and sok1: "storage_ok fs1" and dok1: "dirs_ok fs1"
    and found1: "resolve fs1 FILESYSTEM_CUR_MODIFIABLE_VER p FILESYSTEM_ROOT_INODE_NUMBER = Inr d1"
    and i1: "inode_of fs1 d1 \<noteq> None"
    and en: "entries fs1 FILESYSTEM_CUR_MODIFIABLE_VER d1 = Some path" and rest: "remove_path path n = Inr rest"
    and run2: "on_inode d1 (save_current rest) fs1 = (Inr (), fs2)"
  shows "do_rename env (path_to_string (p @ [n])) (path_to_string (q @ [m])) fs = (Inr 0, fs2)"
proof -
  note sok = fs_okD(1) [OF ok] and dok = fs_okD(4) [OF ok]
  have i2: "inode_of fs d2 \<noteq> None" using entries_data [OF dok e2] by (auto simp: kind_Some)
  have "resolve fs FILESYSTEM_CUR_MODIFIABLE_VER (p @ [n]) FILESYSTEM_ROOT_INODE_NUMBER = Inr t" using d1 t by (rule resolve_snoc)
  then have g1: "get_inode_id_by_path (path_to_string (p @ [n])) fs = (Inr t, fs)"
    by (simp add: plain_path_parent [OF ok p])
  have g2: "get_inode_id_by_path (path_to_string q) fs = (Inr d2, fs)"
    using d2 by (simp add: plain_path_parent [OF ok plain_pathD(2) [OF q]])
  have g3: "get_inode_id_by_path (path_to_string p) fs1 = (Inr d1, fs1)"
    using found1 by (simp add: get_inode_id_by_path_eq [OF sok1 dok1] plain_path_locate [OF plain_pathD(2) [OF p]])
  show ?thesis
    unfolding do_rename_def plain_path_rules(3) [OF p] plain_path_rules(3) [OF q]
    by (rule catch_tail_Inr)
       (simp add: bindx_app liftx_app g1 plain_path_rules(1) [OF p] plain_path_rules(1) [OF q] g2 get_inode_by_id_eq [OF i2]
          open_entries [OF sok dok e2] add g3 get_inode_by_id_eq [OF i1] open_entries [OF sok1 dok1 en] rest run2 ret_app)
qed

lemma rename_add_free:
  assumes "dir_map path2 m = None" and "on_inode d2 (save_current (path2 @ [\<lparr>pathname = m, pack_inode = t\<rparr>])) fs = (Inr (), fs1)"
  shows "rename_add d2 path2 m t fs = (Inr (), fs1)"
  using assms by (simp add: rename_add_def catchx_app bindx_app liftx_app add_path_ok)

lemma rename_ok:
  assumes ok: "fs_ok fs" and p: "plain_path (p @ [n])" and q: "plain_path (q @ [m])"
    and d1: "resolve fs FILESYSTEM_CUR_MODIFIABLE_VER p FILESYSTEM_ROOT_INODE_NUMBER = Inr d1"
    and t: "child fs FILESYSTEM_CUR_MODIFIABLE_VER d1 n = Some t"
    and d2: "resolve fs FILESYSTEM_CUR_MODIFIABLE_VER q FILESYSTEM_ROOT_INODE_NUMBER = Inr d2"
    and e1: "entries fs FILESYSTEM_CUR_MODIFIABLE_VER d1 = Some path1"
    and e2: "entries fs FILESYSTEM_CUR_MODIFIABLE_VER d2 = Some path2"
    and free: "child fs FILESYSTEM_CUR_MODIFIABLE_VER d2 m = None" and name: "storable_name m"
    and room: "rename_room fs N" "length path1 \<le> N" "Suc (length path2) \<le> N"
  shows "\<exists>fs'. do_rename env (path_to_string (p @ [n])) (path_to_string (q @ [m])) fs = (Inr 0, fs') \<and> fs_ok fs'
     \<and> (\<forall>k x. child fs' FILESYSTEM_CUR_MODIFIABLE_VER k x
          = (if k = d1 \<and> x = n then None else if k = d2 \<and> x = m then Some t else child fs FILESYSTEM_CUR_MODIFIABLE_VER k x))
     \<and> (\<forall>k v. v \<noteq> FILESYSTEM_CUR_MODIFIABLE_VER \<or> k \<noteq> d1 \<and> k \<noteq> d2 \<longrightarrow> fs_data fs' k v = fs_data fs k v)
     \<and> kind fs' = kind fs \<and> links fs' = links fs \<and> stat_of fs' = stat_of fs \<and> version_inodes fs' = version_inodes fs"
proof -
  have free': "dir_map path2 m = None" using free e2 by (simp add: child_def)
  obtain fs1 path rest fs' where c: "on_inode d2 (save_current (path2 @ [\<lparr>pathname = m, pack_inode = t\<rparr>])) fs = (Inr (), fs1)"
    "storage_ok fs1" "dirs_ok fs1"
    "resolve fs1 FILESYSTEM_CUR_MODIFIABLE_VER p FILESYSTEM_ROOT_INODE_NUMBER = Inr d1" "inode_of fs1 d1 \<noteq> None"
    "entries fs1 FILESYSTEM_CUR_MODIFIABLE_VER d1 = Some path" "remove_path path n = Inr rest"
    "on_inode d1 (save_current rest) fs1 = (Inr (), fs')"
    and r: "fs_ok fs'" "\<forall>k x. child fs' FILESYSTEM_CUR_MODIFIABLE_VER k x
          = (if k = d1 \<and> x = n then None else if k = d2 \<and> x = m then Some t else child fs FILESYSTEM_CUR_MODIFIABLE_VER k x)"
      "\<forall>k v. v \<noteq> FILESYSTEM_CUR_MODIFIABLE_VER \<or> k \<noteq> d1 \<and> k \<noteq> d2 \<longrightarrow> fs_data fs' k v = fs_data fs k v"
      "kind fs' = kind fs" "links fs' = links fs" "stat_of fs' = stat_of fs" "version_inodes fs' = version_inodes fs"
    using ok d1 t e1 e2 free name room by (rule rename_core)
  have "do_rename env (path_to_string (p @ [n])) (path_to_string (q @ [m])) fs = (Inr 0, fs')"
    by (rule do_rename_eq [OF ok p q d1 t d2 e2 rename_add_free [OF free' c(1)] c(2-8)])
  then show ?thesis using r by blast
qed

end
