(* ===== verification/Fs_Map.thy ===== *)
theory Fs_Map
  imports Fuse_Rename
begin

text \<open>
  \<open>export_as_filesystem_map\<close>: the recursion through the tree of a version ends, because a
  path without repetition is never longer than the number of inodes, and it lists every
  path of the version once.
\<close>

section \<open>Paths of the tree\<close>

text \<open>Every inode has one path, since it has one entry and the root has none.\<close>

lemma resolve_root_only:
  assumes "fs_ok fs" and "resolve fs v p FILESYSTEM_ROOT_INODE_NUMBER = Inr FILESYSTEM_ROOT_INODE_NUMBER"
  shows "p = []"
proof (cases p rule: rev_cases)
  case (snoc q n)
  with assms(2) obtain d where "child fs v d n = Some FILESYSTEM_ROOT_INODE_NUMBER" by (auto elim: resolve_snocE)
  then show ?thesis using tree_okD(2) [OF fs_okD(3) [OF assms(1)]] by blast
qed simp

lemma resolve_inj:
  assumes ok: "fs_ok fs"
  shows "resolve fs v p FILESYSTEM_ROOT_INODE_NUMBER = Inr k \<Longrightarrow> resolve fs v q FILESYSTEM_ROOT_INODE_NUMBER = Inr k \<Longrightarrow> p = q"
proof (induction p arbitrary: q k rule: rev_induct)
  case Nil
  then have "resolve fs v q FILESYSTEM_ROOT_INODE_NUMBER = Inr FILESYSTEM_ROOT_INODE_NUMBER" by simp
  then show ?case using resolve_root_only [OF ok] by metis
next
  case (snoc n p)
  obtain d where d: "resolve fs v p FILESYSTEM_ROOT_INODE_NUMBER = Inr d" "child fs v d n = Some k"
    using snoc.prems(1) by (rule resolve_snocE)
  show ?case
  proof (cases q rule: rev_cases)
    case Nil
    then have "resolve fs v (p @ [n]) FILESYSTEM_ROOT_INODE_NUMBER = Inr FILESYSTEM_ROOT_INODE_NUMBER"
      using snoc.prems by simp
    from resolve_root_only [OF ok this] show ?thesis by simp
  next
    case (snoc q' m)
    with snoc.prems(2) obtain d' where d': "resolve fs v q' FILESYSTEM_ROOT_INODE_NUMBER = Inr d'" "child fs v d' m = Some k"
      by (auto elim: resolve_snocE)
    then show ?thesis using d tree_okD(3) [OF fs_okD(3) [OF ok] d(2) d'(2)] snoc.IH [of d q'] snoc by simp
  qed
qed

lemma resolve_take:
  assumes "resolve fs v (p @ r) k = Inr t"
  shows "\<exists>d. resolve fs v p k = Inr d"
  using assms by (induction p arbitrary: k) (auto split: option.splits bool.splits if_splits)

lemma inode_numbers: "finite (dom (inode_of fs))" "card (dom (inode_of fs)) \<le> length (inode_pool fs)"
proof -
  have "dom (inode_of fs) = fst ` set (inode_pool fs)"
    by (simp add: inode_of_def [abs_def] dom_map_of_conv_image_fst [symmetric]) auto
  then show "finite (dom (inode_of fs))" "card (dom (inode_of fs)) \<le> length (inode_pool fs)"
    by (simp_all add: card_image_le [THEN le_trans] card_length)
qed

lemma path_depth:
  assumes ok: "fs_ok fs" and r: "resolve fs v p FILESYSTEM_ROOT_INODE_NUMBER = Inr k"
  shows "length p < length (inode_pool fs)"
proof -
  let ?at = "\<lambda>i. case resolve fs v (take i p) FILESYSTEM_ROOT_INODE_NUMBER of Inl e \<Rightarrow> 0 | Inr d \<Rightarrow> d"
  have at: "resolve fs v (take i p) FILESYSTEM_ROOT_INODE_NUMBER = Inr (?at i)" for i
    using resolve_take [of fs v "take i p" "drop i p"] r by fastforce
  have "inj_on ?at {0..length p}"
  proof (rule inj_onI)
    fix i j assume "i \<in> {0..length p}" "j \<in> {0..length p}" "?at i = ?at j"
    with resolve_inj [OF ok at [of i], of "take j p"] at [of j] have "take i p = take j p" by simp
    then have "length (take i p) = length (take j p)" by simp
    with \<open>i \<in> _\<close> \<open>j \<in> _\<close> show "i = j" by simp
  qed
  moreover have "?at ` {0..length p} \<subseteq> dom (inode_of fs)"
    using resolve_inode [OF ok at root_inode [OF ok]] by blast
  ultimately have "card {0..length p} \<le> card (dom (inode_of fs))" using inode_numbers(1) by (rule card_inj_on_le)
  then show ?thesis using inode_numbers(2) [of fs] by simp
qed

section \<open>Listing one directory\<close>

definition dir_path :: "string list \<Rightarrow> string" where
  "dir_path p = path_to_string p @ ''/''"

lemma dir_path_slash: "\<exists>s. dir_path p = slash # s"
  by (induction p) (auto simp: dir_path_def)

lemma components_dir_path: "\<forall>n\<in>set p. component n \<Longrightarrow> components (dir_path p) = p"
proof (induction p)
  case Nil
  then show ?case by (simp add: dir_path_def)
next
  case (Cons n p)
  obtain s where s: "dir_path p = slash # s" using dir_path_slash by blast
  have "dir_path (n # p) = slash # n @ slash # s"
    using Cons.prems s by (simp add: dir_path_def component_def)
  moreover have "components s = p" using Cons s by simp
  ultimately show ?case using Cons.prems by (simp add: components_Cons)
qed

lemma path_to_string_snoc: "n \<noteq> [] \<Longrightarrow> path_to_string (p @ [n]) = dir_path p @ n"
  by (induction p) (simp_all add: dir_path_def)

text \<open>
  The version \<open>v\<close> is there, no name on its paths has a slash, and the current root has no
  entry \<open>.snapshot\<close>. Its names can be written as paths when none is empty.
\<close>

definition listable :: "inode_smi_t \<Rightarrow> string \<Rightarrow> bool" where
  "listable fs v \<longleftrightarrow> v \<in> in_versions fs FILESYSTEM_ROOT_INODE_NUMBER \<and> component v \<and>
     (\<forall>p k. resolve fs v p FILESYSTEM_ROOT_INODE_NUMBER = Inr k \<longrightarrow> (\<forall>n\<in>set p. slash \<notin> set n)) \<and>
     (v = FILESYSTEM_CUR_MODIFIABLE_VER \<longrightarrow> child fs v FILESYSTEM_ROOT_INODE_NUMBER ''.snapshot'' = None)"

definition exportable :: "inode_smi_t \<Rightarrow> string \<Rightarrow> bool" where
  "exportable fs v \<longleftrightarrow> listable fs v \<and> (\<forall>p k. resolve fs v p FILESYSTEM_ROOT_INODE_NUMBER = Inr k \<longrightarrow> [] \<notin> set p)"

lemma listableD:
  assumes "listable fs v"
  shows "v \<in> in_versions fs FILESYSTEM_ROOT_INODE_NUMBER" and "component v" and "version_inodes fs v \<noteq> None"
    and "v = FILESYSTEM_CUR_MODIFIABLE_VER \<Longrightarrow> child fs v FILESYSTEM_ROOT_INODE_NUMBER ''.snapshot'' = None"
  using assms by (auto simp: listable_def in_versions_def)

lemma resolved_entry:
  "resolve fs v p k = Inr t \<Longrightarrow> n \<in> set p \<Longrightarrow> \<exists>d. child fs v d n \<noteq> None"
proof (induction p arbitrary: k)
  case (Cons m p)
  then obtain s where "child fs v k m = Some s" "resolve fs v p s = Inr t"
    by (auto split: option.splits bool.splits if_splits)
  then show ?case using Cons by (cases "n = m") auto
qed simp

lemma resolved_components:
  assumes "exportable fs v" and "resolve fs v p FILESYSTEM_ROOT_INODE_NUMBER = Inr t" and "n \<in> set p"
  shows "component n"
  using assms unfolding exportable_def listable_def component_def by metis

definition sub_names :: "inode_smi_t \<Rightarrow> string \<Rightarrow> nat \<Rightarrow> string list" where
  "sub_names fs v k = (case entries fs v k of None \<Rightarrow> [] | Some path \<Rightarrow> names path)"

lemma sub_names_children:
  assumes "fs_ok fs"
  shows "set (sub_names fs v k) = {n. child fs v k n \<noteq> None}" and "distinct (sub_names fs v k)"
proof -
  show "set (sub_names fs v k) = {n. child fs v k n \<noteq> None}"
    by (cases "entries fs v k") (auto simp: sub_names_def child_def dir_map_dom [symmetric])
  show "distinct (sub_names fs v k)"
    using entries_dir_bytes [OF fs_okD(4) [OF assms], of v k]
    by (cases "entries fs v k") (auto simp: sub_names_def dir_bytes_def)
qed

text \<open>The string \<open>s\<close> of the list stands for the inode that its components lead to.\<close>

lemma locate_listed:
  assumes x: "listable fs v" and r: "resolve fs v (components s) FILESYSTEM_ROOT_INODE_NUMBER = Inr k" and s: "s = slash # t"
  shows "locate fs (make_path_with_version s v) = Inr k"
proof (cases "v = FILESYSTEM_CUR_MODIFIABLE_VER")
  case True
  have "components s = [] \<or> hd (components s) \<noteq> ''.snapshot''"
  proof (rule ccontr)
    assume "\<not> ?thesis"
    then obtain q where q: "components s = ''.snapshot'' # q" by (cases "components s") auto
    show False using r listableD(4) [OF x True] unfolding q by (auto split: option.splits bool.splits if_splits)
  qed
  then show ?thesis
    using r True s by (cases "components s") (auto simp: locate_def make_path_with_version_def simp del: resolve.simps(2))
next
  case False
  note v = listableD(2,3) [OF x]
  have e: "make_path_with_version s v = slash # ''.snapshot'' @ slash # v @ s"
    using False by (simp add: make_path_with_version_def)
  have "components (slash # ''.snapshot'' @ slash # v @ s) = ''.snapshot'' # v # components s"
    unfolding s by (simp only: components_slash_Cons components_Cons [OF component_snapshot] components_Cons [OF v(1)])
  then show ?thesis
    unfolding e using r v False by (cases "components s") (auto simp: locate_def simp del: resolve.simps(2))
qed

lemma make_path_eq:
  assumes ok: "fs_ok fs" and x: "listable fs v" and r: "resolve fs v (components s) FILESYSTEM_ROOT_INODE_NUMBER = Inr k" and s: "s = slash # t"
  shows "make_path_for_current_dentry v s fs = (Inr (map (\<lambda>n. s @ n) (sub_names fs v k)), fs)"
proof -
  have v: "v \<in> in_versions fs k" using resolve_in_version [OF ok r listableD(1) [OF x]] .
  have ino: "inode_of fs k \<noteq> None" using resolve_inode [OF ok r root_inode [OF ok]] .
  then obtain i where i: "inode_of fs k = Some i" by auto
  have dir: "on_inode k (getx (\<lambda>s. is_dentry (fst s))) fs = (Inr (kind fs k = Some True), fs)"
    using i by (simp add: on_inode_pure [OF i] getx_app kind_def)
  have open_k: "on_inode k (new_directory_resolver_t v) fs = (Inr (the (entries fs v k)), fs) \<and> entries fs v k \<noteq> None"
    if kd: "kind fs k = Some True"
  proof -
    have "fs_data fs k v \<noteq> None"
      using versions_okD(5) [OF fs_okD(2) [OF ok] ino] current_data [OF ok ino] v by (cases "v = FILESYSTEM_CUR_MODIFIABLE_VER") simp_all
    then obtain c where "fs_data fs k v = Some c" by auto
    from dirs_okE [OF fs_okD(4) [OF ok] kd this] obtain path where "entries fs v k = Some path" by metis
    then show ?thesis using open_entries [OF fs_okD(1,4) [OF ok]] by auto
  qed
  have none: "sub_names fs v k = []" if "kind fs k \<noteq> Some True" using that by (simp add: sub_names_def entries_def)
  show ?thesis
    using open_k none
    by (auto simp: make_path_for_current_dentry_def bindx_app get_inode_id_by_path_locate [OF ok] locate_listed [OF x r s]
        get_inode_by_id_eq [OF ino] dir ret_app to_vector_def sub_names_def names_def)
qed

section \<open>The recursion\<close>

text \<open>The paths of a version, and a list \<open>R\<close> of those below one of \<open>ps\<close>, each once.\<close>

definition leads :: "inode_smi_t \<Rightarrow> string \<Rightarrow> string list \<Rightarrow> bool" where
  "leads fs v p \<longleftrightarrow> (\<exists>k. resolve fs v p FILESYSTEM_ROOT_INODE_NUMBER = Inr k)"

definition lists_below :: "inode_smi_t \<Rightarrow> string \<Rightarrow> string list list \<Rightarrow> string list list \<Rightarrow> bool" where
  "lists_below fs v ps R \<longleftrightarrow> distinct R \<and> set R = {p @ r | p r. p \<in> set ps \<and> r \<noteq> [] \<and> leads fs v (p @ r)}"

text \<open>The string that stands for a path in the list of directories.\<close>

definition listed :: "string list \<Rightarrow> string" where
  "listed p = (if p = [] then ''/'' else path_to_string p)"

lemma listed_snoc [simp]: "listed (p @ [n]) = path_to_string (p @ [n])"
  by (simp add: listed_def)

lemma listed_slash: "\<forall>n\<in>set p. component n \<Longrightarrow> (if listed p = ''/'' then ''/'' else listed p @ ''/'') = dir_path p"
  by (cases p) (auto simp: listed_def dir_path_def component_def)

lemma resolve_children:
  assumes "resolve fs v p k = Inr d"
  shows "resolve fs v (p @ n # r) k = Inr t \<longleftrightarrow> (\<exists>c. child fs v d n = Some c \<and> resolve fs v r c = Inr t)"
proof -
  have "resolve fs v (p @ q) k = resolve fs v q d" for q
    using assms by (induction p arbitrary: k) (auto split: option.splits bool.splits if_splits)
  moreover have "resolve fs v (n # r) d = Inr t \<longleftrightarrow> (\<exists>c. child fs v d n = Some c \<and> resolve fs v r c = Inr t)"
    using child_kind [of fs v d n] by (auto split: option.splits bool.splits)
  ultimately show ?thesis by simp
qed

abbreviation kids :: "inode_smi_t \<Rightarrow> string \<Rightarrow> string list \<Rightarrow> nat \<Rightarrow> string list list" where
  "kids fs v p d \<equiv> map (\<lambda>n. p @ [n]) (sub_names fs v d)"

lemma leads_kid:
  assumes ok: "fs_ok fs" and r: "resolve fs v p FILESYSTEM_ROOT_INODE_NUMBER = Inr d" and q: "leads fs v (p @ n # q)"
  shows "n \<in> set (sub_names fs v d)"
  using q resolve_children [OF r, of n q] sub_names_children(1) [OF ok, of v d] by (auto simp: leads_def)

lemma kid_leads:
  assumes ok: "fs_ok fs" and r: "resolve fs v p FILESYSTEM_ROOT_INODE_NUMBER = Inr d" and n: "n \<in> set (sub_names fs v d)"
  shows "leads fs v (p @ [n])"
  using n resolve_children [OF r, of n "[]"] sub_names_children(1) [OF ok, of v d] by (auto simp: leads_def)

text \<open>Below a directory are its entries and what is below them.\<close>

lemma below_kids:
  assumes ok: "fs_ok fs" and r: "resolve fs v p FILESYSTEM_ROOT_INODE_NUMBER = Inr d" and R: "lists_below fs v (kids fs v p d) R"
  shows "x \<in> set (kids fs v p d) \<or> x \<in> set R \<longleftrightarrow> (\<exists>q. x = p @ q \<and> q \<noteq> [] \<and> leads fs v (p @ q))"
proof
  assume "x \<in> set (kids fs v p d) \<or> x \<in> set R"
  then obtain n q where n: "x = (p @ [n]) @ q" "n \<in> set (sub_names fs v d)" and q: "q = [] \<or> leads fs v ((p @ [n]) @ q)"
    using R unfolding lists_below_def set_map by fastforce
  have "leads fs v (p @ n # q)" using q kid_leads [OF ok r n(2)] by (cases "q = []") auto
  then show "\<exists>q. x = p @ q \<and> q \<noteq> [] \<and> leads fs v (p @ q)" using n(1) by (intro exI [of _ "n # q"]) simp
next
  assume "\<exists>q. x = p @ q \<and> q \<noteq> [] \<and> leads fs v (p @ q)"
  then obtain n q where q: "x = p @ n # q" "leads fs v (p @ n # q)" by (auto simp: neq_Nil_conv)
  note n = leads_kid [OF ok r q(2)]
  show "x \<in> set (kids fs v p d) \<or> x \<in> set R"
  proof (cases "q = []")
    case True
    then show ?thesis using n q(1) by simp
  next
    case False
    have "\<exists>p' r. x = p' @ r \<and> p' \<in> set (kids fs v p d) \<and> r \<noteq> [] \<and> leads fs v (p' @ r)"
      using n q False by (intro exI [of _ "p @ [n]"] exI [of _ q]) simp
    then show ?thesis using R unfolding lists_below_def by blast
  qed
qed

lemma lists_below_Cons:
  assumes ok: "fs_ok fs" and r: "resolve fs v p FILESYSTEM_ROOT_INODE_NUMBER = Inr d"
    and len: "\<forall>q\<in>set ps. length q = length p" and new: "p \<notin> set ps"
    and R1: "lists_below fs v (kids fs v p d) R1" and R2: "lists_below fs v ps R2"
  shows "lists_below fs v (p # ps) (kids fs v p d @ R1 @ R2)"
proof -
  note s1 = below_kids [OF ok r R1]
  have s2: "x \<in> set R2 \<longleftrightarrow> (\<exists>q r. x = q @ r \<and> q \<in> set ps \<and> r \<noteq> [] \<and> leads fs v (q @ r))" for x
    using R2 unfolding lists_below_def by blast
  have apart: "y \<notin> set R2" if y: "y \<in> set (kids fs v p d) \<or> y \<in> set R1" for y
  proof
    assume "y \<in> set R2"
    then obtain q r where "q \<in> set ps" "y = q @ r" unfolding s2 by blast
    moreover obtain s where "y = p @ s" using y unfolding s1 by blast
    ultimately show False using len new by (metis append_eq_append_conv)
  qed
  have "y \<notin> set R1" if "y \<in> set (kids fs v p d)" for y
    using that R1 unfolding lists_below_def set_map by fastforce
  moreover have "distinct (kids fs v p d)" using sub_names_children(2) [OF ok] by (simp add: distinct_map inj_on_def)
  moreover have "distinct R1" "distinct R2" using R1 R2 by (simp_all add: lists_below_def)
  ultimately have "distinct (kids fs v p d @ R1 @ R2)" using apart by auto
  moreover have "x \<in> set (kids fs v p d @ R1 @ R2)
      \<longleftrightarrow> (\<exists>q r. x = q @ r \<and> q \<in> set (p # ps) \<and> r \<noteq> [] \<and> leads fs v (q @ r))" for x
    using s1 [of x] s2 [of x] by (simp only: set_append Un_iff set_simps insert_iff) blast
  ultimately show ?thesis unfolding lists_below_def by blast
qed

lemma make_path_dir:
  assumes ok: "fs_ok fs" and x: "exportable fs v" and r: "resolve fs v p FILESYSTEM_ROOT_INODE_NUMBER = Inr k"
  shows "make_path_for_current_dentry v (dir_path p) fs = (Inr (map (\<lambda>n. path_to_string (p @ [n])) (sub_names fs v k)), fs)"
proof -
  have c: "components (dir_path p) = p" using resolved_components [OF x r] by (intro components_dir_path) blast
  obtain t where s: "dir_path p = slash # t" using dir_path_slash by blast
  have "dir_path p @ n = path_to_string (p @ [n])" if n: "n \<in> set (sub_names fs v k)" for n
  proof -
    obtain t where "resolve fs v (p @ [n]) FILESYSTEM_ROOT_INODE_NUMBER = Inr t" using kid_leads [OF ok r n] by (auto simp: leads_def)
    then have "n \<noteq> []" using resolved_components [OF x] by (fastforce simp: component_def)
    then show ?thesis by (simp add: path_to_string_snoc)
  qed
  then show ?thesis using make_path_eq [OF ok _ _ s] r x c by (simp add: exportable_def cong: map_cong)
qed

text \<open>The fuel is enough when it exceeds what is left of the longest possible path.\<close>

lemma recursion_check_ok:
  assumes ok: "fs_ok fs" and x: "exportable fs v"
  shows "\<forall>p\<in>set ps. length p = l \<and> leads fs v p \<Longrightarrow> distinct ps \<Longrightarrow> length (inode_pool fs) \<le> fuel + l \<Longrightarrow>
    \<exists>R. recursion_check fuel v (map listed ps) out fs = (Inr (Some (out @ map path_to_string R)), fs) \<and> lists_below fs v ps R"
proof (induction fuel arbitrary: l ps out)
  case 0
  have "ps = []"
  proof (rule ccontr)
    assume "ps \<noteq> []"
    with 0 obtain p k where "length p = l" "resolve fs v p FILESYSTEM_ROOT_INODE_NUMBER = Inr k"
      unfolding leads_def by (meson hd_in_set)
    with path_depth [OF ok this(2)] 0(3) show False by simp
  qed
  then show ?case by (intro exI [of _ "[]"]) (simp add: ret_app lists_below_def)
next
  case (Suc fuel)
  note deeper = Suc.IH
  show ?case
    using Suc.prems(1,2)
  proof (induction ps arbitrary: out)
    case Nil
    show ?case by (intro exI [of _ "[]"]) (simp add: ret_app lists_below_def)
  next
    case (Cons p ps)
    obtain d where d: "resolve fs v p FILESYSTEM_ROOT_INODE_NUMBER = Inr d" using Cons.prems(1) by (auto simp: leads_def)
    have c: "\<forall>n\<in>set p. component n" using resolved_components [OF x d] by blast
    let ?out = "out @ map path_to_string (kids fs v p d)"
    have k: "\<forall>q\<in>set (kids fs v p d). length q = Suc l \<and> leads fs v q" using kid_leads [OF ok d] Cons.prems(1) by auto
    have dk: "distinct (kids fs v p d)" using sub_names_children(2) [OF ok] by (simp add: distinct_map inj_on_def)
    obtain R1 where R1: "recursion_check fuel v (map listed (kids fs v p d)) ?out fs = (Inr (Some (?out @ map path_to_string R1)), fs)"
      "lists_below fs v (kids fs v p d) R1"
      using deeper [OF k dk, of ?out] Suc.prems(3) by auto
    obtain R2 where R2: "recursion_check (Suc fuel) v (map listed ps) (?out @ map path_to_string R1) fs
        = (Inr (Some ((?out @ map path_to_string R1) @ map path_to_string R2)), fs)" "lists_below fs v ps R2"
      using Cons.IH [of "?out @ map path_to_string R1"] Cons.prems by auto
    have "recursion_check (Suc fuel) v (map listed (p # ps)) out fs
        = (Inr (Some (out @ map path_to_string (kids fs v p d @ R1 @ R2))), fs)"
      using R1(1) R2(1) make_path_dir [OF ok x d] listed_slash [OF c] by (simp add: bindx_app comp_def)
    moreover have "lists_below fs v (p # ps) (kids fs v p d @ R1 @ R2)"
      using Cons.prems by (intro lists_below_Cons [OF ok d _ _ R1(2) R2(2)]) auto
    ultimately show ?case by blast
  qed
qed

lemma export_ok:
  assumes ok: "fs_ok fs" and x: "exportable fs v" and fuel: "length (inode_pool fs) \<le> fuel"
  shows "\<exists>paths. export_as_filesystem_map fuel v fs = (Inr (Some paths), fs) \<and> distinct paths
    \<and> set paths = {path_to_string p | p. p \<noteq> [] \<and> leads fs v p}"
proof -
  have root: "\<forall>p\<in>set [[]]. length p = 0 \<and> leads fs v p" by (simp add: leads_def)
  obtain R where R: "recursion_check fuel v (map listed [[]]) [] fs = (Inr (Some ([] @ map path_to_string R)), fs)"
    "lists_below fs v [[]] R"
    using recursion_check_ok [OF ok x root, of fuel "[]"] fuel by auto
  have m: "set R = {p. p \<noteq> [] \<and> leads fs v p}" using R(2) by (auto simp: lists_below_def)
  have "inj_on path_to_string (set R)"
  proof (rule inj_onI)
    fix p q assume "p \<in> set R" "q \<in> set R" "path_to_string p = path_to_string q"
    moreover have "components (path_to_string p) = p" if "p \<in> set R" for p
      using that resolved_components [OF x] m by (intro components_path_to_string) (auto simp: leads_def)
    ultimately show "p = q" by metis
  qed
  then have "distinct (map path_to_string R)" using R(2) by (simp add: distinct_map lists_below_def)
  then show ?thesis using R(1) m by (intro exI [of _ "map path_to_string R"]) (auto simp: export_as_filesystem_map_def listed_def)
qed

section \<open>Entries of the empty name\<close>

text \<open>
  \<open>make_child_dentry_under_parent\<close> accepts the empty name. The path of such an entry is that of
  its directory with a slash more, so the directory is listed below itself, and the recursion
  through it never ends.
\<close>

definition stands_for :: "inode_smi_t \<Rightarrow> string \<Rightarrow> string \<Rightarrow> nat \<Rightarrow> bool" where
  "stands_for fs v s k \<longleftrightarrow> (\<exists>t. s = slash # t) \<and> resolve fs v (components s) FILESYSTEM_ROOT_INODE_NUMBER = Inr k"

abbreviation sub_path :: "string \<Rightarrow> string \<Rightarrow> string" where
  "sub_path s n \<equiv> (if s = ''/'' then ''/'' else s @ ''/'') @ n"

lemma sub_path_components: "s = slash # t \<Longrightarrow> slash \<notin> set n \<Longrightarrow>
   components (sub_path s n) = components s @ (if n = [] then [] else [n])"
  using components_snoc [of n s] components_snoc [of n "[]"] components_snoc [of "[]" t] by simp

lemma make_path_listed:
  assumes ok: "fs_ok fs" and x: "listable fs v" and s: "stands_for fs v s k"
  shows "make_path_for_current_dentry v (if s = ''/'' then ''/'' else s @ ''/'') fs = (Inr (map (sub_path s) (sub_names fs v k)), fs)"
    and "n \<in> set (sub_names fs v k) \<Longrightarrow> stands_for fs v (sub_path s n) (if n = [] then k else the (child fs v k n))"
proof -
  obtain t where t: "s = slash # t" and r: "resolve fs v (components s) FILESYSTEM_ROOT_INODE_NUMBER = Inr k" using s by (auto simp: stands_for_def)
  have c: "components (sub_path s []) = components s" using sub_path_components [OF t, of "[]"] by simp
  obtain u where u: "sub_path s [] = slash # u" using t by (cases "s = ''/''") auto
  show "make_path_for_current_dentry v (if s = ''/'' then ''/'' else s @ ''/'') fs = (Inr (map (sub_path s) (sub_names fs v k)), fs)"
    using make_path_eq [OF ok x _ u] r c by (simp split: if_splits)
  assume n: "n \<in> set (sub_names fs v k)"
  obtain d where d: "child fs v k n = Some d" "resolve fs v (components s @ [n]) FILESYSTEM_ROOT_INODE_NUMBER = Inr d"
    using n resolve_children [OF r, of n "[]"] sub_names_children(1) [OF ok, of v k] by auto
  then have "slash \<notin> set n" using x by (fastforce simp: listable_def)
  then show "stands_for fs v (sub_path s n) (if n = [] then k else the (child fs v k n))"
    using sub_path_components [OF t] r d t by (simp add: stands_for_def)
qed

text \<open>Every string of the list stands for an inode, so nothing is thrown on the way.\<close>

lemma recursion_check_runs:
  assumes ok: "fs_ok fs" and x: "listable fs v"
  shows "\<forall>s\<in>set ps. \<exists>k. stands_for fs v s k \<Longrightarrow> \<exists>r. recursion_check fuel v ps out fs = (Inr r, fs)"
proof (induction fuel arbitrary: ps out)
  case 0
  then show ?case by (cases ps) (simp_all add: ret_app)
next
  case (Suc fuel)
  note deeper = Suc.IH
  show ?case using Suc.prems
  proof (induction ps arbitrary: out)
    case (Cons s ps)
    obtain k where s: "stands_for fs v s k" using Cons.prems by auto
    note paths = make_path_listed [OF ok x s]
    have "\<forall>s'\<in>set (map (sub_path s) (sub_names fs v k)). \<exists>k'. stands_for fs v s' k'" using paths(2) unfolding set_map by blast
    from deeper [OF this] obtain r where
      r: "recursion_check fuel v (map (sub_path s) (sub_names fs v k)) (out @ map (sub_path s) (sub_names fs v k)) fs = (Inr r, fs)"
      by blast
    show ?case
    proof (cases r)
      case None
      then show ?thesis using r paths(1) by (simp add: bindx_app ret_app)
    next
      case (Some out')
      then show ?thesis using r paths(1) Cons.IH [of out'] Cons.prems by (simp add: bindx_app)
    qed
  qed (simp add: ret_app)
qed

text \<open>Below \<open>s\<close> is a directory with an entry of the empty name.\<close>

definition looping :: "inode_smi_t \<Rightarrow> string \<Rightarrow> string \<Rightarrow> bool" where
  "looping fs v s \<longleftrightarrow> (\<exists>q d. resolve fs v (components s @ q) FILESYSTEM_ROOT_INODE_NUMBER = Inr d \<and> [] \<notin> set q \<and> child fs v d [] \<noteq> None)"

lemma looping_below:
  assumes ok: "fs_ok fs" and x: "listable fs v" and s: "stands_for fs v s k" and l: "looping fs v s"
  shows "\<exists>n\<in>set (sub_names fs v k). looping fs v (sub_path s n)"
proof -
  obtain q d where q: "resolve fs v (components s @ q) FILESYSTEM_ROOT_INODE_NUMBER = Inr d" "[] \<notin> set q" "child fs v d [] \<noteq> None"
    using l by (auto simp: looping_def)
  obtain t where t: "s = slash # t" and r: "resolve fs v (components s) FILESYSTEM_ROOT_INODE_NUMBER = Inr k" using s by (auto simp: stands_for_def)
  show ?thesis
  proof (cases q)
    case Nil
    then have "[] \<in> set (sub_names fs v k)" using q r sub_names_children(1) [OF ok, of v k] by auto
    then show ?thesis using q sub_path_components [OF t, of "[]"] by (intro bexI [of _ "[]"]) (auto simp: looping_def)
  next
    case (Cons n q')
    have n: "n \<in> set (sub_names fs v k)" using q(1) Cons leads_kid [OF ok r, of n q'] by (auto simp: leads_def)
    have "slash \<notin> set n" using x q(1) Cons by (fastforce simp: listable_def)
    moreover have "n \<noteq> []" using q(2) Cons by auto
    ultimately have "components (sub_path s n) @ q' = components s @ q" using sub_path_components [OF t] Cons by simp
    moreover have "[] \<notin> set q'" using q(2) Cons by simp
    ultimately have "looping fs v (sub_path s n)" unfolding looping_def using q(1,3) by metis
    then show ?thesis using n by blast
  qed
qed

lemma recursion_check_loops:
  assumes ok: "fs_ok fs" and x: "listable fs v"
  shows "\<forall>s\<in>set ps. \<exists>k. stands_for fs v s k \<Longrightarrow> \<exists>s\<in>set ps. looping fs v s \<Longrightarrow>
    recursion_check fuel v ps out fs = (Inr None, fs)"
proof (induction fuel arbitrary: ps out)
  case 0
  then show ?case by (cases ps) (simp_all add: ret_app)
next
  case (Suc fuel)
  note deeper = Suc.IH
  show ?case using Suc.prems
  proof (induction ps arbitrary: out)
    case (Cons s ps)
    obtain k where s: "stands_for fs v s k" using Cons.prems by auto
    note paths = make_path_listed [OF ok x s]
    let ?below = "map (sub_path s) (sub_names fs v k)"
    have stand: "\<forall>s'\<in>set ?below. \<exists>k'. stands_for fs v s' k'" using paths(2) unfolding set_map by blast
    from recursion_check_runs [OF ok x this] obtain r where r: "recursion_check fuel v ?below (out @ ?below) fs = (Inr r, fs)"
      by blast
    show ?case
    proof (cases r)
      case None
      then show ?thesis using r paths(1) by (simp add: bindx_app ret_app)
    next
      case (Some out')
      have "\<not> looping fs v s"
        using deeper [OF stand, of "out @ ?below"] looping_below [OF ok x s] r Some by auto
      then show ?thesis using Some r paths(1) Cons.IH [of out'] Cons.prems by (simp add: bindx_app)
    qed
  qed simp
qed

lemma export_diverges:
  assumes ok: "fs_ok fs" and x: "listable fs v" and d: "resolve fs v p FILESYSTEM_ROOT_INODE_NUMBER = Inr d" "[] \<notin> set p" "child fs v d [] \<noteq> None"
  shows "export_as_filesystem_map fuel v fs = (Inr None, fs)"
proof -
  have "stands_for fs v ''/'' FILESYSTEM_ROOT_INODE_NUMBER" "looping fs v ''/''" using d by (auto simp: stands_for_def looping_def)
  then have "recursion_check fuel v [''/''] [] fs = (Inr None, fs)" by (intro recursion_check_loops [OF ok x]) auto
  then show ?thesis by (simp only: export_as_filesystem_map_def)
qed

end
