(* ===== verification/Example_States.thy ===== *)
theory Example_States
  imports Smi_Reach Fs_Map
begin

text \<open>
  Concrete states on which the properties are exercised: an inode of six bytes in two
  blocks whose first block a snapshot shares, and a small file system that the model's own
  operations build.
\<close>

section \<open>An inode with a snapshot\<close>

definition demo_pool :: buffer_pool_t where
  "demo_pool = [(0, \<lparr>buf_link_count = 2, buffer = ''abcd''\<rparr>), (1, \<lparr>buf_link_count = 1, buffer = ''ef''\<rparr>)]"

definition demo_inode :: inode_t where
  "demo_inode = \<lparr>block_size = 4, inode_id = 7, is_dentry = False,
     buffer_map = [(''current'', [\<lparr>buf_id = 0, is_snapshoted = True\<rparr>, \<lparr>buf_id = 1, is_snapshoted = False\<rparr>]),
                   (''v1'', [\<lparr>buf_id = 0, is_snapshoted = True\<rparr>])],
     fs_stat = zero_stat\<rparr>"

lemma demo_fields [simp]:
  "block_size demo_inode = 4" "is_dentry demo_inode = False" "length demo_pool = 2"
  "map_of (buffer_map demo_inode) ''v1'' = Some [\<lparr>buf_id = 0, is_snapshoted = True\<rparr>]"
  "map_of (buffer_map demo_inode) ''v2'' = None"
  by (simp_all add: demo_inode_def demo_pool_def)

lemma demo_data:
  "version_data demo_inode demo_pool FILESYSTEM_CUR_MODIFIABLE_VER = Some ''abcdef''"
  "version_data demo_inode demo_pool ''v1'' = Some ''abcd''"
  by (simp_all add: version_data_def demo_inode_def demo_pool_def contents_def bdata_def
      FILESYSTEM_CUR_MODIFIABLE_VER_def)

lemma demo_refs: "snap_refs demo_inode j = (if j = 0 then 1 else 0)"
  by (simp add: snap_refs_def demo_inode_def FILESYSTEM_CUR_MODIFIABLE_VER_def)

lemma demo_owned:
  "owned (snap_refs demo_inode) [\<lparr>buf_id = 0, is_snapshoted = True\<rparr>, \<lparr>buf_id = 1, is_snapshoted = False\<rparr>] demo_pool"
proof (rule ownedI)
  show "linked (snap_refs demo_inode)
      (ids [\<lparr>buf_id = 0, is_snapshoted = True\<rparr>, \<lparr>buf_id = 1, is_snapshoted = False\<rparr>]) demo_pool i"
    if "0 < snap_refs demo_inode i \<or> i \<in> ids [\<lparr>buf_id = 0, is_snapshoted = True\<rparr>, \<lparr>buf_id = 1, is_snapshoted = False\<rparr>]" for i
    using that by (auto simp: demo_refs linked_def demo_pool_def ids_def split: if_splits)
qed (auto simp: demo_refs demo_pool_def map_ok_def)

lemma demo_inode_ok: "inode_ok demo_inode demo_pool"
proof -
  have h: "holds 4 demo_pool bl (concat (contents demo_pool bl))"
    if "map_of (buffer_map demo_inode) v = Some bl" for v bl
    using that by (auto simp: holds_def present_def demo_inode_def demo_pool_def contents_def bdata_def
        chunk_def block_count_def split: if_splits) presburger
  show ?thesis
    unfolding inode_ok_def
    using demo_owned h by (auto simp: map_ok_def demo_inode_def demo_pool_def FILESYSTEM_CUR_MODIFIABLE_VER_def)
qed

section \<open>A file system with one file\<close>

definition demo_entries :: dentries where
  "demo_entries = [\<lparr>pathname = ''a'', pack_inode = 1\<rparr>]"

definition demo_dir :: data_t where
  "demo_dir = encode_dentry demo_entries"

definition one_block :: "nat \<Rightarrow> bool \<Rightarrow> nat \<Rightarrow> inode_t" where
  "one_block k dentry j = \<lparr>block_size = 4096, inode_id = k, is_dentry = dentry,
     buffer_map = [(''current'', [\<lparr>buf_id = j, is_snapshoted = False\<rparr>])], fs_stat = zero_stat\<rparr>"

definition demo_fs :: inode_smi_t where
  "demo_fs = \<lparr>smi_block_size = 4096,
     buffer_pool = [(0, \<lparr>buf_link_count = 1, buffer = demo_dir\<rparr>), (1, \<lparr>buf_link_count = 1, buffer = ''hello''\<rparr>)],
     inode_pool = [(0, \<lparr>link_count = 1, inode = one_block 0 True 0\<rparr>), (1, \<lparr>link_count = 1, inode = one_block 1 False 1\<rparr>)],
     snapshot_version_list = [(''current'', [0, 1])]\<rparr>"

lemma chunk_small: "c \<noteq> [] \<Longrightarrow> length c \<le> bs \<Longrightarrow> chunk bs c = [c]"
  by (cases "length c = bs") (auto simp: chunk_def block_count_def)

lemma one_block_ok:
  assumes p: "map_of bp j = Some \<lparr>buf_link_count = 1, buffer = c\<rparr>" and "map_ok bp" and "c \<noteq> []" and "length c \<le> 4096"
  shows "inode_ok (one_block k d j) bp"
    and "version_data (one_block k d j) bp = [FILESYSTEM_CUR_MODIFIABLE_VER \<mapsto> c]"
    and "blocks_of (one_block k d j) = {j}"
proof -
  have r: "snap_refs (one_block k d j) = (\<lambda>_. 0)"
    by (simp add: fun_eq_iff snap_refs_def one_block_def FILESYSTEM_CUR_MODIFIABLE_VER_def)
  have "owned (\<lambda>_. 0) [\<lparr>buf_id = j, is_snapshoted = False\<rparr>] bp"
    using assms by (intro ownedI) (auto simp: linked_def ids_def)
  then show "inode_ok (one_block k d j) bp"
    using assms unfolding inode_ok_def r
    by (auto simp: one_block_def map_ok_def FILESYSTEM_CUR_MODIFIABLE_VER_def holds_def present_def contents_def
        bdata_def chunk_small split: if_splits)
  show "version_data (one_block k d j) bp = [FILESYSTEM_CUR_MODIFIABLE_VER \<mapsto> c]"
    using p by (auto simp: fun_eq_iff version_data_def one_block_def contents_def bdata_def FILESYSTEM_CUR_MODIFIABLE_VER_def)
  show "blocks_of (one_block k d j) = {j}" by (simp add: blocks_of_def one_block_def ids_def)
qed

lemma demo_dir_bytes: "dir_bytes demo_entries demo_dir" "length demo_dir = 144"
  by (simp_all add: dir_bytes_def demo_dir_def demo_entries_def storable_pack_def storable_name_def names_def
      length_encode_dentry)

lemma demo_fs_views:
  "inode_of demo_fs = [0 \<mapsto> one_block 0 True 0, 1 \<mapsto> one_block 1 False 1]"
  "kind demo_fs = [0 \<mapsto> True, 1 \<mapsto> False]"
  "links demo_fs = [0 \<mapsto> 1, 1 \<mapsto> 1]"
  "version_inodes demo_fs = [FILESYSTEM_CUR_MODIFIABLE_VER \<mapsto> [0, 1]]"
  "smi_block_size demo_fs = 4096"
  by (auto simp: fun_eq_iff inode_of_def kind_def links_def version_inodes_def demo_fs_def one_block_def
      FILESYSTEM_CUR_MODIFIABLE_VER_def)

lemma demo_fs_pool: "map_ok (buffer_pool demo_fs)" "map_ok (inode_pool demo_fs)" "map_ok (snapshot_version_list demo_fs)"
  "length (buffer_pool demo_fs) = 2" "length (inode_pool demo_fs) = 2" "length (snapshot_version_list demo_fs) = 1"
  "map_of (buffer_pool demo_fs) 0 = Some \<lparr>buf_link_count = 1, buffer = demo_dir\<rparr>"
  "map_of (buffer_pool demo_fs) 1 = Some \<lparr>buf_link_count = 1, buffer = ''hello''\<rparr>"
  by (simp_all add: demo_fs_def map_ok_def)

lemma demo_blocks:
  "inode_ok (one_block 0 True 0) (buffer_pool demo_fs)" "inode_ok (one_block 1 False 1) (buffer_pool demo_fs)"
  "fs_data demo_fs 0 = [FILESYSTEM_CUR_MODIFIABLE_VER \<mapsto> demo_dir]"
  "fs_data demo_fs 1 = [FILESYSTEM_CUR_MODIFIABLE_VER \<mapsto> ''hello'']"
proof -
  have ne: "demo_dir \<noteq> []" "length demo_dir \<le> 4096" using demo_dir_bytes(2) by auto
  have hl: "''hello'' \<noteq> []" "length ''hello'' \<le> 4096" by simp_all
  note a = one_block_ok [OF demo_fs_pool(7,1) ne] and b = one_block_ok [OF demo_fs_pool(8,1) hl]
  show "inode_ok (one_block 0 True 0) (buffer_pool demo_fs)" "inode_ok (one_block 1 False 1) (buffer_pool demo_fs)"
    using a(1) b(1) by auto
  show "fs_data demo_fs 0 = [FILESYSTEM_CUR_MODIFIABLE_VER \<mapsto> demo_dir]"
    using a(2) by (simp add: fs_data_eq [of demo_fs 0 "one_block 0 True 0"] demo_fs_views)
  show "fs_data demo_fs 1 = [FILESYSTEM_CUR_MODIFIABLE_VER \<mapsto> ''hello'']"
    using b(2) by (simp add: fs_data_eq [of demo_fs 1 "one_block 1 False 1"] demo_fs_views del: One_nat_def)
qed

lemma demo_storage_ok: "storage_ok demo_fs"
proof (rule storage_okI)
  show "inode_ok i (buffer_pool demo_fs) \<and> block_size i = smi_block_size demo_fs \<and> inode_id i = k"
    if "inode_of demo_fs k = Some i" for k i
    using that demo_blocks(1,2) by (auto simp: demo_fs_views one_block_def split: if_splits)
  show "blocks_of i \<inter> blocks_of j = {}"
    if "inode_of demo_fs k = Some i" "inode_of demo_fs m = Some j" "k \<noteq> m" for k m i j
    using that by (auto simp: demo_fs_views one_block_def blocks_of_def ids_def split: if_splits)
qed (simp_all add: demo_fs_pool demo_fs_views)

lemma demo_in_versions: "in_versions demo_fs k = (if k \<le> 1 then {FILESYSTEM_CUR_MODIFIABLE_VER} else {})"
  by (auto simp: in_versions_def demo_fs_views)

lemma demo_fs_data: "fs_data demo_fs k v = (if v = FILESYSTEM_CUR_MODIFIABLE_VER then
    if k = 0 then Some demo_dir else if k = 1 then Some ''hello'' else None else None)"
proof -
  have "fs_data demo_fs k v = None" if "k \<noteq> 0" "k \<noteq> 1"
    using that by (intro fs_data_none) (simp add: demo_fs_views)
  then show ?thesis using demo_blocks(3,4) by auto
qed

lemma demo_entries: "entries demo_fs v k = (if v = FILESYSTEM_CUR_MODIFIABLE_VER \<and> k = 0 then Some demo_entries else None)"
  using dir_bytes_decode [OF demo_dir_bytes(1)] by (simp add: entries_def demo_fs_views demo_fs_data)

lemma demo_child: "child demo_fs v k n = (if v = FILESYSTEM_CUR_MODIFIABLE_VER \<and> k = 0 \<and> n = ''a'' then Some 1 else None)"
  by (simp add: child_def demo_entries) (simp add: demo_entries_def dir_map_def)

lemma demo_fs_ok: "fs_ok demo_fs"
proof -
  have "versions_ok demo_fs"
    by (rule versions_okI) (auto simp: demo_fs_pool demo_fs_views demo_in_versions demo_fs_data split: if_splits)
  moreover have "dirs_ok demo_fs"
    using demo_dir_bytes by (auto simp: dirs_ok_def demo_fs_views demo_fs_data split: if_splits)
  then have "tree_ok demo_fs"
    by (auto simp: tree_ok_def demo_fs_views demo_in_versions demo_child FILESYSTEM_ROOT_INODE_NUMBER_def split: if_splits)
  ultimately show ?thesis using demo_storage_ok by (simp add: fs_ok_def)
qed

lemma demo_exportable: "exportable demo_fs FILESYSTEM_CUR_MODIFIABLE_VER"
  by (auto simp: exportable_def listable_def demo_in_versions demo_child component_def FILESYSTEM_ROOT_INODE_NUMBER_def
      FILESYSTEM_CUR_MODIFIABLE_VER_def dest!: resolved_entry split: if_splits)

section \<open>The same file system with a snapshot\<close>

definition shared_block :: "nat \<Rightarrow> bool \<Rightarrow> nat \<Rightarrow> inode_t" where
  "shared_block k dentry j = \<lparr>block_size = 4096, inode_id = k, is_dentry = dentry,
     buffer_map = [(''current'', [\<lparr>buf_id = j, is_snapshoted = True\<rparr>]), (''v1'', [\<lparr>buf_id = j, is_snapshoted = True\<rparr>])],
     fs_stat = zero_stat\<rparr>"

definition demo_snap :: inode_smi_t where
  "demo_snap = \<lparr>smi_block_size = 4096,
     buffer_pool = [(0, \<lparr>buf_link_count = 2, buffer = demo_dir\<rparr>), (1, \<lparr>buf_link_count = 2, buffer = ''hello''\<rparr>)],
     inode_pool = [(0, \<lparr>link_count = 2, inode = shared_block 0 True 0\<rparr>), (1, \<lparr>link_count = 2, inode = shared_block 1 False 1\<rparr>)],
     snapshot_version_list = [(''current'', [0, 1]), (''v1'', [0, 1])]\<rparr>"

lemma demo_create: "create_snapshot_volume ''v1'' demo_fs = (Inr (), demo_snap)"
  by (simp add: create_snapshot_volume_def demo_fs_def demo_snap_def exec_simps link_inode_def count_link_for_inode_def
      set_link_count_def on_inode_def one_block_def shared_block_def create_new_volume_def blocks_at_def set_blocks_def
      on_pool_def link_buffer_def FILESYSTEM_CUR_MODIFIABLE_VER_def map_emplace_def u64_simps)

lemma demo_guards: "op_ok demo_fs (Snapshot ''v1'')" "version_inodes demo_fs ''v1'' = None" "counters_ok demo_fs"
  "version_inodes demo_fs FILESYSTEM_CUR_MODIFIABLE_VER = Some [0, 1]"
  by (simp_all add: demo_fs_views demo_fs_pool counters_ok_def FILESYSTEM_CUR_MODIFIABLE_VER_def)
     (simp_all add: demo_fs_def split: if_splits)

lemma demo_snap_facts:
  "fs_ok demo_snap" "kind demo_snap = kind demo_fs" "smi_block_size demo_snap = 4096"
  "fs_data demo_snap = (\<lambda>k. if k \<in> {0, 1} then (fs_data demo_fs k)(''v1'' := fs_data demo_fs k FILESYSTEM_CUR_MODIFIABLE_VER) else fs_data demo_fs k)"
  "version_inodes demo_snap = (version_inodes demo_fs)(''v1'' \<mapsto> [0, 1])"
  using create_snapshot_volume_fs_ok [OF demo_fs_ok demo_guards(4,2,3)] demo_create demo_fs_views(5) demo_fs_pool(6)
  by auto

lemma demo_snap_pool: "length (buffer_pool demo_snap) = 2" "length (snapshot_version_list demo_snap) = 2"
  "length (inode_pool demo_snap) = 2"
  by (simp_all add: demo_snap_def)

lemma demo_snap_entries: "entries demo_snap FILESYSTEM_CUR_MODIFIABLE_VER 0 = Some demo_entries"
proof -
  have "entries demo_snap FILESYSTEM_CUR_MODIFIABLE_VER 0 = entries demo_fs FILESYSTEM_CUR_MODIFIABLE_VER 0"
    by (rule entries_cong) (simp_all add: demo_snap_facts FILESYSTEM_CUR_MODIFIABLE_VER_def)
  then show ?thesis by (simp add: demo_entries)
qed

lemma demo_dir_map: "dir_map demo_entries = [''a'' \<mapsto> 1]" "length demo_entries = 1"
  by (simp_all add: demo_entries_def dir_map_def)

lemma demo_snap_remove: "op_ok demo_snap (Remove 0 ''a'')"
  by (simp add: demo_snap_entries demo_dir_map removable_def demo_snap_facts(2,3) demo_fs_views dir_room_def demo_snap_pool
      block_count_def buffer_pool_max_size_def)

definition demo_later :: inode_smi_t where
  "demo_later = snd (run_op (Remove 0 ''a'') demo_snap)"

lemma demo_later_steps: "fs_steps demo_snap [Remove 0 ''a''] demo_later"
proof (rule steps_Cons [OF step [OF demo_snap_remove] steps_Nil])
  show "run_op (Remove 0 ''a'') demo_snap = (fst (run_op (Remove 0 ''a'') demo_snap), demo_later)"
    by (simp add: demo_later_def)
qed

text \<open>An entry of the empty name can be made in the root.\<close>

lemma demo_empty_name:
  "\<exists>k fs'. make_child_dentry_under_parent 0 [] True demo_fs = (Inr k, fs') \<and> fs_ok fs'
     \<and> listable fs' FILESYSTEM_CUR_MODIFIABLE_VER \<and> child fs' FILESYSTEM_CUR_MODIFIABLE_VER FILESYSTEM_ROOT_INODE_NUMBER [] \<noteq> None"
proof -
  let ?cur = FILESYSTEM_CUR_MODIFIABLE_VER
  have e: "entries demo_fs ?cur 0 = Some demo_entries" by (simp add: demo_entries)
  have n: "valid_name []" by (simp add: valid_name_def)
  have f: "child demo_fs ?cur 0 [] = None" by (simp add: demo_child)
  have r: "dir_room demo_fs (Suc (length demo_entries))" "length (inode_pool demo_fs) < inode_pool_max_size"
    by (simp_all add: dir_room_def demo_fs_views demo_fs_pool demo_dir_map block_count_def
        buffer_pool_max_size_def inode_pool_max_size_def)
  obtain ks where ks: "version_inodes demo_fs ?cur = Some ks" "0 \<in> set ks"
    using demo_in_versions [of 0] by (auto simp: in_versions_def)
  from make_child_fs_ok [OF demo_fs_ok e n f r ks(1), of True] obtain k fs' where
    m: "make_child_dentry_under_parent 0 [] True demo_fs = (Inr k, fs')" and ok: "fs_ok fs'"
    and ch: "child fs' = (child demo_fs)(?cur := (child demo_fs ?cur)(0 := (child demo_fs ?cur 0)([] \<mapsto> k)))"
    and vi: "version_inodes fs' = (version_inodes demo_fs)(?cur \<mapsto> ks @ [k])" by blast
  have "n = [] \<or> n = ''a''" if "child fs' ?cur d n \<noteq> None" for d n
    using that by (auto simp: ch demo_child split: if_splits)
  then have "slash \<notin> set n" if "resolve fs' ?cur p FILESYSTEM_ROOT_INODE_NUMBER = Inr t" "n \<in> set p" for p t n
    using resolved_entry [OF that] by fastforce
  moreover have "?cur \<in> in_versions fs' FILESYSTEM_ROOT_INODE_NUMBER"
    using ks vi by (simp add: in_versions_def FILESYSTEM_ROOT_INODE_NUMBER_def)
  moreover have "child fs' ?cur FILESYSTEM_ROOT_INODE_NUMBER ''.snapshot'' = None" "child fs' ?cur FILESYSTEM_ROOT_INODE_NUMBER [] \<noteq> None"
    by (simp_all add: ch demo_child FILESYSTEM_ROOT_INODE_NUMBER_def)
  moreover have "component ?cur" by (simp add: component_def FILESYSTEM_CUR_MODIFIABLE_VER_def)
  ultimately show ?thesis using m ok unfolding listable_def by blast
qed

section \<open>A first operation on the empty file system\<close>

lemma new_fs_make: "op_ok (new_inode_smi_t 4096) (Make 0 ''a'' False)"
proof -
  have "fs_data (new_inode_smi_t 4096) 0 FILESYSTEM_CUR_MODIFIABLE_VER = Some []"
    using new_fs_ok(2) [of 4096] by (simp add: FILESYSTEM_ROOT_INODE_NUMBER_def)
  then have "entries (new_inode_smi_t 4096) FILESYSTEM_CUR_MODIFIABLE_VER 0 = Some []"
    by (simp add: entries_def new_fs_views FILESYSTEM_ROOT_INODE_NUMBER_def decode_dentry_def)
  moreover have "valid_name ''a''" by (simp add: valid_name_def bad_char_def signed_char_def)
  ultimately show ?thesis
    by (simp add: dir_map_def dir_room_def new_fs_views block_count_def buffer_pool_max_size_def inode_pool_max_size_def)
       (simp add: new_inode_smi_t_def map_emplace_def)
qed

definition demo_first :: inode_smi_t where
  "demo_first = snd (run_op (Make 0 ''a'' False) (new_inode_smi_t 4096))"

lemma demo_first_steps: "fs_steps (new_inode_smi_t 4096) [Make 0 ''a'' False] demo_first"
proof (rule steps_Cons [OF step [OF new_fs_make] steps_Nil])
  show "run_op (Make 0 ''a'' False) (new_inode_smi_t 4096)
      = (fst (run_op (Make 0 ''a'' False) (new_inode_smi_t 4096)), demo_first)"
    by (simp add: demo_first_def)
qed

lemma demo_first_root: "\<exists>i. inode_of demo_first 0 = Some i \<and> blocks_of i \<noteq> {}"
proof -
  have ok: "fs_ok (new_inode_smi_t 4096)" by (rule new_fs_ok) simp_all
  have cur: "version_inodes (new_inode_smi_t 4096) FILESYSTEM_CUR_MODIFIABLE_VER = Some [FILESYSTEM_ROOT_INODE_NUMBER]"
    by (simp add: new_fs_views)
  obtain path where e: "entries (new_inode_smi_t 4096) FILESYSTEM_CUR_MODIFIABLE_VER 0 = Some path" and n: "valid_name ''a''"
    and room: "dir_room (new_inode_smi_t 4096) (Suc (length path))" "length (inode_pool (new_inode_smi_t 4096)) < inode_pool_max_size"
    using new_fs_make by (auto split: option.splits)
  obtain k fs' where run: "make_child_dentry_under_parent 0 ''a'' False (new_inode_smi_t 4096) = (Inr k, fs')"
    and ne: "0 \<noteq> k" and sok: "storage_ok fs'"
    and d: "fs_data fs' = (fs_data (new_inode_smi_t 4096))(k := [FILESYSTEM_CUR_MODIFIABLE_VER \<mapsto> []],
       0 := (fs_data (new_inode_smi_t 4096) 0)(FILESYSTEM_CUR_MODIFIABLE_VER
         \<mapsto> encode_dentry (path @ [\<lparr>pathname = ''a'', pack_inode = k\<rparr>])))"
    using make_child_ok [OF ok e n new_fs_ok(3) room cur, of False] by auto
  have first: "demo_first = fs'" by (simp add: demo_first_def exec_simps run)
  have "fs_data fs' 0 FILESYSTEM_CUR_MODIFIABLE_VER \<noteq> Some []" "fs_data fs' 0 FILESYSTEM_CUR_MODIFIABLE_VER \<noteq> None"
    using ne by (simp_all add: d)
  then obtain i c where i: "inode_of fs' 0 = Some i" and c: "version_data i (buffer_pool fs') FILESYSTEM_CUR_MODIFIABLE_VER = Some c" "c \<noteq> []"
    using fs_data_none [of fs' 0] fs_data_eq [of fs' 0] by (cases "inode_of fs' 0") auto
  obtain bl where bl: "map_of (buffer_map i) FILESYSTEM_CUR_MODIFIABLE_VER = Some bl" "c = concat (contents (buffer_pool fs') bl)"
    using c(1) by (auto simp: version_data_def)
  then have "bl \<noteq> []" using c(2) by auto
  then obtain b where "b \<in> set bl" by (cases bl) auto
  then have "buf_id b \<in> blocks_of i" using map_of_SomeD [OF bl(1)] by (auto simp: blocks_of_def ids_def)
  then show ?thesis using i by (auto simp: first)
qed

end
