(* ===== verification/Block_Properties.thy ===== *)
theory Block_Properties
  imports Example_States
begin

text \<open>
  The properties of the lower components, from the error table to the directories: what
  each operation computes on every branch, and the round trips of the two text formats.
\<close>

section \<open>Inodes\<close>

text \<open>
  C10. A write with \<open>resize\<close> through the block list, copy-on-write included, is on
  byte strings: cut or pad the file to the offset and append the written bytes, so the old bytes
  after them are gone. The write succeeds, keeps the inode's invariant, leaves the data of every
  snapshot alone and does not touch a buffer of another inode.
\<close>

theorem write_with_resize:
  assumes "inode_ok i bp" and "roomy i bp (offset + len)" and "0 < len" and "len \<le> length src"
    and "is_dentry i \<longrightarrow> dentry_only" and "version_data i bp FILESYSTEM_CUR_MODIFIABLE_VER = Some c"
  shows "\<exists>i' bp'. inode_write src len offset True dentry_only (i, bp) = (Inr len, (i', bp'))
    \<and> inode_step i bp (2 * block_count (offset + len) (block_size i)) i' bp'
    \<and> version_data i' bp' = (version_data i bp)(FILESYSTEM_CUR_MODIFIABLE_VER \<mapsto> resized offset c @ take len src)"
  using inode_write_resize_step [OF assms(1-5)] assms(6) by simp

theorem write_with_resize_witness:
  "\<exists>i' bp'. inode_write ''XYZ'' 3 2 True False (demo_inode, demo_pool) = (Inr 3, (i', bp'))
    \<and> version_data i' bp' FILESYSTEM_CUR_MODIFIABLE_VER = Some ''abXYZ'' \<and> version_data i' bp' ''v1'' = Some ''abcd''"
proof -
  have "roomy demo_inode demo_pool (2 + 3)" by (simp add: roomy_def block_count_def buffer_pool_max_size_def)
  from write_with_resize [OF demo_inode_ok this, of "''XYZ''" False "''abcdef''"] obtain i' bp' where
    "inode_write ''XYZ'' 3 2 True False (demo_inode, demo_pool) = (Inr 3, (i', bp'))"
    "version_data i' bp' = (version_data demo_inode demo_pool)(FILESYSTEM_CUR_MODIFIABLE_VER \<mapsto> resized 2 ''abcdef'' @ take 3 ''XYZ'')"
    by (auto simp: demo_data)
  then show ?thesis by (simp add: demo_data resized_def FILESYSTEM_CUR_MODIFIABLE_VER_def)
qed

text \<open>
  C25. A write without \<open>resize\<close> inside the file overwrites the bytes at the offset,
  clipped at the end of the file, and returns how many bytes it wrote; size and snapshots stay
  as they are.
\<close>

theorem write_without_resize:
  assumes "inode_ok i bp" and "version_data i bp FILESYSTEM_CUR_MODIFIABLE_VER = Some c"
    and "length bp + length c \<le> buffer_pool_max_size" and "offset + len < 2 ^ 64"
    and "0 < len" and "offset < length c" and "len \<le> length src" and "is_dentry i \<longrightarrow> dentry_only"
  shows "\<exists>i' bp'. inode_write src len offset False dentry_only (i, bp)
        = (Inr (min len (length c - offset)), (i', bp'))
    \<and> inode_step i bp (length c) i' bp'
    \<and> version_data i' bp' = (version_data i bp)(FILESYSTEM_CUR_MODIFIABLE_VER \<mapsto> overwrite offset (take (length c - offset) (take len src)) c)"
  using assms by (rule inode_write_fixed_step)

theorem write_without_resize_witness:
  "\<exists>i' bp'. inode_write ''XYZ'' 3 4 False False (demo_inode, demo_pool) = (Inr 2, (i', bp'))
    \<and> version_data i' bp' FILESYSTEM_CUR_MODIFIABLE_VER = Some ''abcdXY'' \<and> version_data i' bp' ''v1'' = Some ''abcd''"
proof -
  from write_without_resize [OF demo_inode_ok demo_data(1), of 4 3 "''XYZ''" False] obtain i' bp' where
    "inode_write ''XYZ'' 3 4 False False (demo_inode, demo_pool) = (Inr 2, (i', bp'))"
    "version_data i' bp' = (version_data demo_inode demo_pool)(FILESYSTEM_CUR_MODIFIABLE_VER \<mapsto> overwrite 4 (take 2 (take 3 ''XYZ'')) ''abcdef'')"
    by (auto simp: buffer_pool_max_size_def)
  then show ?thesis by (simp add: demo_data overwrite_def FILESYSTEM_CUR_MODIFIABLE_VER_def)
qed

text \<open>
  C11. \<open>truncate\<close> makes the file exactly as long as asked, keeping its prefix and
  padding with NUL bytes, through dropped, appended and copied blocks; the snapshots keep their
  data.
\<close>

theorem truncate_resizes:
  assumes "inode_ok i bp" and "roomy i bp n" and "version_data i bp FILESYSTEM_CUR_MODIFIABLE_VER = Some c"
  shows "\<exists>i' bp'. inode_truncate n (i, bp) = (Inr (), (i', bp'))
    \<and> inode_step i bp (2 * block_count n (block_size i)) i' bp'
    \<and> version_data i' bp' = (version_data i bp)(FILESYSTEM_CUR_MODIFIABLE_VER \<mapsto> resized n c)"
  using inode_truncate_step [OF assms(1,2)] assms(3) by simp

theorem truncate_resizes_witness:
  "\<exists>i' bp'. inode_truncate 3 (demo_inode, demo_pool) = (Inr (), (i', bp'))
    \<and> version_data i' bp' FILESYSTEM_CUR_MODIFIABLE_VER = Some ''abc'' \<and> version_data i' bp' ''v1'' = Some ''abcd''"
proof -
  have "roomy demo_inode demo_pool 3" by (simp add: roomy_def block_count_def buffer_pool_max_size_def)
  from truncate_resizes [OF demo_inode_ok this demo_data(1)] obtain i' bp' where
    "inode_truncate 3 (demo_inode, demo_pool) = (Inr (), (i', bp'))"
    "version_data i' bp' = (version_data demo_inode demo_pool)(FILESYSTEM_CUR_MODIFIABLE_VER \<mapsto> resized 3 ''abcdef'')" by blast
  then show ?thesis by (simp add: demo_data resized_def FILESYSTEM_CUR_MODIFIABLE_VER_def)
qed

text \<open>
  C26. Reading any version at any offset returns the bytes of that version from the offset on,
  clipped at its end, and changes nothing, when the offset is inside the file or the size is not
  a multiple of the block size.
\<close>

theorem read_returns_bytes:
  assumes "inode_ok i bp" and "version_data i bp v = Some c" and "offset + len < 2 ^ 64"
    and "offset < length c \<or> length c mod block_size i \<noteq> 0"
  shows "inode_read v len offset (i, bp) = (Inr (take len (drop offset c)), (i, bp))"
  using assms(1,2) by (rule inode_ok_version) (use inode_read_ok assms(3,4) in blast)

theorem read_returns_bytes_witness:
  "inode_read FILESYSTEM_CUR_MODIFIABLE_VER 9 3 (demo_inode, demo_pool) = (Inr ''def'', (demo_inode, demo_pool))"
  using read_returns_bytes [OF demo_inode_ok demo_data(1), of 3 9] by simp

text \<open>
  C30. Reading at the very end of a version whose size is a multiple of the block size, the
  empty file included, does not return zero bytes: the checked access to the block behind the
  last one throws \<open>std::out_of_range\<close>.
\<close>

theorem read_block_aligned_end:
  assumes "inode_ok i bp" and "version_data i bp v = Some c" and "length c + len < 2 ^ 64"
    and "0 < len" and "length c mod block_size i = 0"
  shows "inode_read v len (length c) (i, bp) = (Inl Std_out_of_range, (i, bp))"
proof -
  obtain bl where "map_of (buffer_map i) v = Some bl" "holds (block_size i) bp bl c"
    using assms(1,2) by (rule inode_ok_version)
  then show ?thesis using assms(3-5) by (rule inode_read_at_end)
qed

theorem read_block_aligned_end_witness:
  "inode_read ''v1'' 1 4 (demo_inode, demo_pool) = (Inl Std_out_of_range, (demo_inode, demo_pool))"
proof -
  have n: "length ''abcd'' = 4" by simp
  show ?thesis using read_block_aligned_end [OF demo_inode_ok demo_data(2), of 1, unfolded n] by simp
qed

text \<open>
  C27. \<open>create_new_volume\<close> gives the inode a new version with the bytes of the
  current one, sharing and freezing the blocks, and every existing version keeps its bytes;
  \<open>delete_volume\<close> takes that version away only, so the blocks it shares with other
  versions keep their bytes. Neither touches the buffers of other inodes.
\<close>

theorem volumes_created_and_deleted:
  assumes "inode_ok i bp"
  shows "(map_of (buffer_map i) v = None \<and> (\<forall>j p. j \<in> blocks_of i \<and> map_of bp j = Some p \<longrightarrow> buf_link_count p + 1 < 2 ^ 64) \<longrightarrow>
      (\<exists>i' bp'. create_new_volume v (i, bp) = (Inr (), (i', bp')) \<and> inode_step i bp 0 i' bp'
        \<and> version_data i' bp' = (version_data i bp)(v := version_data i bp FILESYSTEM_CUR_MODIFIABLE_VER))) \<and>
    (map_of (buffer_map i) v \<noteq> None \<and> v \<noteq> FILESYSTEM_CUR_MODIFIABLE_VER \<longrightarrow>
      (\<exists>i' bp'. delete_volume v (i, bp) = (Inr (), (i', bp')) \<and> inode_step i bp 0 i' bp'
        \<and> version_data i' bp' = (version_data i bp)(v := None)))"
  using create_new_volume_step [OF assms] delete_volume_step [OF assms] by blast

theorem volumes_created_and_deleted_witness:
  "(\<exists>i' bp'. create_new_volume ''v2'' (demo_inode, demo_pool) = (Inr (), (i', bp'))
    \<and> version_data i' bp' ''v2'' = Some ''abcdef'' \<and> version_data i' bp' ''v1'' = Some ''abcd'') \<and>
   (\<exists>i' bp'. delete_volume ''v1'' (demo_inode, demo_pool) = (Inr (), (i', bp'))
    \<and> version_data i' bp' ''v1'' = None \<and> version_data i' bp' FILESYSTEM_CUR_MODIFIABLE_VER = Some ''abcdef'')"
proof -
  have "\<forall>j p. j \<in> blocks_of demo_inode \<and> map_of demo_pool j = Some p \<longrightarrow> buf_link_count p + 1 < 2 ^ 64"
    by (auto simp: demo_pool_def split: if_splits)
  with volumes_created_and_deleted [OF demo_inode_ok, of "''v2''"] demo_data
  have "\<exists>i' bp'. create_new_volume ''v2'' (demo_inode, demo_pool) = (Inr (), (i', bp'))
    \<and> version_data i' bp' ''v2'' = Some ''abcdef'' \<and> version_data i' bp' ''v1'' = Some ''abcd''" by auto
  moreover from volumes_created_and_deleted [OF demo_inode_ok, of "''v1''"] demo_data
  have "\<exists>i' bp'. delete_volume ''v1'' (demo_inode, demo_pool) = (Inr (), (i', bp'))
    \<and> version_data i' bp' ''v1'' = None \<and> version_data i' bp' FILESYSTEM_CUR_MODIFIABLE_VER = Some ''abcdef''" by (auto simp: FILESYSTEM_CUR_MODIFIABLE_VER_def)
  ultimately show ?thesis by blast
qed

section \<open>Directories\<close>

text \<open>
  C28. Saving the entries of a directory into its inode and opening the directory again gives
  the same entries, whatever the directory held before, as long as the names are shorter than
  128 bytes and without NUL.
\<close>

theorem directory_saved_and_opened:
  assumes "inode_ok i bp" and "is_dentry i" and "block_size i < 2 ^ 32" and "roomy i bp (8 + 136 * length path)"
    and "\<forall>p\<in>set path. storable_pack p" and "length path < 2 ^ 32"
  shows "\<exists>i' bp'. save_current path (i, bp) = (Inr (), (i', bp'))
    \<and> new_directory_resolver_t FILESYSTEM_CUR_MODIFIABLE_VER (i', bp') = (Inr path, (i', bp'))"
proof -
  from save_current_step [OF assms(1,4)] obtain i' bp' where run: "save_current path (i, bp) = (Inr (), (i', bp'))"
    and st: "inode_step i bp (2 * block_count (8 + 136 * length path) (block_size i)) i' bp'"
    and d: "version_data i' bp' = (version_data i bp)(FILESYSTEM_CUR_MODIFIABLE_VER \<mapsto> encode_dentry path)" by blast
  have "inode_ok i' bp'" "is_dentry i'" "block_size i' < 2 ^ 32" using st assms(2,3) by (simp_all add: inode_step_def)
  moreover have "length (encode_dentry path) + block_size i' + 1 < 2 ^ 64"
    using assms(6) \<open>block_size i' < 2 ^ 32\<close> by (simp add: length_encode_dentry)
  ultimately show ?thesis
    using run d decode_encode_dentry [OF assms(5)] assms(6)
      refresh_eq [of i' bp' FILESYSTEM_CUR_MODIFIABLE_VER "encode_dentry path"] new_directory_resolver_eq [of i' FILESYSTEM_CUR_MODIFIABLE_VER bp'] by auto
qed

theorem directory_saved_and_opened_witness:
  "\<exists>i' bp'. save_current demo_entries (new_inode_t 64 0 True, []) = (Inr (), (i', bp'))
    \<and> new_directory_resolver_t FILESYSTEM_CUR_MODIFIABLE_VER (i', bp') = (Inr demo_entries, (i', bp'))"
proof -
  have "inode_ok (new_inode_t 64 0 True) []" by (rule new_inode_ok) simp_all
  moreover have "is_dentry (new_inode_t 64 0 True)" "block_size (new_inode_t 64 0 True) < 2 ^ 32" by simp_all
  moreover have "roomy (new_inode_t 64 0 True) [] (8 + 136 * length demo_entries)"
    by (simp add: roomy_def block_count_def buffer_pool_max_size_def demo_dir_map del: One_nat_def)
  moreover have "\<forall>p\<in>set demo_entries. storable_pack p"
    by (simp add: demo_entries_def storable_pack_def storable_name_def)
  ultimately show ?thesis
    by (rule directory_saved_and_opened) (simp add: demo_dir_map)
qed

text \<open>
  C29. The resolver's list of entries is a finite map from names to inode numbers:
  \<open>namei\<close> looks a name up, \<open>add_path\<close> adds it when it is free and is
  refused otherwise, \<open>remove_path\<close> deletes it when it is there and is refused
  otherwise.
\<close>

theorem resolver_is_a_map:
  assumes "distinct (names path)"
  shows "namei path n = (case dir_map path n of None \<Rightarrow> Inl (HTMPFS_error_t HTMPFS_NO_SUCH_FILE_OR_DIR) | Some k \<Rightarrow> Inr k) \<and>
    (check_availability path n \<longleftrightarrow> dir_map path n = None) \<and>
    (case add_path path n k of
       Inl e \<Rightarrow> e = HTMPFS_error_t HTMPFS_DOUBLE_MKPATHNAME \<and> dir_map path n \<noteq> None
     | Inr path' \<Rightarrow> dir_map path n = None \<and> dir_map path' = (dir_map path)(n \<mapsto> k) \<and> distinct (names path')) \<and>
    (case remove_path path n of
       Inl e \<Rightarrow> e = HTMPFS_error_t HTMPFS_REQUESTED_INODE_NOT_FOUND \<and> dir_map path n = None
     | Inr path' \<Rightarrow> dir_map path n \<noteq> None \<and> dir_map path' = (dir_map path)(n := None) \<and> distinct (names path'))"
proof (intro conjI)
  show "namei path n = (case dir_map path n of None \<Rightarrow> Inl (HTMPFS_error_t HTMPFS_NO_SUCH_FILE_OR_DIR) | Some k \<Rightarrow> Inr k)"
    by (rule namei_eq)
  show "check_availability path n \<longleftrightarrow> dir_map path n = None"
    by (simp add: check_availability_def any_same_iff dir_map_None)
  show "case add_path path n k of
           Inl e \<Rightarrow> e = HTMPFS_error_t HTMPFS_DOUBLE_MKPATHNAME \<and> dir_map path n \<noteq> None
         | Inr path' \<Rightarrow> dir_map path n = None \<and> dir_map path' = (dir_map path)(n \<mapsto> k) \<and> distinct (names path')"
    using assms dir_map_None [of path n] by (auto simp: add_path_def any_same_iff dir_map_snoc names_def)
  show "case remove_path path n of
           Inl e \<Rightarrow> e = HTMPFS_error_t HTMPFS_REQUESTED_INODE_NOT_FOUND \<and> dir_map path n = None
         | Inr path' \<Rightarrow> dir_map path n \<noteq> None \<and> dir_map path' = (dir_map path)(n := None) \<and> distinct (names path')"
  proof (cases "dir_map path n")
    case None
    then show ?thesis by (simp add: remove_path_missing [OF None])
  next
    case (Some j)
    obtain rest where "remove_path path n = Inr rest" "dir_map rest = (dir_map path)(n := None)" "distinct (names rest)"
      using assms Some by (rule remove_path_ok)
    with Some show ?thesis by simp
  qed
qed

theorem resolver_is_a_map_witness:
  "namei demo_entries ''a'' = Inr 1 \<and> remove_path demo_entries ''a'' = Inr []"
proof -
  have "distinct (names demo_entries)" by (simp add: demo_entries_def names_def)
  from resolver_is_a_map [OF this, of "''a''" 1] show ?thesis by (simp add: demo_dir_map) (simp add: demo_entries_def)
qed

text \<open>
  C31. A name of 128 bytes or more fills the stored array without a terminator: reading the
  directory back runs \<open>strcpy\<close> past the array, which is undefined.
\<close>

theorem long_names_overrun:
  assumes "\<forall>p\<in>set ps. storable_pack p" and "pack_inode q < 2 ^ 64" and "128 \<le> length (pathname q)"
    and "NUL \<notin> set (pathname q)" and "length (ps @ q # qs) < 2 ^ 64"
  shows "decode_dentry (encode_dentry (ps @ q # qs)) = Inl Undefined_behaviour"
  using assms by (rule decode_too_long)

theorem long_names_overrun_witness:
  "decode_dentry (encode_dentry [\<lparr>pathname = replicate 128 CHR ''x'', pack_inode = 1\<rparr>]) = Inl Undefined_behaviour"
  using long_names_overrun [of "[]" "\<lparr>pathname = replicate 128 CHR ''x'', pack_inode = 1\<rparr>" "[]"]
  by (simp add: in_set_replicate)

section \<open>Paths\<close>

text \<open>
  C36. Parsing a printed list of components gives the components back, and printing a parsed
  path keeps its components, each non-empty and without slash. The path that
  \<open>make_path_with_version\<close> builds for a version is split by
  \<open>if_snapshot\<close> into that version and the original path; \<open>/.snapshot\<close>
  alone is refused, and every other path selects the current version: one with components as
  itself, \<open>/\<close> as itself, and one without components, such as the empty string or
  \<open>//\<close>, leaves the caller's output as it was.
\<close>

theorem paths_printed_and_parsed:
  assumes "\<forall>n\<in>set p. component n"
  shows "new_path_t (path_to_string p) = '''' # p \<and> new_path_t (path_to_string (new_path_t s)) = new_path_t s \<and>
    (\<forall>n\<in>set (tl (new_path_t s)). component n) \<and>
    (component v \<and> v \<noteq> FILESYSTEM_CUR_MODIFIABLE_VER \<longrightarrow> if_snapshot (make_path_with_version (path_to_string p) v) [] = Inr (v, path_to_string p)) \<and>
    (components s = [''.snapshot''] \<longrightarrow> if_snapshot s out = Inl (HTMPFS_error_t HTMPFS_INVALID_DENTRY_NAME)) \<and>
    (components s \<noteq> [] \<and> hd (components s) \<noteq> ''.snapshot'' \<longrightarrow> if_snapshot s out = Inr (FILESYSTEM_CUR_MODIFIABLE_VER, s)) \<and>
    (components s = [] \<longrightarrow> if_snapshot s out = Inr (FILESYSTEM_CUR_MODIFIABLE_VER, if s = ''/'' then ''/'' else out))"
proof -
  have "new_path_t (path_to_string p) = '''' # p \<and> new_path_t (path_to_string (new_path_t s)) = new_path_t s \<and>
    (\<forall>n\<in>set (tl (new_path_t s)). component n)"
    using components_path_to_string [OF assms] components_printed_path [of s] components_component [of _ s]
    by (simp only: new_path_t_eq list.sel) auto
  then show ?thesis
    using if_snapshot_with_version [OF _ _ assms] if_snapshot_no_version if_snapshot_current if_snapshot_nothing by auto
qed

theorem paths_printed_and_parsed_witness:
  "new_path_t ''/usr/bin'' = ['''', ''usr'', ''bin''] \<and>
   if_snapshot ''/.snapshot/v1/usr/bin'' [] = Inr (''v1'', ''/usr/bin'')"
  using paths_printed_and_parsed [of "[''usr'', ''bin'']" "[]" "''v1''"]
  by (simp add: component_def FILESYSTEM_CUR_MODIFIABLE_VER_def make_path_with_version_def)

section \<open>Buffers\<close>

text \<open>
  Writing with \<open>resize\<close> pads or cuts the buffer to end after the written bytes; without it the
  bytes that do not fit are dropped and the count says so. Reading gives the bytes back.
\<close>

lemma buffer_write_then_read:
  assumes "offset + len < 2 ^ 64" and "length d < 2 ^ 64" and "len \<le> length src"
  shows "(\<exists>d'. buffer_write d src len offset True = Inr (d', len) \<and> length d' = offset + len
      \<and> take (min offset (length d)) d' = take offset d \<and> buffer_read d' len offset = Inr (take len src)) \<and>
    (offset \<le> length d \<longrightarrow> (\<exists>d'. buffer_write d src len offset False = Inr (d', min len (length d - offset))
      \<and> length d' = length d \<and> buffer_read d' len offset = Inr (take (min len (length d - offset)) src)))"
proof (intro conjI impI)
  let ?d = "take offset (d @ replicate (offset - length d) NUL) @ take len src"
  have "buffer_read ?d len offset = Inr (take len src)"
    using assms by (simp add: buffer_read_eq min_def)
  then show "\<exists>d'. buffer_write d src len offset True = Inr (d', len) \<and> length d' = offset + len
      \<and> take (min offset (length d)) d' = take offset d \<and> buffer_read d' len offset = Inr (take len src)"
    using assms by (auto simp: buffer_write_resize_eq min_def)
next
  assume le: "offset \<le> length d"
  show "\<exists>d'. buffer_write d src len offset False = Inr (d', min len (length d - offset))
      \<and> length d' = length d \<and> buffer_read d' len offset = Inr (take (min len (length d - offset)) src)"
  proof (cases "offset + len \<le> length d")
    case True
    then show ?thesis using assms le by (auto simp: buffer_write_fixed_eq buffer_read_eq min_def)
  next
    case False
    then show ?thesis using assms le by (auto simp: buffer_write_clipped buffer_read_eq min_def)
  qed
qed

section \<open>Errors\<close>

text \<open>
  C40. The values of the error codes are pairwise different, and the exception of a code carries
  the table's errno and text, except for the five codes the switches leave out, which carry
  errno 0 and the text of an unknown error.
\<close>

theorem error_numbers:
  "(err_value c = err_value d \<longleftrightarrow> c = d) \<and>
   (let e = new_error (err_value c) msg in
    if c \<in> {HTMPFS_BLOCK_NOT_FOUND, HTMPFS_CANNOT_OPEN_DEVICE, HTMPFS_CANNOT_LSEEK_DEVICE,
            HTMPFS_MEET_DEVICE_BOUNDARY, HTMPFS_BLOCK_SHORT_OPS}
    then my_errno e = 0 \<and> what e = ''Unknown error''
    else my_errno e = err_errno c \<and> what e = err_text c)"
proof -
  have "my_errno (new_error (err_value c) msg) = (if c \<in> set switch_cases then err_errno c else 0)
      \<and> error_code (new_error (err_value c) msg) = err_value c"
    unfolding new_error_def fill_out_errno_def err_value_32
    by (cases "c = HTMPFS_SUCCESSFUL") (simp_all add: find_errno_case, simp_all add: switch_cases_def)
  moreover have "what e = (if c \<in> set switch_cases then err_text c else ''Unknown error'')" if "error_code e = err_value c" for e
    unfolding what_def that find_switch_case by simp
  ultimately show ?thesis
    unfolding unnamed_codes [symmetric] Let_def by (simp add: err_value_inj)
qed

end
