(* ===== verification/Mount.thy ===== *)
theory Mount
  imports Fuse_Rename
begin

text \<open>
  \<open>mount.htmpfs.cpp\<close>: the table of the handlers, as a function on the requests of FUSE, the
  option callback, and \<open>main\<close>. Option parsing and the loop that serves requests are libfuse's.
\<close>

unbundle bit_operations_syntax

section \<open>The table of handlers\<close>

text \<open>
  One constructor per operation of the table, with the arguments the handler uses: the open
  file's \<open>fuse_file_info\<close> is ignored by every one. \<open>Req_getattr\<close> carries the caller's
  \<open>struct stat\<close> as it is before the call.
\<close>

datatype request =
    Req_getattr string stat
  | Req_readlink string nat
  | Req_mknod string nat nat
  | Req_mkdir string nat
  | Req_unlink string
  | Req_rmdir string
  | Req_symlink string string
  | Req_rename string string
  | Req_chmod string nat
  | Req_chown string nat nat
  | Req_truncate string int
  | Req_open string
  | Req_read string nat int
  | Req_write string data_t nat int
  | Req_flush string
  | Req_release string
  | Req_fsync string
  | Req_opendir string
  | Req_readdir string
  | Req_releasedir string
  | Req_fsyncdir string
  | Req_access string nat
  | Req_create string nat
  | Req_ftruncate string int
  | Req_fgetattr string stat
  | Req_utimens string timespec timespec
  | Req_fallocate string nat int int

text \<open>What a handler gives back: its number, and what it stored for the caller.\<close>

datatype reply =
    Code int
  | Data int data_t
  | Attr int stat
  | Names int "string list"

text \<open>A handler that stores through a pointer, started with what is there before the call.\<close>

definition with_out :: "'o \<Rightarrow> (int \<Rightarrow> 'o \<Rightarrow> reply) \<Rightarrow> (inode_smi_t \<times> 'o, exc, int) exec \<Rightarrow> reply smi_exec" where
  "with_out out f m = (\<lambda>fs. case m (fs, out) of
       (Inl e, s) \<Rightarrow> (Inl e, fst s)
     | (Inr n, s) \<Rightarrow> (Inr (f n (snd s)), fst s))"

definition with_code :: "int smi_exec \<Rightarrow> reply smi_exec" where
  "with_code m = bindx m (\<lambda>n. ret (Code n))"

definition with_data :: "(int \<times> data_t) smi_exec \<Rightarrow> reply smi_exec" where
  "with_data m = bindx m (\<lambda>(n, cs). ret (Data n cs))"

fun fuse_ops :: "env \<Rightarrow> request \<Rightarrow> reply smi_exec" where
  "fuse_ops env (Req_getattr path stbuf) = with_out stbuf Attr (do_getattr env path)"
| "fuse_ops env (Req_readlink path sz) = with_data (do_readlink env path sz)"
| "fuse_ops env (Req_mknod path mode device) = with_code (do_mknod env path mode device)"
| "fuse_ops env (Req_mkdir path mode) = with_code (do_mkdir env path mode)"
| "fuse_ops env (Req_unlink path) = with_code (do_unlink env path)"
| "fuse_ops env (Req_rmdir path) = with_code (do_rmdir env path)"
| "fuse_ops env (Req_symlink path target) = with_code (do_symlink env path target)"
| "fuse_ops env (Req_rename path name) = with_code (do_rename env path name)"
| "fuse_ops env (Req_chmod path mode) = with_code (do_chmod env path mode)"
| "fuse_ops env (Req_chown path uid gid) = with_code (do_chown env path uid gid)"
| "fuse_ops env (Req_truncate path sz) = with_code (do_truncate env path sz)"
| "fuse_ops env (Req_open path) = with_code (do_open env path)"
| "fuse_ops env (Req_read path sz offset) = with_data (do_read env path sz offset)"
| "fuse_ops env (Req_write path src sz offset) = with_code (do_write env path src sz offset)"
| "fuse_ops env (Req_flush path) = ret (Code (do_flush path))"
| "fuse_ops env (Req_release path) = ret (Code (do_release path))"
| "fuse_ops env (Req_fsync path) = ret (Code (do_fsync path))"
| "fuse_ops env (Req_opendir path) = with_code (do_open env path)"
| "fuse_ops env (Req_readdir path) = with_out [] Names (do_readdir env path)"
| "fuse_ops env (Req_releasedir path) = ret (Code (do_releasedir path))"
| "fuse_ops env (Req_fsyncdir path) = ret (Code (do_fsyncdir path))"
| "fuse_ops env (Req_access path mode) = with_code (do_access env path mode)"
| "fuse_ops env (Req_create path mode) = with_code (do_create env path mode)"
| "fuse_ops env (Req_ftruncate path len) = with_code (do_ftruncate env path len)"
| "fuse_ops env (Req_fgetattr path stbuf) = with_out stbuf Attr (do_fgetattr env path)"
| "fuse_ops env (Req_utimens path tv0 tv1) = with_code (do_utimens env path tv0 tv1)"
| "fuse_ops env (Req_fallocate path mode offset len) = with_code (do_fallocate env path mode offset len)"

section \<open>Start-up\<close>

definition usage :: "string \<Rightarrow> string" where
  "usage progname =
     ''usage: '' @ progname @ '' mountpoint [options]'' @ [CHR 0x0A]
     @ [CHR 0x0A]
     @ ''general options:'' @ [CHR 0x0A]
     @ ''    -o opt,[opt...]        Mount options.'' @ [CHR 0x0A]
     @ ''    -h, --help             Print help.'' @ [CHR 0x0A]
     @ ''    -V, --version          Print version.'' @ [CHR 0x0A]
     @ [CHR 0x0A]"

definition KEY_VERSION :: int where "KEY_VERSION = 0"
definition KEY_HELP :: int where "KEY_HELP = 1"

text \<open>
  \<open>opt_proc\<close> prints and ends the program on the two keys, after \<open>fuse_main\<close> has been run on the
  arguments with one more and on a table without handlers; any other option is kept.
\<close>

datatype opt_result = Exits nat "string list" | Keeps int

definition opt_proc :: "int \<Rightarrow> string list \<Rightarrow> opt_result" where
  "opt_proc key outargs =
     (if key = KEY_VERSION then Exits 0 (outargs @ [''--version''])
      else if key = KEY_HELP then Exits 0 (outargs @ [''-ho''])
      else Keeps 1)"

definition set_up_root :: "env \<Rightarrow> unit smi_exec" where
  "set_up_root env =
     bindx (get_inode_by_id FILESYSTEM_ROOT_INODE_NUMBER) (\<lambda>root_inode.
     on_stat root_inode (\<lambda>s. s\<lparr>st_ctim := clock env 0, st_atim := clock env 1, st_mtim := clock env 2,
       st_ino := FILESYSTEM_ROOT_INODE_NUMBER, st_mode := mode_755 OR S_IFDIR,
       st_gid := the_gid env, st_uid := the_uid env, st_nlink := 1, st_size := 0\<rparr>))"

text \<open>
  \<open>main\<close>: the file system object, then the parsed arguments (or -1), then \<open>fuse_main\<close> on them
  with \<open>-s\<close>, and with \<open>-d\<close> and \<open>-f\<close> in a debug build. Any exception ends the program with a
  failure.
\<close>

definition mount_args :: "bool \<Rightarrow> string list \<Rightarrow> string list" where
  "mount_args debug args = args @ [''-s''] @ (if debug then [''-d'', ''-f''] else [])"

definition mount_main :: "bool \<Rightarrow> env \<Rightarrow> string list option \<Rightarrow> (string list \<Rightarrow> inode_smi_t \<Rightarrow> int) \<Rightarrow> exc + nat" where
  "mount_main debug env parsed fuse_main =
     (case set_up_root env (new_inode_smi_t (512 * 1024)) of
        (Inl e, fs) \<Rightarrow> if e = Undefined_behaviour then Inl e else Inr 1
      | (Inr _, fs) \<Rightarrow>
          (case parsed of
             None \<Rightarrow> Inr 1
           | Some args \<Rightarrow> if fuse_main (mount_args debug args) fs \<noteq> 0 then Inr 1 else Inr 0))"

section \<open>The mounted file system\<close>

text \<open>The object that \<open>fuse_main\<close> gets: empty, with the attributes of the root set.\<close>

definition mounted :: "env \<Rightarrow> inode_smi_t" where
  "mounted env = snd (set_up_root env (new_inode_smi_t (512 * 1024)))"

lemma set_up_root_eq:
  "fs_ok fs \<Longrightarrow> set_up_root env fs = (Inr (), put_stat FILESYSTEM_ROOT_INODE_NUMBER
     (\<lambda>s. s\<lparr>st_ctim := clock env 0, st_atim := clock env 1, st_mtim := clock env 2,
       st_ino := FILESYSTEM_ROOT_INODE_NUMBER, st_mode := mode_755 OR S_IFDIR,
       st_gid := the_gid env, st_uid := the_uid env, st_nlink := 1, st_size := 0\<rparr>) fs)"
  by (simp add: set_up_root_def bindx_app get_inode_by_id_eq root_inode on_stat_eq)

lemma mounted_ok: "fs_ok (mounted env)"
  using new_fs_ok(1) [of "512 * 1024"] by (simp add: mounted_def set_up_root_eq put_stat_ok)

text \<open>What \<open>stat\<close> and \<open>ls\<close> show right after the start.\<close>

lemma mounted_stat: "stat_of (mounted env) FILESYSTEM_ROOT_INODE_NUMBER = Some (zero_stat\<lparr>st_ctim := clock env 0, st_atim := clock env 1,
    st_mtim := clock env 2, st_ino := 0, st_mode := 16877, st_gid := the_gid env, st_uid := the_uid env, st_nlink := 1, st_size := 0\<rparr>)"
proof -
  have "mode_755 OR S_IFDIR = 16877" by (simp add: mode_defs)
  moreover have "stat_of (new_inode_smi_t (512 * 1024)) FILESYSTEM_ROOT_INODE_NUMBER = Some zero_stat"
    by (simp add: stat_of_def new_fs_views new_inode_t_def)
  ultimately show ?thesis
    using new_fs_ok(1) [of "512 * 1024"] by (simp add: mounted_def set_up_root_eq FILESYSTEM_ROOT_INODE_NUMBER_def)
qed

lemma mounted_views:
  "fs_data (mounted env) FILESYSTEM_ROOT_INODE_NUMBER = [FILESYSTEM_CUR_MODIFIABLE_VER \<mapsto> []]"
  "entries (mounted env) FILESYSTEM_CUR_MODIFIABLE_VER FILESYSTEM_ROOT_INODE_NUMBER = Some []"
  "in_versions (mounted env) FILESYSTEM_ROOT_INODE_NUMBER = {FILESYSTEM_CUR_MODIFIABLE_VER}"
  "snapshot_version_list (mounted env) = [(FILESYSTEM_CUR_MODIFIABLE_VER, [FILESYSTEM_ROOT_INODE_NUMBER])]"
  using new_fs_ok [of "512 * 1024"]
  by (simp_all add: mounted_def set_up_root_eq entries_def in_versions_def new_fs_views decode_dentry_def)
    (simp add: new_inode_smi_t_def map_emplace_def)

lemma mounted_shown:
  "do_getattr env' ''/'' (mounted env, out) = (Inr 0, (mounted env, zero_stat\<lparr>st_ino := 0, st_nlink := 1, st_mode := 16877,
     st_uid := the_uid env, st_gid := the_gid env, st_size := 0, st_atim := clock env 1, st_mtim := clock env 2, st_ctim := clock env 0\<rparr>))"
  "do_readdir env' ''/'' (mounted env, []) = (Inr 0, (mounted env, [''.'', ''..'', ''.snapshot'']))"
  "do_readdir env' ''/.snapshot'' (mounted env, []) = (Inr 0, (mounted env, [''.'', ''..'', ''current'']))"
proof -
  have l: "locate (mounted env) ''/'' = Inr FILESYSTEM_ROOT_INODE_NUMBER" by (simp add: locate_def)
  have ne: "''/'' \<noteq> ''/'' @ SNAPSHOT_ENTRY" by (simp add: SNAPSHOT_ENTRY_def)
  have c: "fs_data (mounted env) FILESYSTEM_ROOT_INODE_NUMBER FILESYSTEM_CUR_MODIFIABLE_VER = Some []"
    and n: "card (in_versions (mounted env) FILESYSTEM_ROOT_INODE_NUMBER) = 1" by (simp_all add: mounted_views)
  show "do_getattr env' ''/'' (mounted env, out) = (Inr 0, (mounted env, zero_stat\<lparr>st_ino := 0, st_nlink := 1, st_mode := 16877,
     st_uid := the_uid env, st_gid := the_gid env, st_size := 0, st_atim := clock env 1, st_mtim := clock env 2, st_ctim := clock env 0\<rparr>))"
    using do_getattr_ok [OF mounted_ok ne if_snapshot_root l c _ mounted_stat, of env' out]
    unfolding n by (simp add: FILESYSTEM_ROOT_INODE_NUMBER_def)
  show "do_readdir env' ''/'' (mounted env, []) = (Inr 0, (mounted env, [''.'', ''..'', ''.snapshot'']))"
    using do_readdir_ok [OF mounted_ok ne if_snapshot_root l mounted_views(2), of env' "[]"] by (simp add: SNAPSHOT_ENTRY_def names_def)
  show "do_readdir env' ''/.snapshot'' (mounted env, []) = (Inr 0, (mounted env, [''.'', ''..'', ''current'']))"
    using do_readdir_snapshots [of env' "mounted env" "[]"]
    by (simp add: SNAPSHOT_ENTRY_def mounted_views FILESYSTEM_CUR_MODIFIABLE_VER_def c_str_def)
qed

lemma mount_main_eq:
  "mount_main debug env parsed fuse_main
    = Inr (case parsed of None \<Rightarrow> 1 | Some args \<Rightarrow> if fuse_main (mount_args debug args) (mounted env) = 0 then 0 else 1)"
  using new_fs_ok(1) [of "512 * 1024"]
  by (simp add: mount_main_def mounted_def set_up_root_eq split: option.splits)

end
