(* ===== verification/Runs.thy ===== *)
theory Runs
  imports Prelude
begin

text \<open>
  A contract for computations with exceptions: from a good state they end, with a value or
  with an exception that is not a bad one, in a state that a transitive relation ties to
  the first. The rules follow the combinators of the model.
\<close>

definition runs :: "('e \<Rightarrow> bool) \<Rightarrow> ('s \<Rightarrow> 's \<Rightarrow> bool) \<Rightarrow> ('s, 'e, 'a) exec \<Rightarrow> 's \<Rightarrow> bool" where
  "runs bad R m s \<longleftrightarrow> (\<exists>r s'. m s = (r, s') \<and> (\<forall>e. r = Inl e \<longrightarrow> \<not> bad e) \<and> R s s')"

lemma runsI: "m s = (r, s') \<Longrightarrow> (\<And>e. r = Inl e \<Longrightarrow> \<not> bad e) \<Longrightarrow> R s s' \<Longrightarrow> runs bad R m s"
  by (auto simp: runs_def)

lemma runs_congI: "m s = m' s \<Longrightarrow> runs bad R m' s \<Longrightarrow> runs bad R m s"
  by (simp add: runs_def)

lemma catchx_InlI: "m s = (Inl e, s') \<Longrightarrow> catchx m h s = h e s'"
  by (simp add: catchx_app)

lemma bindx_ret: "bindx (ret x) f = f x"
  by (simp add: bindx_def ret_def fun_eq_iff)

lemma bindx_cong_at: "m s = m' s \<Longrightarrow> bindx m f s = bindx m' f s"
  by (simp add: bindx_app)

locale stable_steps =
  fixes bad :: "'e \<Rightarrow> bool" and good :: "'s \<Rightarrow> bool" and R :: "'s \<Rightarrow> 's \<Rightarrow> bool"
  assumes R_refl: "good s \<Longrightarrow> R s s"
    and R_good: "R s s' \<Longrightarrow> good s'"
    and R_trans: "R s s' \<Longrightarrow> R s' s'' \<Longrightarrow> R s s''"
begin

lemma runs_pure: "good s \<Longrightarrow> m s = (r, s) \<Longrightarrow> (\<And>e. r = Inl e \<Longrightarrow> \<not> bad e) \<Longrightarrow> runs bad R m s"
  using R_refl by (auto simp: runs_def)

lemma runs_ret: "good s \<Longrightarrow> runs bad R (ret x) s"
  by (rule runs_pure) (auto simp: ret_app)

lemma runs_throw: "good s \<Longrightarrow> \<not> bad e \<Longrightarrow> runs bad R (throw e) s"
  by (rule runs_pure) (auto simp: throw_app)

lemma runs_bind:
  assumes m: "runs bad R m s" and f: "\<And>x s'. m s = (Inr x, s') \<Longrightarrow> good s' \<Longrightarrow> R s s' \<Longrightarrow> runs bad R (f x) s'"
  shows "runs bad R (bindx m f) s"
proof -
  obtain r s' where r: "m s = (r, s')" "\<And>e. r = Inl e \<Longrightarrow> \<not> bad e" "R s s'" using m by (auto simp: runs_def)
  show ?thesis
  proof (cases r)
    case (Inl e)
    then show ?thesis using r by (intro runsI [where s' = s' and r = "Inl e"]) (simp_all add: bindx_app)
  next
    case (Inr x)
    then have "runs bad R (f x) s'" using f r R_good by blast
    then obtain r2 s2 where "f x s' = (r2, s2)" "\<And>e. r2 = Inl e \<Longrightarrow> \<not> bad e" "R s' s2" by (auto simp: runs_def)
    then show ?thesis using r Inr R_trans by (intro runsI [where s' = s2 and r = r2]) (auto simp: bindx_app)
  qed
qed

text \<open>A step that changes nothing and whose result is known.\<close>

lemma runs_bind_pure:
  assumes "good s" and "m s = (r, s)" and "\<And>e. r = Inl e \<Longrightarrow> \<not> bad e" and "\<And>x. r = Inr x \<Longrightarrow> runs bad R (f x) s"
  shows "runs bad R (bindx m f) s"
  using assms by (intro runs_bind [OF runs_pure [where m = m, OF assms(1,2)]]) auto

lemma runs_bind_step:
  assumes "m s = (Inr x, s')" and "R s s'" and "runs bad R (f x) s'"
  shows "runs bad R (bindx m f) s"
  using assms by (intro runs_bind) (auto simp: runs_def)

end

end
