(* ===== verification/Fuse_Replace.thy ===== *)
theory Fuse_Replace
  imports Fuse_Rename
begin

text \<open>
  \<open>do_rename\<close> on a target name that is taken: the old target is removed first. When it is the
  renamed entry itself, the entry is gone afterwards.
\<close>

section \<open>The state between the removal and the saves\<close>

lemma refresh_open: "kind fs k = Some True \<Longrightarrow> on_inode k (refresh v) fs = on_inode k (new_directory_resolver_t v) fs"
  by (auto simp: kind_Some on_inode_def bindx_app getx_app zoomx_app inode_of_def new_directory_resolver_eq split: option.splits)

lemma removable_no_child: "removable fs t \<Longrightarrow> child fs FILESYSTEM_CUR_MODIFIABLE_VER t n = None"
  by (auto simp: removable_def child_def entries_def dir_map_def split: option.splits)

text \<open>A path to a directory with children does not end in, or lead through, an entry without any.\<close>

lemma resolve_without:
  assumes "kind fs' = (kind fs)(t2 := x)" and "\<And>k. k \<noteq> t2 \<Longrightarrow> fs_data fs k v \<noteq> None \<Longrightarrow> fs_data fs' k v \<noteq> None"
    and "\<And>k i s. child fs v k i = Some s \<Longrightarrow> s \<noteq> t2 \<Longrightarrow> child fs' v k i = Some s"
    and none: "\<And>i. child fs v t2 i = None" and "child fs v d n = Some t"
  shows "resolve fs v p k = Inr d \<Longrightarrow> k \<noteq> t2 \<Longrightarrow> resolve fs' v p k = Inr d"
proof (induction p arbitrary: k)
  case Nil
  then show ?case by simp
next
  case (Cons i p)
  from Cons.prems obtain s where k: "kind fs k = Some True" "fs_data fs k v \<noteq> None"
    and s: "child fs v k i = Some s" "resolve fs v p s = Inr d"
    by (auto split: option.splits bool.splits if_splits)
  have "s \<noteq> t2"
  proof
    assume "s = t2"
    then show False using s(2) none assms(5) by (cases p) (auto split: option.splits bool.splits if_splits)
  qed
  then show ?case using Cons.IH [OF s(2)] assms(1) assms(2) [OF Cons.prems(2) k(2)] assms(3) [OF s(1)] k Cons.prems(2) by auto
qed

text \<open>After the removal of another entry, the renamed one is where it was.\<close>

lemma removed_target:
  assumes ok: "fs_ok fs"
    and d1: "resolve fs FILESYSTEM_CUR_MODIFIABLE_VER p FILESYSTEM_ROOT_INODE_NUMBER = Inr d1"
    and t: "child fs FILESYSTEM_CUR_MODIFIABLE_VER d1 n = Some t"
    and e1: "entries fs FILESYSTEM_CUR_MODIFIABLE_VER d1 = Some path1"
    and e2: "entries fs FILESYSTEM_CUR_MODIFIABLE_VER d2 = Some path2"
    and t2: "child fs FILESYSTEM_CUR_MODIFIABLE_VER d2 m = Some t2" and rm: "removable fs t2"
    and room: "dir_room fs (length path2)" "length (snapshot_version_list fs) < 2 ^ 64"
    and cur: "version_inodes fs FILESYSTEM_CUR_MODIFIABLE_VER = Some ks"
  obtains fs0 rest1 rest2 where "remove_child_dentry_under_parent d2 m fs = (Inr (), fs0)" and "fs_ok fs0"
    and "resolve fs0 FILESYSTEM_CUR_MODIFIABLE_VER p FILESYSTEM_ROOT_INODE_NUMBER = Inr d1"
    and "entries fs0 FILESYSTEM_CUR_MODIFIABLE_VER d1 = Some rest1" and "length rest1 \<le> max (length path1) (length path2)"
    and "entries fs0 FILESYSTEM_CUR_MODIFIABLE_VER d2 = Some rest2" and "length rest2 \<le> length path2"
    and "child fs0 = (child fs)(FILESYSTEM_CUR_MODIFIABLE_VER := (child fs FILESYSTEM_CUR_MODIFIABLE_VER)
         (d2 := (child fs FILESYSTEM_CUR_MODIFIABLE_VER d2)(m := None)))"
    and "\<forall>k v. v \<noteq> FILESYSTEM_CUR_MODIFIABLE_VER \<longrightarrow> fs_data fs0 k v = fs_data fs k v"
    and "kind fs0 = (kind fs)(t2 := if in_versions fs t2 = {FILESYSTEM_CUR_MODIFIABLE_VER} then None else kind fs t2)"
    and "version_inodes fs0 = (version_inodes fs)(FILESYSTEM_CUR_MODIFIABLE_VER \<mapsto> remove1 t2 ks)"
    and "smi_block_size fs0 = smi_block_size fs"
    and "length (buffer_pool fs0) \<le> length (buffer_pool fs) + 2 * block_count (8 + 136 * length path2) (smi_block_size fs)"
    and "d1 \<noteq> t2" and "\<forall>k. k \<noteq> d2 \<and> k \<noteq> t2 \<longrightarrow> fs_data fs0 k = fs_data fs k"
proof -
  obtain fs0 rest2 where run: "remove_child_dentry_under_parent d2 m fs = (Inr (), fs0)" and ok0: "fs_ok fs0"
    and ch: "child fs0 = (child fs)(FILESYSTEM_CUR_MODIFIABLE_VER := (child fs FILESYSTEM_CUR_MODIFIABLE_VER)
         (d2 := (child fs FILESYSTEM_CUR_MODIFIABLE_VER d2)(m := None)))"
    and dt: "\<forall>k v. v \<noteq> FILESYSTEM_CUR_MODIFIABLE_VER \<longrightarrow> fs_data fs0 k v = fs_data fs k v"
    and same: "\<forall>k. k \<noteq> d2 \<and> k \<noteq> t2 \<longrightarrow> fs_data fs0 k = fs_data fs k"
    and kd: "kind fs0 = (kind fs)(t2 := if in_versions fs t2 = {FILESYSTEM_CUR_MODIFIABLE_VER} then None else kind fs t2)"
    and vi: "version_inodes fs0 = (version_inodes fs)(FILESYSTEM_CUR_MODIFIABLE_VER \<mapsto> remove1 t2 ks)"
    and bs: "smi_block_size fs0 = smi_block_size fs"
    and e2': "entries fs0 FILESYSTEM_CUR_MODIFIABLE_VER d2 = Some rest2" "length rest2 \<le> length path2"
    and len: "length (buffer_pool fs0) \<le> length (buffer_pool fs) + 2 * block_count (8 + 136 * length path2) (smi_block_size fs)"
    using remove_child_fs_ok [OF ok e2 t2 rm room cur] by blast
  have none: "child fs FILESYSTEM_CUR_MODIFIABLE_VER t2 i = None" for i using rm by (rule removable_no_child)
  have d1t: "d1 \<noteq> t2" using t none by auto
  have "FILESYSTEM_ROOT_INODE_NUMBER \<noteq> t2" using tree_okD(2) [OF fs_okD(3) [OF ok] t2] by simp
  then have r: "resolve fs0 FILESYSTEM_CUR_MODIFIABLE_VER p FILESYSTEM_ROOT_INODE_NUMBER = Inr d1"
  proof (rule resolve_without [OF kd _ _ none t d1, rotated 2])
    show "fs_data fs0 k FILESYSTEM_CUR_MODIFIABLE_VER \<noteq> None"
      if "k \<noteq> t2" "fs_data fs k FILESYSTEM_CUR_MODIFIABLE_VER \<noteq> None" for k
      using that same entries_data [OF fs_okD(4) [OF ok0] e2'(1)] by (cases "k = d2") auto
    show "child fs0 FILESYSTEM_CUR_MODIFIABLE_VER k i = Some s" if "child fs FILESYSTEM_CUR_MODIFIABLE_VER k i = Some s" "s \<noteq> t2" for k i s
      using that t2 by (auto simp: ch)
  qed
  have "\<exists>rest1. entries fs0 FILESYSTEM_CUR_MODIFIABLE_VER d1 = Some rest1 \<and> length rest1 \<le> max (length path1) (length path2)"
  proof (cases "d1 = d2")
    case True
    then show ?thesis using e2' by auto
  next
    case False
    then have "entries fs0 FILESYSTEM_CUR_MODIFIABLE_VER d1 = entries fs FILESYSTEM_CUR_MODIFIABLE_VER d1"
      using same d1t by (intro entries_cong) (auto simp: kd)
    then show ?thesis using e1 by auto
  qed
  then obtain rest1 where e1': "entries fs0 FILESYSTEM_CUR_MODIFIABLE_VER d1 = Some rest1" "length rest1 \<le> max (length path1) (length path2)"
    by blast
  show thesis by (rule that [OF run ok0 r e1' e2' ch dt kd vi bs len d1t same])
qed

lemma rename_add_taken:
  assumes "fs_ok fs0" and "dir_map path2 m = Some t2" and "remove_child_dentry_under_parent d2 m fs = (Inr (), fs0)"
    and "entries fs0 FILESYSTEM_CUR_MODIFIABLE_VER d2 = Some rest2" and "child fs0 FILESYSTEM_CUR_MODIFIABLE_VER d2 m = None"
    and "on_inode d2 (save_current (rest2 @ [\<lparr>pathname = m, pack_inode = t\<rparr>])) fs0 = (Inr (), fs1)"
  shows "rename_add d2 path2 m t fs = (Inr (), fs1)"
proof -
  have "m \<in> set (names path2)" using assms(2) dir_map_None [of path2 m] by simp
  then have a: "add_path path2 m t = Inl (HTMPFS_error_t HTMPFS_DOUBLE_MKPATHNAME)"
    by (simp add: add_path_def any_same_iff)
  have "dir_map rest2 m = None" using assms(4,5) by (simp add: child_def)
  then have b: "add_path rest2 m t = Inr (rest2 @ [\<lparr>pathname = m, pack_inode = t\<rparr>])" by (rule add_path_ok)
  have "kind fs0 d2 = Some True" using entries_data [OF fs_okD(4) [OF assms(1)] assms(4)] by blast
  then have c: "on_inode d2 (refresh FILESYSTEM_CUR_MODIFIABLE_VER) fs0 = (Inr rest2, fs0)"
    using open_entries [OF fs_okD(1,4) [OF assms(1)] assms(4)] by (simp add: refresh_open)
  show ?thesis using assms(3,6) a b c by (simp add: rename_add_def catchx_app bindx_app liftx_app)
qed

text \<open>Room for three saves of directories with up to \<open>n\<close> entries.\<close>

definition replace_room :: "inode_smi_t \<Rightarrow> nat \<Rightarrow> bool" where
  "replace_room fs n \<longleftrightarrow> n < 2 ^ 32 \<and> 8 + 136 * n + smi_block_size fs < 2 ^ 64 \<and>
     length (buffer_pool fs) + 6 * block_count (8 + 136 * n) (smi_block_size fs) \<le> buffer_pool_max_size"

lemma replace_room_dir: "replace_room fs n \<Longrightarrow> dir_room fs n"
  by (simp add: replace_room_def dir_room_def)

lemma replace_room_rename: "replace_room fs n \<Longrightarrow> rename_room fs n"
  by (simp add: replace_room_def rename_room_def)

lemma replace_room_rest:
  assumes "fs_ok fs" and "replace_room fs n" and "l \<le> n" and "smi_block_size fs0 = smi_block_size fs"
    and "length (buffer_pool fs0) \<le> length (buffer_pool fs) + 2 * block_count (8 + 136 * l) (smi_block_size fs)"
  shows "rename_room fs0 n"
proof -
  have "block_count (8 + 136 * l) (smi_block_size fs) \<le> block_count (8 + 136 * n) (smi_block_size fs)"
    using fs_okD(1) [OF assms(1)] assms(3) by (intro block_count_mono) (simp_all add: storage_ok_def)
  then show ?thesis using assms(2,4,5) by (simp add: replace_room_def rename_room_def)
qed

section \<open>Replacing another entry\<close>

lemma rename_replace_ok:
  assumes ok: "fs_ok fs" and p: "plain_path (p @ [n])" and q: "plain_path (q @ [m])"
    and d1: "resolve fs FILESYSTEM_CUR_MODIFIABLE_VER p FILESYSTEM_ROOT_INODE_NUMBER = Inr d1"
    and t: "child fs FILESYSTEM_CUR_MODIFIABLE_VER d1 n = Some t"
    and d2: "resolve fs FILESYSTEM_CUR_MODIFIABLE_VER q FILESYSTEM_ROOT_INODE_NUMBER = Inr d2"
    and e1: "entries fs FILESYSTEM_CUR_MODIFIABLE_VER d1 = Some path1"
    and e2: "entries fs FILESYSTEM_CUR_MODIFIABLE_VER d2 = Some path2"
    and t2: "child fs FILESYSTEM_CUR_MODIFIABLE_VER d2 m = Some t2" "t2 \<noteq> t" "removable fs t2" and name: "storable_name m"
    and room: "replace_room fs N" "length path1 \<le> N" "Suc (length path2) \<le> N" "length (snapshot_version_list fs) < 2 ^ 64"
    and cur: "version_inodes fs FILESYSTEM_CUR_MODIFIABLE_VER = Some ks"
  shows "\<exists>fs'. do_rename env (path_to_string (p @ [n])) (path_to_string (q @ [m])) fs = (Inr 0, fs') \<and> fs_ok fs'
     \<and> (\<forall>k x. child fs' FILESYSTEM_CUR_MODIFIABLE_VER k x
          = (if k = d1 \<and> x = n then None else if k = d2 \<and> x = m then Some t else child fs FILESYSTEM_CUR_MODIFIABLE_VER k x))
     \<and> (\<forall>k v. v \<noteq> FILESYSTEM_CUR_MODIFIABLE_VER \<longrightarrow> fs_data fs' k v = fs_data fs k v)
     \<and> kind fs' = (kind fs)(t2 := if in_versions fs t2 = {FILESYSTEM_CUR_MODIFIABLE_VER} then None else kind fs t2)
     \<and> version_inodes fs' = (version_inodes fs)(FILESYSTEM_CUR_MODIFIABLE_VER \<mapsto> remove1 t2 ks)
     \<and> (\<forall>k. k \<noteq> d1 \<and> k \<noteq> d2 \<and> k \<noteq> t2 \<longrightarrow> fs_data fs' k = fs_data fs k)"
proof -
  have "dir_room fs (length path2)"
    using dir_room_mono [OF fs_okD(1) [OF ok] replace_room_dir [OF room(1)]] room(3) by simp
  then obtain fs0 rest1 rest2 where rm: "remove_child_dentry_under_parent d2 m fs = (Inr (), fs0)" and ok0: "fs_ok fs0"
    and r0: "resolve fs0 FILESYSTEM_CUR_MODIFIABLE_VER p FILESYSTEM_ROOT_INODE_NUMBER = Inr d1"
    and e10: "entries fs0 FILESYSTEM_CUR_MODIFIABLE_VER d1 = Some rest1" "length rest1 \<le> max (length path1) (length path2)"
    and e20: "entries fs0 FILESYSTEM_CUR_MODIFIABLE_VER d2 = Some rest2" "length rest2 \<le> length path2"
    and ch0: "child fs0 = (child fs)(FILESYSTEM_CUR_MODIFIABLE_VER := (child fs FILESYSTEM_CUR_MODIFIABLE_VER)
         (d2 := (child fs FILESYSTEM_CUR_MODIFIABLE_VER d2)(m := None)))"
    and dt0: "\<forall>k v. v \<noteq> FILESYSTEM_CUR_MODIFIABLE_VER \<longrightarrow> fs_data fs0 k v = fs_data fs k v"
    and kd0: "kind fs0 = (kind fs)(t2 := if in_versions fs t2 = {FILESYSTEM_CUR_MODIFIABLE_VER} then None else kind fs t2)"
    and vi0: "version_inodes fs0 = (version_inodes fs)(FILESYSTEM_CUR_MODIFIABLE_VER \<mapsto> remove1 t2 ks)"
    and bs0: "smi_block_size fs0 = smi_block_size fs"
    and len0: "length (buffer_pool fs0) \<le> length (buffer_pool fs) + 2 * block_count (8 + 136 * length path2) (smi_block_size fs)"
    and same0: "\<forall>k. k \<noteq> d2 \<and> k \<noteq> t2 \<longrightarrow> fs_data fs0 k = fs_data fs k"
    using removed_target [OF ok d1 t e1 e2 t2(1,3) _ room(4) cur] by metis
  have room0: "rename_room fs0 N" using replace_room_rest [OF ok room(1) _ bs0 len0] room(3) by simp
  have free0: "child fs0 FILESYSTEM_CUR_MODIFIABLE_VER d2 m = None" by (simp add: ch0)
  have "\<not> (d1 = d2 \<and> n = m)" using t t2(1,2) by auto
  then have t0: "child fs0 FILESYSTEM_CUR_MODIFIABLE_VER d1 n = Some t" using t by (auto simp: ch0)
  have l: "length rest1 \<le> N" "Suc (length rest2) \<le> N" using e10(2) e20(2) room(2,3) by simp_all
  obtain fs1 path rest fs' where c: "on_inode d2 (save_current (rest2 @ [\<lparr>pathname = m, pack_inode = t\<rparr>])) fs0 = (Inr (), fs1)"
    "storage_ok fs1" "dirs_ok fs1"
    "resolve fs1 FILESYSTEM_CUR_MODIFIABLE_VER p FILESYSTEM_ROOT_INODE_NUMBER = Inr d1" "inode_of fs1 d1 \<noteq> None"
    "entries fs1 FILESYSTEM_CUR_MODIFIABLE_VER d1 = Some path" "remove_path path n = Inr rest"
    "on_inode d1 (save_current rest) fs1 = (Inr (), fs')"
    and r: "fs_ok fs'" "\<forall>k x. child fs' FILESYSTEM_CUR_MODIFIABLE_VER k x
          = (if k = d1 \<and> x = n then None else if k = d2 \<and> x = m then Some t else child fs0 FILESYSTEM_CUR_MODIFIABLE_VER k x)"
      "\<forall>k v. v \<noteq> FILESYSTEM_CUR_MODIFIABLE_VER \<or> k \<noteq> d1 \<and> k \<noteq> d2 \<longrightarrow> fs_data fs' k v = fs_data fs0 k v"
      "kind fs' = kind fs0" "links fs' = links fs0" "stat_of fs' = stat_of fs0" "version_inodes fs' = version_inodes fs0"
    using ok0 r0 t0 e10(1) e20(1) free0 name room0 l by (rule rename_core)
  have dm: "dir_map path2 m = Some t2" using t2(1) e2 by (simp add: child_def)
  have "do_rename env (path_to_string (p @ [n])) (path_to_string (q @ [m])) fs = (Inr 0, fs')"
    by (rule do_rename_eq [OF ok p q d1 t d2 e2 rename_add_taken [OF ok0 dm rm e20(1) free0 c(1)] c(2-8)])
  moreover have "\<forall>k. k \<noteq> d1 \<and> k \<noteq> d2 \<and> k \<noteq> t2 \<longrightarrow> fs_data fs' k = fs_data fs k"
    using r(3) same0 by (auto intro!: ext)
  ultimately show ?thesis using r dt0 kd0 vi0 by (intro exI [of _ fs']) (simp add: ch0)
qed

section \<open>An entry renamed to itself\<close>

text \<open>The invariant is a matter of the children, however the directories are stored.\<close>

lemma same_children_ok:
  assumes ok: "fs_ok fs" and sok: "storage_ok fs'" and dok: "dirs_ok fs'"
    and same: "snapshot_version_list fs' = snapshot_version_list fs" "links fs' = links fs" "kind fs' = kind fs"
      "\<And>k v. v \<noteq> FILESYSTEM_CUR_MODIFIABLE_VER \<Longrightarrow> fs_data fs' k v = fs_data fs k v"
    and ch: "child fs' = child fs"
  shows "fs_ok fs'"
proof -
  have "versions_ok fs'" and iv: "in_versions fs' = in_versions fs"
    using versions_ok_cong [OF fs_okD(2) [OF ok] same] by simp_all
  moreover have "tree_ok fs'"
    using fs_okD(3) [OF ok] dok unfolding tree_ok_def iv ch same(3) by simp
  ultimately show ?thesis using sok by (simp add: fs_ok_def)
qed

lemma rename_self_ok:
  assumes ok: "fs_ok fs" and p: "plain_path (p @ [n])" and q: "plain_path (q @ [n])"
    and d2: "resolve fs FILESYSTEM_CUR_MODIFIABLE_VER q FILESYSTEM_ROOT_INODE_NUMBER = Inr d1"
    and d1: "resolve fs FILESYSTEM_CUR_MODIFIABLE_VER p FILESYSTEM_ROOT_INODE_NUMBER = Inr d1"
    and t: "child fs FILESYSTEM_CUR_MODIFIABLE_VER d1 n = Some t" and rm: "removable fs t"
    and e1: "entries fs FILESYSTEM_CUR_MODIFIABLE_VER d1 = Some path1" and name: "storable_name n"
    and room: "replace_room fs N" "Suc (length path1) \<le> N" "length (snapshot_version_list fs) < 2 ^ 64"
    and cur: "version_inodes fs FILESYSTEM_CUR_MODIFIABLE_VER = Some ks"
  shows "\<exists>fs'. do_rename env (path_to_string (p @ [n])) (path_to_string (q @ [n])) fs = (Inr 0, fs') \<and> fs_ok fs'
     \<and> child fs' = (child fs)(FILESYSTEM_CUR_MODIFIABLE_VER := (child fs FILESYSTEM_CUR_MODIFIABLE_VER)
         (d1 := (child fs FILESYSTEM_CUR_MODIFIABLE_VER d1)(n := None)))
     \<and> (\<forall>k v. v \<noteq> FILESYSTEM_CUR_MODIFIABLE_VER \<longrightarrow> fs_data fs' k v = fs_data fs k v)
     \<and> kind fs' = (kind fs)(t := if in_versions fs t = {FILESYSTEM_CUR_MODIFIABLE_VER} then None else kind fs t)
     \<and> version_inodes fs' = (version_inodes fs)(FILESYSTEM_CUR_MODIFIABLE_VER \<mapsto> remove1 t ks)
     \<and> (\<forall>k. k \<noteq> d1 \<and> k \<noteq> t \<longrightarrow> fs_data fs' k = fs_data fs k)"
proof -
  let ?cur = FILESYSTEM_CUR_MODIFIABLE_VER
  have "dir_room fs (length path1)"
    using dir_room_mono [OF fs_okD(1) [OF ok] replace_room_dir [OF room(1)]] room(2) by simp
  then obtain fs0 rest1 where rm0: "remove_child_dentry_under_parent d1 n fs = (Inr (), fs0)" and ok0: "fs_ok fs0"
    and r0: "resolve fs0 ?cur p FILESYSTEM_ROOT_INODE_NUMBER = Inr d1"
    and e0: "entries fs0 ?cur d1 = Some rest1" "length rest1 \<le> max (length path1) (length path1)"
    and ch0: "child fs0 = (child fs)(?cur := (child fs ?cur)(d1 := (child fs ?cur d1)(n := None)))"
    and dt0: "\<forall>k v. v \<noteq> ?cur \<longrightarrow> fs_data fs0 k v = fs_data fs k v"
    and kd0: "kind fs0 = (kind fs)(t := if in_versions fs t = {?cur} then None else kind fs t)"
    and vi0: "version_inodes fs0 = (version_inodes fs)(?cur \<mapsto> remove1 t ks)"
    and bs0: "smi_block_size fs0 = smi_block_size fs"
    and len0: "length (buffer_pool fs0) \<le> length (buffer_pool fs) + 2 * block_count (8 + 136 * length path1) (smi_block_size fs)"
    and same0: "\<forall>k. k \<noteq> d1 \<and> k \<noteq> t \<longrightarrow> fs_data fs0 k = fs_data fs k"
    using removed_target [OF ok d1 t e1 e1 t rm _ room(3) cur] by metis
  note sok0 = fs_okD(1) [OF ok0] and dok0 = fs_okD(4) [OF ok0]
  have room0: "rename_room fs0 N" using replace_room_rest [OF ok room(1) _ bs0 len0] room(2) by simp
  have N: "N < 2 ^ 32" using room0 by (simp add: rename_room_def)
  have k0: "kind fs0 d1 = Some True" using entries_data [OF dok0 e0(1)] by blast
  have free: "child fs0 ?cur d1 n = None" by (simp add: ch0)
  then have free': "dir_map rest1 n = None" using e0(1) by (simp add: child_def)
  let ?path = "rest1 @ [\<lparr>pathname = n, pack_inode = t\<rparr>]"
  have l: "length ?path \<le> N" using e0(2) room(2) by simp
  have b1: "dir_bytes ?path (encode_dentry ?path)"
    using dir_bytes_snoc [OF entries_dir_bytes [OF dok0 e0(1)] free' name child_number [OF fs_okD(4) [OF ok] t]] l N by simp
  obtain fs1 where run1: "on_inode d1 (save_current ?path) fs0 = (Inr (), fs1)" and sok1: "storage_ok fs1" and dok1: "dirs_ok fs1"
    and ch1: "child fs1 = (child fs0)(?cur := (child fs0 ?cur)(d1 := dir_map ?path))"
    and en1: "entries fs1 ?cur d1 = Some ?path"
    and dt1: "\<And>k v. v \<noteq> ?cur \<or> k \<noteq> d1 \<Longrightarrow> fs_data fs1 k v = fs_data fs0 k v"
    and r1: "links fs1 = links fs0" "kind fs1 = kind fs0" "snapshot_version_list fs1 = snapshot_version_list fs0"
      "smi_block_size fs1 = smi_block_size fs0"
    and len1: "length (buffer_pool fs1) \<le> length (buffer_pool fs0) + 2 * block_count (8 + 136 * length ?path) (smi_block_size fs0)"
    using save_entries [OF sok0 dok0 k0 rename_room_first [OF sok0 room0 l] b1] by metis
  have found1: "resolve fs1 ?cur p FILESYSTEM_ROOT_INODE_NUMBER = Inr d1"
  proof (rule resolve_mono [OF _ _ _ r0])
    show "kind fs1 k = Some True" if "kind fs0 k = Some True" for k using that r1(2) by simp
    show "fs_data fs1 k ?cur \<noteq> None" if "fs_data fs0 k ?cur \<noteq> None" for k
      using that dt1 [of ?cur k] entries_data [OF dok1 en1] by (cases "k = d1") auto
    show "child fs1 ?cur k x = Some s" if "child fs0 ?cur k x = Some s" for k x s
      using that free e0(1) by (auto simp: ch1 dir_map_snoc [OF free'] child_def)
  qed
  have "dir_map ?path n = Some t" by (simp add: dir_map_snoc [OF free'])
  then obtain rest where rest: "remove_path ?path n = Inr rest" "dir_map rest = (dir_map ?path)(n := None)"
    and b2: "dir_bytes rest (encode_dentry rest)" and lr: "length rest \<le> length ?path"
    by (rule dir_bytes_remove [OF b1])
  have undone: "dir_map rest = dir_map rest1" using free' by (simp add: rest(2) dir_map_snoc [OF free'] fun_upd_idem)
  have room1: "dir_room fs1 (length rest)"
    by (rule rename_room_second [OF sok0 room0 l order_trans [OF lr l] r1(4) len1 sok1])
  have k1: "kind fs1 d1 = Some True" using k0 r1(2) by simp
  then have i1: "inode_of fs1 d1 \<noteq> None" by (auto simp: kind_Some)
  obtain fs2 where run2: "on_inode d1 (save_current rest) fs1 = (Inr (), fs2)" and sok2: "storage_ok fs2" and dok2: "dirs_ok fs2"
    and ch2: "child fs2 = (child fs1)(?cur := (child fs1 ?cur)(d1 := dir_map rest))"
    and dt2: "\<And>k v. v \<noteq> ?cur \<or> k \<noteq> d1 \<Longrightarrow> fs_data fs2 k v = fs_data fs1 k v"
    and r2: "links fs2 = links fs1" "kind fs2 = kind fs1" "snapshot_version_list fs2 = snapshot_version_list fs1"
    using save_entries [OF sok1 dok1 k1 room1 b2] by metis
  have "child fs0 ?cur d1 = dir_map rest1" using e0(1) by (simp add: child_def fun_eq_iff)
  then have "(child fs0 ?cur)(d1 := dir_map rest1) = child fs0 ?cur" by (rule fun_upd_idem)
  then have ch: "child fs2 = child fs0" by (simp add: ch2 ch1 undone)
  have ok2: "fs_ok fs2"
    by (rule same_children_ok [OF ok0 sok2 dok2 _ _ _ _ ch]) (simp_all add: r1 r2 dt1 dt2)
  have dm: "dir_map path1 n = Some t" using t e1 by (simp add: child_def)
  have "do_rename env (path_to_string (p @ [n])) (path_to_string (q @ [n])) fs = (Inr 0, fs2)"
    by (rule do_rename_eq [OF ok p q d1 t d2 e1 rename_add_taken [OF ok0 dm rm0 e0(1) free run1] sok1 dok1 found1 i1 en1 rest(1) run2])
  moreover have "version_inodes fs2 = version_inodes fs0" by (simp add: version_inodes_def r1 r2)
  moreover have "\<forall>k. k \<noteq> d1 \<and> k \<noteq> t \<longrightarrow> fs_data fs2 k = fs_data fs k"
    using same0 by (auto intro!: ext simp: dt1 dt2)
  ultimately show ?thesis
    using ok2 ch ch0 dt0 kd0 vi0 by (intro exI [of _ fs2]) (simp add: dt1 dt2 r1 r2)
qed

end
