(* ===== verification/Fuse_Safety.thy ===== *)
theory Fuse_Safety
  imports Mount Runs Fuse_Replace
begin

text \<open>
  No request of the kernel can break the file system: whatever the outcome, a handler
  returns a number, the invariant holds afterwards, and every snapshot volume that the
  request does not delete keeps its tree and its bytes.
\<close>

section \<open>What is kept\<close>

definition kept :: "string set \<Rightarrow> inode_smi_t \<Rightarrow> inode_smi_t \<Rightarrow> bool" where
  "kept D fs fs' \<longleftrightarrow> fs_ok fs' \<and>
     (\<forall>v. v \<noteq> FILESYSTEM_CUR_MODIFIABLE_VER \<and> v \<notin> D \<and> version_inodes fs v \<noteq> None \<longrightarrow> version_kept v fs fs')"

lemma kept_refl: "fs_ok fs \<Longrightarrow> kept D fs fs"
  by (simp add: kept_def version_kept_refl)

lemma kept_ok: "kept D fs fs' \<Longrightarrow> fs_ok fs'"
  by (simp add: kept_def)

lemma kept_trans:
  assumes "kept D fs fs1" and "kept D fs1 fs2"
  shows "kept D fs fs2"
  unfolding kept_def
proof (intro conjI allI impI)
  fix v
  assume v: "v \<noteq> FILESYSTEM_CUR_MODIFIABLE_VER \<and> v \<notin> D \<and> version_inodes fs v \<noteq> None"
  then have a: "version_kept v fs fs1" using assms(1) by (simp add: kept_def)
  then have "version_inodes fs1 v \<noteq> None" using v by (simp add: version_kept_def)
  then have "version_kept v fs1 fs2" using assms(2) v by (simp add: kept_def)
  with a show "version_kept v fs fs2" by (rule version_kept_trans)
qed (use assms(2) in \<open>simp add: kept_def\<close>)

interpretation on_files: stable_steps "\<lambda>e. e = Undefined_behaviour" fs_ok "kept D" for D
  by unfold_locales (auto intro: kept_refl kept_ok kept_trans)

interpretation with_reply: stable_steps "\<lambda>e. e = Undefined_behaviour" "\<lambda>s. fs_ok (fst s)" "\<lambda>s s'. kept D (fst s) (fst s')" for D
  by unfold_locales (auto intro: kept_refl kept_ok kept_trans)

abbreviation safe :: "string set \<Rightarrow> 'a smi_exec \<Rightarrow> inode_smi_t \<Rightarrow> bool" where
  "safe D \<equiv> runs (\<lambda>e. e = Undefined_behaviour) (kept D)"

abbreviation safe_out :: "string set \<Rightarrow> (inode_smi_t \<times> 'o, exc, 'a) exec \<Rightarrow> inode_smi_t \<times> 'o \<Rightarrow> bool" where
  "safe_out D \<equiv> runs (\<lambda>e. e = Undefined_behaviour) (\<lambda>s s'. kept D (fst s) (fst s'))"

text \<open>
  The same for any relation \<open>R\<close> between the states before and after: a handler that serves
  \<open>R\<close> returns, and leaves a state related to the first.
\<close>

definition served_by :: "(inode_smi_t \<Rightarrow> inode_smi_t \<Rightarrow> bool) \<Rightarrow> 'a smi_exec \<Rightarrow> inode_smi_t \<Rightarrow> bool" where
  "served_by R m fs \<longleftrightarrow> (\<exists>r fs'. m fs = (Inr r, fs') \<and> R fs fs')"

abbreviation served :: "string set \<Rightarrow> 'a smi_exec \<Rightarrow> inode_smi_t \<Rightarrow> bool" where
  "served D \<equiv> served_by (kept D)"

abbreviation safe_by :: "(inode_smi_t \<Rightarrow> inode_smi_t \<Rightarrow> bool) \<Rightarrow> 'a smi_exec \<Rightarrow> inode_smi_t \<Rightarrow> bool" where
  "safe_by R \<equiv> runs (\<lambda>e. e = Undefined_behaviour) R"

abbreviation safe_out_by :: "(inode_smi_t \<Rightarrow> inode_smi_t \<Rightarrow> bool) \<Rightarrow> (inode_smi_t \<times> 'o, exc, 'a) exec \<Rightarrow> inode_smi_t \<times> 'o \<Rightarrow> bool" where
  "safe_out_by R \<equiv> runs (\<lambda>e. e = Undefined_behaviour) (\<lambda>s s'. R (fst s) (fst s'))"

lemma served_catch_tail: "safe_by R m fs \<Longrightarrow> served_by R (with_code (catch_tail env m)) fs"
proof -
  assume "safe_by R m fs"
  then obtain r fs' where r: "m fs = (r, fs')" "\<forall>e. r = Inl e \<longrightarrow> e \<noteq> Undefined_behaviour" "R fs fs'"
    unfolding runs_def by blast
  then show ?thesis
    by (cases r; cases "projl r") (auto simp: served_by_def with_code_def catch_tail_def catchx_app bindx_app ret_app)
qed

lemma served_catch_tail_data: "safe_by R m fs \<Longrightarrow> served_by R (with_data (catch_tail_data env m)) fs"
proof -
  assume "safe_by R m fs"
  then obtain r fs' where r: "m fs = (r, fs')" "\<forall>e. r = Inl e \<longrightarrow> e \<noteq> Undefined_behaviour" "R fs fs'"
    unfolding runs_def by blast
  then show ?thesis
    by (cases r; cases "projl r")
       (auto simp: served_by_def with_data_def catch_tail_data_def catch_tail_def catchx_app bindx_app ret_app throw_app)
qed

lemma served_with_out: "safe_out_by R m (fs, out) \<Longrightarrow> served_by R (with_out out f (catch_tail env m)) fs"
proof -
  assume "safe_out_by R m (fs, out)"
  then obtain r s' where r: "m (fs, out) = (r, s')" "\<forall>e. r = Inl e \<longrightarrow> e \<noteq> Undefined_behaviour" "R fs (fst s')"
    unfolding runs_def fst_conv by blast
  then show ?thesis
    by (cases r; cases "projl r") (auto simp: served_by_def with_out_def catch_tail_def catchx_app ret_app)
qed

section \<open>Lookups\<close>

lemma resolve_no_undefined: "resolve fs v p k \<noteq> Inl Undefined_behaviour"
  by (induction p arbitrary: k) (auto split: option.splits bool.splits)

lemma locate_no_undefined: "locate fs path \<noteq> Inl Undefined_behaviour"
  by (auto simp: locate_def resolve_no_undefined simp del: resolve.simps split: list.splits)

lemma if_snapshot_no_undefined: "if_snapshot path out \<noteq> Inl Undefined_behaviour"
  by (auto simp: if_snapshot_def split: list.splits)

lemma data_size_any:
  assumes "fs_ok fs" and "inode_of fs k \<noteq> None"
  shows "on_inode k (current_data_size v) fs = (case fs_data fs k v of
     None \<Rightarrow> Inl (HTMPFS_error_t HTMPFS_NO_SUCH_SNAPSHOT) | Some c \<Rightarrow> Inr (length c), fs)"
proof (cases "fs_data fs k v")
  case (Some c)
  then show ?thesis using data_size_fs_eq [OF assms(1) Some] by simp
next
  case None
  obtain i where i: "inode_of fs k = Some i" using assms(2) by auto
  have "map_of (buffer_map i) v = None" using None fs_data_eq [OF i] by (simp add: version_data_def)
  then show ?thesis
    using None on_inode_pure [where m = "current_data_size v", OF i current_data_size_missing] by simp
qed

lemma open_any:
  assumes "fs_ok fs" and "inode_of fs k \<noteq> None"
  obtains r where "on_inode k (new_directory_resolver_t v) fs = (r, fs)" and "r \<noteq> Inl Undefined_behaviour"
proof (cases "kind fs k = Some True")
  case True
  show thesis
  proof (cases "fs_data fs k v")
    case None
    then show thesis using open_no_version [OF True None] that by simp
  next
    case (Some c)
    obtain path where "entries fs v k = Some path"
      using dirs_okE [OF fs_okD(4) [OF assms(1)] True Some] by blast
    then show thesis using open_entries [OF fs_okD(1,4) [OF assms(1)]] that by simp
  qed
next
  case False
  then have "kind fs k = Some False" using assms(2) by (auto simp: kind_def)
  then show thesis using open_file that by simp
qed

text \<open>Reading, wherever it starts: it returns bytes, or one of the two errors.\<close>

lemma read_any:
  assumes "fs_ok fs" and "inode_of fs k \<noteq> None" and "offset + len < 2 ^ 64"
  obtains r where "on_inode k (inode_read v len offset) fs = (r, fs)" and "r \<noteq> Inl Undefined_behaviour"
proof -
  obtain i where i: "inode_of fs k = Some i" using assms(2) by auto
  note iok = storage_okD [OF fs_okD(1) [OF assms(1)] i]
  have "\<exists>r. inode_read v len offset (i, buffer_pool fs) = (r, (i, buffer_pool fs)) \<and> r \<noteq> Inl Undefined_behaviour"
  proof (cases "map_of (buffer_map i) v")
    case None
    then show ?thesis by (simp add: inode_read_def ret_app bindx_app getx_app throw_app)
  next
    case (Some bl)
    then have v: "version_data i (buffer_pool fs) v \<noteq> None" by (simp add: version_data_def)
    then obtain c where "version_data i (buffer_pool fs) v = Some c" by auto
    then have h: "holds (block_size i) (buffer_pool fs) bl c" using iok(1) Some by (auto elim: inode_ok_version)
    consider "offset < length c \<or> length c mod block_size i \<noteq> 0" | "len = 0 \<or> offset > length c"
      | "0 < len" "offset = length c" "length c mod block_size i = 0" by linarith
    then show ?thesis
    proof cases
      case 1
      then show ?thesis using inode_read_ok [OF Some h assms(3)] by simp
    next
      case 2
      then show ?thesis using Some current_data_size_eq [OF Some h]
        by (auto simp: inode_read_def ret_app bindx_app getx_app inode_exec)
    next
      case 3
      then show ?thesis using inode_read_at_end [OF Some h] assms(3) by simp
    qed
  qed
  then show thesis using on_inode_pure [where m = "inode_read v len offset", OF i] that by blast
qed

section \<open>Requests that change attributes only\<close>

lemma kept_put_stat: "fs_ok fs \<Longrightarrow> kept D fs (put_stat k f fs)"
  by (simp add: kept_def put_stat_ok version_kept_def)

text \<open>
  A relation that every attribute update satisfies: the handlers that only look, or set
  attributes, serve it.
\<close>

locale attribute_steps =
  fixes R :: "inode_smi_t \<Rightarrow> inode_smi_t \<Rightarrow> bool"
  assumes steps_refl: "fs_ok fs \<Longrightarrow> R fs fs"
    and steps_ok: "R fs fs' \<Longrightarrow> fs_ok fs'"
    and steps_trans: "R fs fs1 \<Longrightarrow> R fs1 fs2 \<Longrightarrow> R fs fs2"
    and steps_put_stat: "fs_ok fs \<Longrightarrow> R fs (put_stat k f fs)"

sublocale attribute_steps \<subseteq> fs_runs: stable_steps "\<lambda>e. e = Undefined_behaviour" fs_ok R
  by unfold_locales (auto intro: steps_refl steps_ok steps_trans)

sublocale attribute_steps \<subseteq> out_runs: stable_steps "\<lambda>e. e = Undefined_behaviour" "\<lambda>s. fs_ok (fst s)" "\<lambda>s s'. R (fst s) (fst s')"
  by unfold_locales (auto intro: steps_refl steps_ok steps_trans)

context attribute_steps
begin

lemma step_get_id:
  assumes "fs_ok fs" and "\<And>k. locate fs path = Inr k \<Longrightarrow> inode_of fs k \<noteq> None \<Longrightarrow> safe_by R (f k) fs"
  shows "safe_by R (bindx (get_inode_id_by_path path) f) fs"
  using assms locate_no_undefined locate_inode [OF assms(1)]
  by (intro fs_runs.runs_bind_pure [where m = "get_inode_id_by_path path", OF assms(1) get_inode_id_by_path_locate [OF assms(1)]]) auto

lemma step_by_path:
  assumes "fs_ok fs" and "\<And>k. locate fs path = Inr k \<Longrightarrow> inode_of fs k \<noteq> None \<Longrightarrow> safe_by R (f k) fs"
  shows "safe_by R (bindx (inode_by_path path) f) fs"
  using assms locate_no_undefined locate_inode [OF assms(1)]
  by (intro fs_runs.runs_bind_pure [where m = "inode_by_path path", OF assms(1) inode_by_path_eq [OF assms(1)]]) auto

lemma step_get_inode:
  assumes "fs_ok fs" and "inode_of fs k \<noteq> None" and "safe_by R (f k) fs"
  shows "safe_by R (bindx (get_inode_by_id k) f) fs"
  using assms by (intro fs_runs.runs_bind_pure [where m = "get_inode_by_id k", OF assms(1) get_inode_by_id_eq [OF assms(2)]]) auto

lemma step_if_snapshot:
  assumes "fs_ok fs" and "\<And>v q. if_snapshot path [] = Inr (v, q) \<Longrightarrow> safe_by R (f (v, q)) fs"
  shows "safe_by R (bindx (liftx (if_snapshot path [])) f) fs"
  using assms if_snapshot_no_undefined by (intro fs_runs.runs_bind_pure) (auto simp: liftx_app)

lemma step_rdonly:
  assumes "fs_ok fs" and "\<And>q. if_snapshot path [] = Inr (FILESYSTEM_CUR_MODIFIABLE_VER, q) \<Longrightarrow> safe_by R m fs"
  shows "safe_by R (check_rdonly_fs path m) fs"
  unfolding check_rdonly_fs_def using assms by (intro step_if_snapshot) (auto intro: fs_runs.runs_ret)

lemma step_lift:
  assumes "fs_ok fs" and "r = Inr x" and "safe_by R (f x) fs"
  shows "safe_by R (bindx (liftx r) f) fs"
  using assms by (intro fs_runs.runs_bind_pure) (auto simp: liftx_app)

lemma step_on_stat:
  assumes "fs_ok fs" and "inode_of fs k \<noteq> None" and "safe_by R (g ()) (put_stat k f fs)"
  shows "safe_by R (bindx (on_stat k f) g) fs"
  using on_stat_eq [OF assms(2)] steps_put_stat [OF assms(1)] assms(3) by (rule fs_runs.runs_bind_step)

lemma step_get_stat:
  assumes "fs_ok fs" and "inode_of fs k \<noteq> None" and "\<And>st. safe_by R (f st) fs"
  shows "safe_by R (bindx (get_stat k) f) fs"
proof -
  obtain st where "stat_of fs k = Some st" using assms(2) by (auto simp: stat_of_def)
  then show ?thesis using assms by (intro fs_runs.runs_bind_pure [where m = "get_stat k", OF assms(1) get_stat_eq]) auto
qed

end

interpretation kept_steps: attribute_steps "kept D" for D
  by unfold_locales (auto intro: kept_refl kept_ok kept_trans kept_put_stat)

lemmas safe_get_id = kept_steps.step_get_id
lemmas safe_by_path = kept_steps.step_by_path
lemmas safe_get_inode = kept_steps.step_get_inode
lemmas safe_if_snapshot = kept_steps.step_if_snapshot
lemmas safe_rdonly = kept_steps.step_rdonly
lemmas safe_lift = kept_steps.step_lift
lemmas safe_on_stat = kept_steps.step_on_stat
lemmas safe_get_stat = kept_steps.step_get_stat

end
