(* ===== verification/Fuse_Readers.thy ===== *)
theory Fuse_Readers
  imports Fuse_Safety
begin

text \<open>
  The handlers that look at the file system or change attributes only: they are safe on
  every path.
\<close>

context attribute_steps
begin

section \<open>Attributes\<close>

lemma step_change_stat:
  assumes "fs_ok fs"
  shows "safe_by R (check_rdonly_fs path (bindx (inode_by_path path) (\<lambda>k. bindx (on_stat k f) (\<lambda>_. ret n)))) fs"
  using assms by (intro step_rdonly step_by_path step_on_stat fs_runs.runs_ret put_stat_ok)

lemma serves_chmod: "fs_ok fs \<Longrightarrow> served_by R (with_code (do_chmod env path mode)) fs"
  unfolding do_chmod_def by (intro served_catch_tail step_change_stat)

lemma serves_chown: "fs_ok fs \<Longrightarrow> served_by R (with_code (do_chown env path uid gid)) fs"
  unfolding do_chown_def by (intro served_catch_tail step_change_stat)

lemma serves_utimens: "fs_ok fs \<Longrightarrow> served_by R (with_code (do_utimens env path tv0 tv1)) fs"
  unfolding do_utimens_def by (intro served_catch_tail step_change_stat)

lemma serves_access: "fs_ok fs \<Longrightarrow> served_by R (with_code (do_access env path mode)) fs"
  unfolding do_access_def
  by (intro served_catch_tail) (auto intro!: step_by_path step_get_stat fs_runs.runs_ret)

lemma serves_open: "fs_ok fs \<Longrightarrow> served_by R (with_code (do_open env path)) fs"
  unfolding do_open_def
  by (intro served_catch_tail) (auto intro!: step_get_id fs_runs.runs_ret)

section \<open>Contents\<close>

lemma step_read:
  assumes "fs_ok fs" and "inode_of fs k \<noteq> None" and "offset + len < 2 ^ 64" and "\<And>cs. safe_by R (f cs) fs"
  shows "safe_by R (bindx (on_inode k (inode_read v len offset)) f) fs"
proof -
  obtain r where r: "on_inode k (inode_read v len offset) fs = (r, fs)" "r \<noteq> Inl Undefined_behaviour"
    using assms(1-3) by (rule read_any)
  show ?thesis
    using r(2) assms(4)
    by (intro fs_runs.runs_bind_pure [where m = "on_inode k (inode_read v len offset)", OF assms(1) r(1)]) auto
qed

lemma serves_read:
  assumes "fs_ok fs" and "0 \<le> offset" and "offset < 2 ^ 63" and "nat offset + sz < 2 ^ 64"
  shows "served_by R (with_data (do_read env path sz offset)) fs"
  unfolding do_read_def
proof (intro served_catch_tail_data step_if_snapshot [OF assms(1)])
  fix v q
  show "safe_by R ((\<lambda>(version, parsed_path). bindx (inode_by_path path) (\<lambda>k.
        bindx (on_stat k (\<lambda>s. s\<lparr>st_atim := clock env 0\<rparr>)) (\<lambda>_.
        bindx (on_inode k (inode_read version sz (of_off_t offset))) (\<lambda>cs.
        ret (to_int32 (length cs), cs))))) (v, q)) fs"
    unfolding prod.case
  proof (intro step_by_path [OF assms(1)] step_on_stat [OF assms(1)] step_read fs_runs.runs_ret put_stat_ok assms(1))
    fix k
    assume k: "inode_of fs k \<noteq> None"
    then show "inode_of (put_stat k (\<lambda>s. s\<lparr>st_atim := clock env 0\<rparr>) fs) k \<noteq> None" by (simp add: inode_of_put_stat)
    show "inode_of fs k \<noteq> None" by (rule k)
    show "of_off_t offset + sz < 2 ^ 64" using assms(4) by (simp add: of_off_t_nonneg [OF assms(2,3)])
  qed
qed

lemma serves_readlink:
  assumes "fs_ok fs" and "sz < 2 ^ 64"
  shows "served_by R (with_data (do_readlink env path sz)) fs"
  unfolding do_readlink_def
proof (intro served_catch_tail_data step_if_snapshot [OF assms(1)])
  fix v q
  show "safe_by R ((\<lambda>(version, parsed_path). bindx (inode_by_path path) (\<lambda>k. bindx (get_stat k) (\<lambda>st.
        if st_mode st AND S_IFLNK \<noteq> 0 then bindx (on_inode k (inode_read version sz 0)) (\<lambda>cs. ret (0, cs))
        else ret (- int EINVAL, [])))) (v, q)) fs"
    unfolding prod.case
  proof (intro step_by_path [OF assms(1)] step_get_stat [OF assms(1)])
    fix k st
    assume k: "inode_of fs k \<noteq> None"
    show "safe_by R (if st_mode st AND S_IFLNK \<noteq> 0 then bindx (on_inode k (inode_read v sz 0)) (\<lambda>cs. ret (0, cs))
        else ret (- int EINVAL, [])) fs"
      using assms k by (auto intro!: step_read fs_runs.runs_ret)
  qed
qed

section \<open>Handlers with an output\<close>

lemma out_pure:
  assumes "fs_ok fs" and "m fs = (r, fs)" and "r \<noteq> Inl Undefined_behaviour"
    and "\<And>x. r = Inr x \<Longrightarrow> safe_out_by R (f x) (fs, out)"
  shows "safe_out_by R (bindx (on_fs m) f) (fs, out)"
  using assms
  by (intro out_runs.runs_bind_pure [where m = "on_fs m" and s = "(fs, out)" and r = r])
     (auto simp: on_fs_def zoomx_app)

lemma out_set:
  assumes "fs_ok fs" and "safe_out_by R (g ()) (fs, f out)"
  shows "safe_out_by R (bindx (set_out f) g) (fs, out)"
  using assms
  by (intro out_runs.runs_bind_step [where m = "set_out f" and s = "(fs, out)" and s' = "(fs, f out)"])
     (auto simp: set_out_def modifyx_app steps_refl)

lemma out_ret: "fs_ok fs \<Longrightarrow> safe_out_by R (ret n) (fs, out)"
  by (rule out_runs.runs_ret) simp

lemma out_lift:
  assumes "fs_ok fs" and "r \<noteq> Inl Undefined_behaviour" and "\<And>x. r = Inr x \<Longrightarrow> safe_out_by R (f x) (fs, out)"
  shows "safe_out_by R (bindx (liftx r) f) (fs, out)"
  using assms by (intro out_runs.runs_bind_pure) (auto simp: liftx_app)

lemma serves_getattr:
  assumes ok: "fs_ok fs"
  shows "served_by R (with_out stbuf Attr (do_getattr env path)) fs"
  unfolding do_getattr_def
proof (rule served_with_out, cases "path = ''/'' @ SNAPSHOT_ENTRY", goal_cases)
  case 1
  then show ?case by (auto intro!: out_set out_ret ok)
next
  case 2
  have "safe_out_by R (bindx (liftx (if_snapshot path [])) (\<lambda>(version, parsed_path).
           bindx (on_fs (get_inode_id_by_path path)) (\<lambda>ino.
           bindx (on_fs (get_inode_by_id ino)) (\<lambda>k.
           bindx (on_fs (get_stat k)) (\<lambda>st.
           bindx (set_out (\<lambda>_. st)) (\<lambda>_.
           bindx (on_fs (on_inode k (current_data_size version))) (\<lambda>sz.
           bindx (set_out (\<lambda>s. s\<lparr>st_size := to_off_t sz\<rparr>)) (\<lambda>_.
           bindx (on_fs (count_link_for_inode ino)) (\<lambda>n.
           bindx (set_out (\<lambda>s. s\<lparr>st_nlink := n\<rparr>)) (\<lambda>_.
           bindx (set_out (\<lambda>s. s\<lparr>st_ino := ino\<rparr>)) (\<lambda>_. ret 0))))))))))) (fs, stbuf)"
  proof (rule out_lift [OF ok if_snapshot_no_undefined], clarify,
      rule out_pure [where m = "get_inode_id_by_path path", OF ok get_inode_id_by_path_locate [OF ok] locate_no_undefined])
    fix v q ino
    assume "locate fs path = Inr ino"
    then have ino: "inode_of fs ino \<noteq> None" by (rule locate_inode [OF ok])
    then obtain st where st: "stat_of fs ino = Some st" by (auto simp: stat_of_def)
    have cnt: "\<exists>n. count_link_for_inode ino fs = (Inr n, fs)"
      using ino by (auto simp: count_link_for_inode_def bindx_app getx_app ret_app inode_of_def)
    show "safe_out_by R (bindx (on_fs (get_inode_by_id ino)) (\<lambda>k.
           bindx (on_fs (get_stat k)) (\<lambda>st.
           bindx (set_out (\<lambda>_. st)) (\<lambda>_.
           bindx (on_fs (on_inode k (current_data_size v))) (\<lambda>sz.
           bindx (set_out (\<lambda>s. s\<lparr>st_size := to_off_t sz\<rparr>)) (\<lambda>_.
           bindx (on_fs (count_link_for_inode ino)) (\<lambda>n.
           bindx (set_out (\<lambda>s. s\<lparr>st_nlink := n\<rparr>)) (\<lambda>_.
           bindx (set_out (\<lambda>s. s\<lparr>st_ino := ino\<rparr>)) (\<lambda>_. ret 0))))))))) (fs, stbuf)"
      using ok cnt
      by (auto intro!: out_pure [where m = "get_inode_by_id ino", OF ok get_inode_by_id_eq [OF ino]]
          out_pure [where m = "get_stat ino", OF ok get_stat_eq [OF st]]
          out_pure [where m = "on_inode ino (current_data_size v)", OF ok data_size_any [OF ok ino]] out_set out_ret out_pure [where m = "count_link_for_inode ino"]
          split: option.splits)
  qed
  with 2 show ?case by simp
qed

lemma serves_readdir:
  assumes ok: "fs_ok fs"
  shows "served_by R (with_out [] Names (do_readdir env path)) fs"
  unfolding do_readdir_def filler_def
proof (rule served_with_out, rule out_set [OF ok])
  let ?out = "[] @ [''.'', ''..'']"
  let ?out2 = "if path = ''/'' then ?out @ [SNAPSHOT_ENTRY] else ?out"
  have first: "(if path = ''/'' then set_out (\<lambda>out. out @ [SNAPSHOT_ENTRY]) else ret ()) (fs, ?out) = (Inr (), (fs, ?out2))"
    by (simp add: set_out_def modifyx_app ret_app)
  have inner: "safe_out_by R (bindx (liftx (if_snapshot path [])) (\<lambda>(version, parsed_path).
           bindx (on_fs (inode_by_path path)) (\<lambda>k.
           bindx (on_fs (on_inode k (new_directory_resolver_t version))) (\<lambda>directoryResolver.
           bindx (set_out (\<lambda>out. out @ map (\<lambda>i. c_str (pathname i)) (to_vector directoryResolver))) (\<lambda>_. ret 0))))) (fs, ?out2)"
  proof (rule out_lift [OF ok if_snapshot_no_undefined], clarify,
      rule out_pure [where m = "inode_by_path path", OF ok inode_by_path_eq [OF ok] locate_no_undefined])
    fix v q k
    assume "locate fs path = Inr k"
    then have "inode_of fs k \<noteq> None" by (rule locate_inode [OF ok])
    then obtain r where r: "on_inode k (new_directory_resolver_t v) fs = (r, fs)" "r \<noteq> Inl Undefined_behaviour"
      by (rule open_any [OF ok])
    show "safe_out_by R (bindx (on_fs (on_inode k (new_directory_resolver_t v))) (\<lambda>directoryResolver.
           bindx (set_out (\<lambda>out. out @ map (\<lambda>i. c_str (pathname i)) (to_vector directoryResolver))) (\<lambda>_. ret 0))) (fs, ?out2)"
      by (intro out_pure [where m = "on_inode k (new_directory_resolver_t v)", OF ok r] out_set out_ret ok)
  qed
  have snaps: "safe_out_by R (bindx (on_fs (getx snapshot_version_list)) (\<lambda>vs.
           bindx (set_out (\<lambda>out. out @ map (\<lambda>i. c_str (fst i)) vs)) (\<lambda>_. ret 0))) (fs, ?out2)"
    by (intro out_pure [where m = "getx snapshot_version_list", OF ok getx_app] out_set out_ret ok) simp
  show "safe_out_by R (bindx (if path = ''/'' then set_out (\<lambda>out. out @ [SNAPSHOT_ENTRY]) else ret ()) (\<lambda>_.
         if path = ''/'' @ SNAPSHOT_ENTRY then
           bindx (on_fs (getx snapshot_version_list)) (\<lambda>vs.
           bindx (set_out (\<lambda>out. out @ map (\<lambda>i. c_str (fst i)) vs)) (\<lambda>_. ret 0))
         else
           bindx (liftx (if_snapshot path [])) (\<lambda>(version, parsed_path).
           bindx (on_fs (inode_by_path path)) (\<lambda>k.
           bindx (on_fs (on_inode k (new_directory_resolver_t version))) (\<lambda>directoryResolver.
           bindx (set_out (\<lambda>out. out @ map (\<lambda>i. c_str (pathname i)) (to_vector directoryResolver))) (\<lambda>_. ret 0)))))) (fs, ?out)"
    using inner snaps
    by (intro out_runs.runs_bind_step [where m = "if path = ''/'' then set_out (\<lambda>out. out @ [SNAPSHOT_ENTRY]) else ret ()", OF first])
       (simp add: steps_refl ok, cases "path = ''/'' @ SNAPSHOT_ENTRY", simp_all only: if_True if_False simp_thms)
qed

end

text \<open>On the relation that keeps the snapshots.\<close>

lemmas served_chmod = kept_steps.serves_chmod
lemmas served_chown = kept_steps.serves_chown
lemmas served_utimens = kept_steps.serves_utimens
lemmas served_access = kept_steps.serves_access
lemmas served_open = kept_steps.serves_open
lemmas served_read = kept_steps.serves_read
lemmas served_readlink = kept_steps.serves_readlink
lemmas served_getattr = kept_steps.serves_getattr
lemmas served_readdir = kept_steps.serves_readdir

end
