(* ===== verification/Fuse_Writers.thy ===== *)
theory Fuse_Writers
  imports Fuse_Readers
begin

text \<open>
  The handlers that change directories and contents, on the paths the kernel hands to FUSE
  and with room in the pools: each is safe, whether it succeeds or not.
\<close>

section \<open>Paths of the kernel\<close>

text \<open>
  The kernel passes absolute normalised paths. Names have fewer than 128 bytes: a longer one
  cannot be stored. \<open>.snapshot/current\<close> is left out: for the checks it is not a snapshot.
\<close>

definition kernel_path :: "string \<Rightarrow> bool" where
  "kernel_path s \<longleftrightarrow> s = (if components s = [] then ''/'' else path_to_string (components s)) \<and>
     (\<forall>n\<in>set (components s). storable_name n) \<and>
     (case components s of a # b # _ \<Rightarrow> a = ''.snapshot'' \<longrightarrow> b \<noteq> FILESYSTEM_CUR_MODIFIABLE_VER | _ \<Rightarrow> True)"

lemma kernel_path_cases:
  assumes "kernel_path s"
  obtains (root) "s = ''/''"
    | (entry) "if_snapshot s [] = Inl (HTMPFS_error_t HTMPFS_INVALID_DENTRY_NAME)" "s = path_to_string [''.snapshot'']"
    | (version) v r where "if_snapshot s [] = Inr (v, path_to_string r)" and "v \<noteq> FILESYSTEM_CUR_MODIFIABLE_VER"
        and "s = path_to_string (''.snapshot'' # v # r)" and "\<forall>n\<in>set (v # r). component n"
    | (plain) p n where "s = path_to_string (p @ [n])" and "plain_path (p @ [n])" and "storable_name n"
proof (cases "components s")
  case Nil
  then show thesis using assms root by (simp add: kernel_path_def)
next
  case (Cons a q)
  have s: "s = path_to_string (a # q)" using assms Cons by (simp add: kernel_path_def)
  have c: "\<forall>n\<in>set (a # q). component n" using components_component [of _ s] Cons by auto
  show thesis
  proof (cases "a = ''.snapshot''")
    case False
    obtain p n where pn: "a # q = p @ [n]" by (metis rev_exhaust list.distinct(1))
    have "plain_path (p @ [n])" using c False unfolding pn [symmetric] by (simp add: plain_path_def)
    moreover have "storable_name n" using assms Cons pn by (simp add: kernel_path_def)
    ultimately show thesis using plain s pn by simp
  next
    case True
    show thesis
    proof (cases q)
      case Nil
      then show thesis using entry if_snapshot_no_version Cons True s by simp
    next
      case (Cons v r)
      have cs: "components s = ''.snapshot'' # v # r" using Cons \<open>components s = a # q\<close> True by simp
      have "v \<noteq> FILESYSTEM_CUR_MODIFIABLE_VER" using assms cs by (simp add: kernel_path_def)
      then show thesis using version [of v r] if_snapshot_version [OF cs, of "[]"] s c Cons True by simp
    qed
  qed
qed

text \<open>A handler that checks for a snapshot first only ever works on the root or a plain path.\<close>

lemma safe_current:
  assumes ok: "fs_ok fs" and s: "kernel_path s"
    and root: "s = ''/'' \<Longrightarrow> safe D m fs"
    and plain: "\<And>p n. s = path_to_string (p @ [n]) \<Longrightarrow> plain_path (p @ [n]) \<Longrightarrow> storable_name n \<Longrightarrow> safe D m fs"
  shows "safe D (check_rdonly_fs s m) fs"
proof (rule safe_rdonly [OF ok])
  fix q
  assume q: "if_snapshot s [] = Inr (FILESYSTEM_CUR_MODIFIABLE_VER, q)"
  from s show "safe D m fs" by (cases rule: kernel_path_cases) (use q root plain in auto)
qed

lemma root_pop: "path_pop_end (new_path_t ''/'') = Inr ([], [])"
  by (simp add: new_path_t_eq path_pop_end_def)

lemma plain_parent_nonempty: "plain_path (p @ [n]) \<Longrightarrow> path_pop_end (new_path_t (path_to_string (p @ [n]))) = Inr (n, '''' # p) \<and> n \<noteq> []"
  using plain_path_rules(1) component_not_Nil by blast

section \<open>Room\<close>

definition space_ok :: "inode_smi_t \<Rightarrow> nat \<Rightarrow> bool" where
  "space_ok fs n \<longleftrightarrow> n < 2 ^ 63 \<and> length (inode_pool fs) < inode_pool_max_size \<and>
     length (snapshot_version_list fs) + 1 < 2 ^ 64 \<and> counters_ok fs \<and>
     (\<forall>k path. entries fs FILESYSTEM_CUR_MODIFIABLE_VER k = Some path \<longrightarrow> Suc (length path) < 2 ^ 32 \<and>
        length (buffer_pool fs) + 6 * block_count (8 + 136 * Suc (length path)) (smi_block_size fs)
          + 2 * block_count n (smi_block_size fs) \<le> buffer_pool_max_size) \<and>
     (\<forall>k c. fs_data fs k FILESYSTEM_CUR_MODIFIABLE_VER = Some c \<longrightarrow> length (buffer_pool fs) + length c \<le> buffer_pool_max_size)"

lemma space_replace:
  assumes "fs_ok fs" and "space_ok fs n" and "entries fs FILESYSTEM_CUR_MODIFIABLE_VER k = Some path"
  shows "replace_room fs (Suc (length path))"
proof -
  have "smi_block_size fs < 2 ^ 32" using fs_okD(1) [OF assms(1)] by (simp add: storage_ok_def)
  moreover have "Suc (length path) < 2 ^ 32 \<and>
        length (buffer_pool fs) + 6 * block_count (8 + 136 * Suc (length path)) (smi_block_size fs)
          + 2 * block_count n (smi_block_size fs) \<le> buffer_pool_max_size"
    using assms(2,3) unfolding space_ok_def by blast
  ultimately show ?thesis by (simp add: replace_room_def)
qed

lemma space_dir:
  assumes "fs_ok fs" and "space_ok fs n" and "entries fs FILESYSTEM_CUR_MODIFIABLE_VER k = Some path"
  shows "dir_room fs (Suc (length path))" and "dir_room fs (length path)"
  using replace_room_dir [OF space_replace [OF assms]] dir_room_mono [OF fs_okD(1) [OF assms(1)]] by auto

lemma space_file:
  assumes "fs_ok fs" and "space_ok fs n"
  shows "file_room fs n"
proof -
  have bs: "smi_block_size fs < 2 ^ 32" using fs_okD(1) [OF assms(1)] by (simp add: storage_ok_def)
  obtain path where "entries fs FILESYSTEM_CUR_MODIFIABLE_VER FILESYSTEM_ROOT_INODE_NUMBER = Some path"
    using current_entries [OF assms(1) tree_ok_root(1) [OF fs_okD(3) [OF assms(1)]]] by blast
  then have "length (buffer_pool fs) + 6 * block_count (8 + 136 * Suc (length path)) (smi_block_size fs)
          + 2 * block_count n (smi_block_size fs) \<le> buffer_pool_max_size"
    using assms(2) unfolding space_ok_def by blast
  moreover have "n < 2 ^ 63" using assms(2) by (simp add: space_ok_def)
  ultimately show ?thesis using bs by (simp add: file_room_def)
qed

section \<open>New nodes\<close>

lemma dir_or_file: "inode_of fs k \<noteq> None \<Longrightarrow> kind fs k = Some True \<or> kind fs k = Some False"
  by (auto simp: kind_def)

lemma make_child_under_file:
  assumes "kind fs k = Some False" and "\<not> list_ex bad_char name"
  shows "make_child_dentry_under_parent k name d fs = (Inl (HTMPFS_error_t HTMPFS_NOT_A_DIRECTORY), fs)"
proof -
  obtain pk where "map_of (inode_pool fs) k = Some pk" using assms(1) by (auto simp: kind_def inode_of_def)
  then show ?thesis using open_file [OF assms(1)] assms(2)
    by (simp add: make_child_dentry_under_parent_def bindx_app getx_app)
qed

text \<open>Either a child can be made, or the attempt is refused.\<close>

lemma make_child_any:
  assumes ok: "fs_ok fs" and k: "inode_of fs p \<noteq> None" and name: "storable_name name" and space: "space_ok fs n"
  obtains (refused) c where "make_child_dentry_under_parent p name d fs = (Inl (HTMPFS_error_t c), fs)"
    | (made) path where "op_ok fs (Make p name d)" and "entries fs FILESYSTEM_CUR_MODIFIABLE_VER p = Some path"
proof (cases "list_ex bad_char name")
  case True
  then show thesis using refused make_child_refused_name by blast
next
  case False
  show thesis
  proof (cases "kind fs p = Some True")
    case False
    then have "kind fs p = Some False" using dir_or_file [OF k] by blast
    then show thesis using refused make_child_under_file \<open>\<not> list_ex bad_char name\<close> by blast
  next
    case True
    then obtain path where e: "entries fs FILESYSTEM_CUR_MODIFIABLE_VER p = Some path" by (rule current_entries [OF ok])
    show thesis
    proof (cases "child fs FILESYSTEM_CUR_MODIFIABLE_VER p name")
      case (Some t)
      then show thesis
        using refused make_child_refused_double [OF fs_okD(1,4) [OF ok] \<open>\<not> list_ex bad_char name\<close>] by blast
    next
      case None
      then have "dir_map path name = None" using e by (simp add: child_def)
      moreover have "valid_name name" using \<open>\<not> list_ex bad_char name\<close> name by (simp add: valid_name_def storable_name_def)
      moreover have "length (inode_pool fs) < inode_pool_max_size" using space by (simp add: space_ok_def)
      ultimately have "op_ok fs (Make p name d)" using e space_dir(1) [OF ok space e] by simp
      then show thesis using made e by blast
    qed
  qed
qed

lemma kept_make_node:
  assumes "fs_ok fs" and "fs_ok fs'" and "inode_of fs k = None"
    and "\<forall>m v. m \<noteq> k \<and> (m \<noteq> p \<or> v \<noteq> FILESYSTEM_CUR_MODIFIABLE_VER) \<longrightarrow> fs_data fs' m v = fs_data fs m v"
    and "kind fs' = (kind fs)(k \<mapsto> d)" and "\<forall>v. v \<noteq> FILESYSTEM_CUR_MODIFIABLE_VER \<longrightarrow> version_inodes fs' v = version_inodes fs v"
  shows "kept D fs fs'"
proof -
  have "m \<noteq> k" if "v \<in> in_versions fs m" for v m
    using that in_versions_inode [OF fs_okD(2) [OF assms(1)]] assms(3) by blast
  then show ?thesis using assms unfolding kept_def version_kept_def by auto
qed

lemma safe_make_node:
  assumes ok: "fs_ok fs" and k: "inode_of fs p \<noteq> None" and name: "storable_name name" and space: "space_ok fs n"
  shows "safe D (make_node p name d f) fs"
proof (rule make_child_any [OF ok k name space, of d])
  fix c
  assume "make_child_dentry_under_parent p name d fs = (Inl (HTMPFS_error_t c), fs)"
  then have "make_node p name d f fs = (Inl (HTMPFS_error_t c), fs)" by (simp add: make_node_def bindx_app)
  then show ?thesis using ok by (intro on_files.runs_pure) auto
next
  assume "op_ok fs (Make p name d)"
  from make_node_ok [OF ok this, of f] obtain k fs' where r: "make_node p name d f fs = (Inr 0, fs')" and "inode_of fs k = None"
    and "fs_ok fs'" and "kind fs' = (kind fs)(k \<mapsto> d)"
    and "\<forall>m v. m \<noteq> k \<and> (m \<noteq> p \<or> v \<noteq> FILESYSTEM_CUR_MODIFIABLE_VER) \<longrightarrow> fs_data fs' m v = fs_data fs m v"
    and "\<forall>v. v \<noteq> FILESYSTEM_CUR_MODIFIABLE_VER \<longrightarrow> version_inodes fs' v = version_inodes fs v" by blast
  then have "kept D fs fs'" using kept_make_node [OF ok] by blast
  with r show ?thesis by (intro runsI) auto
qed

lemmas safe_new_node = safe_make_node [unfolded make_node_def]

text \<open>The handlers that split the path first; the root has no name to split off.\<close>

lemma safe_at_parent:
  assumes ok: "fs_ok fs" and s: "kernel_path s" and root: "safe D (f ([], [])) fs"
    and plain: "\<And>p x. s = path_to_string (p @ [x]) \<Longrightarrow> plain_path (p @ [x]) \<Longrightarrow> storable_name x \<Longrightarrow> x \<noteq> [] \<Longrightarrow>
      safe D (f (x, '''' # p)) fs"
  shows "safe D (check_rdonly_fs s (bindx (liftx (path_pop_end (new_path_t s))) f)) fs"
proof (rule safe_current [OF ok s])
  assume "s = ''/''"
  then show "safe D (bindx (liftx (path_pop_end (new_path_t s))) f) fs" using root_pop root by (intro safe_lift [OF ok]) auto
next
  fix p x
  assume p: "s = path_to_string (p @ [x])" "plain_path (p @ [x])" "storable_name x"
  then show "safe D (bindx (liftx (path_pop_end (new_path_t s))) f) fs"
    using plain_parent_nonempty [OF p(2)] plain [OF p] by (intro safe_lift [OF ok]) auto
qed

lemma served_create:
  assumes ok: "fs_ok fs" and s: "kernel_path s" and space: "space_ok fs n"
  shows "served D (with_code (do_create env s mode)) fs"
  unfolding do_create_def
  by (intro served_catch_tail safe_at_parent [OF ok s])
     (auto intro!: safe_get_id safe_new_node [OF ok _ _ space] on_files.runs_throw ok)

lemma served_mknod:
  assumes ok: "fs_ok fs" and s: "kernel_path s" and space: "space_ok fs n"
  shows "served D (with_code (do_mknod env s mode device)) fs"
  unfolding do_mknod_def
  by (intro served_catch_tail safe_at_parent [OF ok s])
     (auto intro!: safe_get_id safe_new_node [OF ok _ _ space] on_files.runs_throw ok)

section \<open>Directories and volumes\<close>

lemma safe_op:
  assumes "fs_ok fs" and "op_ok fs op" and "\<And>v. op = Unsnapshot v \<Longrightarrow> v \<in> D"
  shows "safe D (run_op op) fs"
proof -
  obtain fs' where r: "run_op op fs = (Inr (), fs')" "fs_ok fs'" and k: "\<forall>v. v \<noteq> FILESYSTEM_CUR_MODIFIABLE_VER \<and> op \<noteq> Unsnapshot v
      \<and> version_inodes fs v \<noteq> None \<longrightarrow> version_kept v fs fs'"
    using run_op_ok [OF assms(1,2)] by blast
  have "kept D fs fs'" using r(2) k assms(3) unfolding kept_def by blast
  then show ?thesis using r(1) by (intro runsI) auto
qed

lemma safe_create_snapshot:
  assumes ok: "fs_ok fs" and space: "space_ok fs n"
  shows "safe D (create_snapshot_volume v) fs"
proof (cases "version_inodes fs v")
  case None
  then have "op_ok fs (Snapshot v)" using space by (simp add: space_ok_def)
  from safe_op [OF ok this] show ?thesis by simp
next
  case (Some ks)
  then show ?thesis
    using create_snapshot_volume_double [OF Some] ok by (intro on_files.runs_pure [where m = "create_snapshot_volume v"]) auto
qed

lemma safe_delete_snapshot:
  assumes ok: "fs_ok fs" and space: "space_ok fs n" and v: "v \<noteq> FILESYSTEM_CUR_MODIFIABLE_VER" "v \<in> D"
  shows "safe D (delete_snapshot_volume v) fs"
proof (cases "version_inodes fs v")
  case None
  then show ?thesis
    using delete_snapshot_volume_missing [OF None] ok by (intro on_files.runs_pure [where m = "delete_snapshot_volume v"]) auto
next
  case (Some ks)
  then have "op_ok fs (Unsnapshot v)" using space v(1) by (simp add: space_ok_def)
  from safe_op [OF ok this] v(2) show ?thesis by simp
qed

lemma remove_child_under_file:
  assumes "kind fs k = Some False"
  shows "remove_child_dentry_under_parent k name fs = (Inl (HTMPFS_error_t HTMPFS_NOT_A_DIRECTORY), fs)"
proof -
  obtain pk where "map_of (inode_pool fs) k = Some pk" using assms by (auto simp: kind_def inode_of_def)
  then show ?thesis using open_file [OF assms] by (simp add: remove_child_dentry_under_parent_def bindx_app getx_app)
qed

text \<open>Either the child can be removed, or the attempt is refused.\<close>

lemma remove_child_any:
  assumes ok: "fs_ok fs" and k: "inode_of fs p \<noteq> None" and space: "space_ok fs n"
  obtains (refused) c where "remove_child_dentry_under_parent p name fs = (Inl (HTMPFS_error_t c), fs)"
    | (gone) "op_ok fs (Remove p name)"
proof (cases "kind fs p = Some True")
  case False
  then have "kind fs p = Some False" using dir_or_file [OF k] by blast
  then show thesis using refused remove_child_under_file by blast
next
  case True
  then obtain path where e: "entries fs FILESYSTEM_CUR_MODIFIABLE_VER p = Some path" by (rule current_entries [OF ok])
  show thesis
  proof (cases "child fs FILESYSTEM_CUR_MODIFIABLE_VER p name")
    case None
    then show thesis using refused remove_child_missing [OF ok e] by blast
  next
    case (Some t)
    then have t: "inode_of fs t \<noteq> None"
      using tree_okD(1) [OF fs_okD(3) [OF ok]] in_versions_inode [OF fs_okD(2) [OF ok]] by blast
    have dm: "dir_map path name = Some t" using Some e by (simp add: child_def)
    show thesis
    proof (cases "removable fs t")
      case True
      then have "op_ok fs (Remove p name)" using space dm e space_dir(2) [OF ok space e] by (simp add: space_ok_def)
      then show thesis by (rule gone)
    next
      case False
      then have "kind fs t = Some True" using dir_or_file [OF t] by (simp add: removable_def)
      then obtain sub where "entries fs FILESYSTEM_CUR_MODIFIABLE_VER t = Some sub" by (rule current_entries [OF ok])
      then show thesis using False refused remove_child_not_empty [OF ok Some] by (auto simp: removable_def)
    qed
  qed
qed

lemma safe_remove_child:
  assumes ok: "fs_ok fs" and k: "inode_of fs p \<noteq> None" and space: "space_ok fs n"
  shows "safe D (remove_child_dentry_under_parent p name) fs"
proof (rule remove_child_any [OF ok k space, of name])
  fix c
  assume "remove_child_dentry_under_parent p name fs = (Inl (HTMPFS_error_t c), fs)"
  then show ?thesis using ok by (intro on_files.runs_pure [where m = "remove_child_dentry_under_parent p name"]) auto
next
  assume "op_ok fs (Remove p name)"
  from safe_op [OF ok this] show ?thesis by simp
qed

lemma safe_remove_by_path:
  assumes ok: "fs_ok fs" and space: "space_ok fs n" and p: "s = ''/'' \<or> (\<exists>p x. s = path_to_string (p @ [x]) \<and> plain_path (p @ [x]))"
  shows "safe D (remove_inode_by_path s) fs"
proof (cases "s = ''/''")
  case True
  then have "remove_inode_by_path s fs = (Inl (HTMPFS_error_t HTMPFS_CANNOT_REMOVE_ROOT), fs)"
    by (simp add: remove_inode_by_path_def throw_app)
  then show ?thesis using ok by (intro on_files.runs_pure [where m = "remove_inode_by_path s"]) auto
next
  case False
  then obtain p x where p: "s = path_to_string (p @ [x])" "plain_path (p @ [x])" using p by blast
  note eq = remove_inode_by_path_eq [OF ok plain_pathD(1) [OF p(2)], folded p(1)]
  show ?thesis
  proof (cases "resolve fs FILESYSTEM_CUR_MODIFIABLE_VER p FILESYSTEM_ROOT_INODE_NUMBER")
    case (Inl e)
    then have "remove_inode_by_path s fs = (Inl e, fs)" "e \<noteq> Undefined_behaviour"
      using eq resolve_no_undefined [of fs _ p] by auto
    then show ?thesis using ok by (intro on_files.runs_pure [where m = "remove_inode_by_path s"]) auto
  next
    case (Inr d)
    then have "inode_of fs d \<noteq> None" using resolve_inode [OF ok _ root_inode [OF ok]] by blast
    moreover have "remove_inode_by_path s fs = remove_child_dentry_under_parent d x fs" using eq Inr by simp
    ultimately show ?thesis using safe_remove_child [OF ok _ space] by (blast intro: runs_congI)
  qed
qed

lemma safe_then_ret: "safe D m fs \<Longrightarrow> safe D (bindx m (\<lambda>_. ret x)) fs"
  by (rule on_files.runs_bind) (auto intro: on_files.runs_ret)

lemma served_unlink:
  assumes ok: "fs_ok fs" and s: "kernel_path s" and space: "space_ok fs n"
  shows "served D (with_code (do_unlink env s)) fs"
  unfolding do_unlink_def
  by (intro served_catch_tail safe_current [OF ok s] safe_then_ret safe_remove_by_path [OF ok space]) auto

text \<open>
  \<open>do_mkdir\<close> and \<open>do_rmdir\<close> split the path before they look for the snapshot prefix.
\<close>

lemma kernel_pop:
  assumes "kernel_path s"
  obtains (root) "path_pop_end (new_path_t s) = Inr ([], [])" and "s = ''/''"
    | (volume) v where "path_pop_end (new_path_t s) = Inr (v, ['''', ''.snapshot''])" and "v \<noteq> []" and "v \<noteq> FILESYSTEM_CUR_MODIFIABLE_VER"
        and "components s = [''.snapshot'', v]"
    | (readonly) x p where "path_pop_end (new_path_t s) = Inr (x, '''' # p)" and "x \<noteq> []" and "length p \<noteq> 1 \<or> p \<noteq> [''.snapshot'']"
        and "\<And>D fs m. fs_ok fs \<Longrightarrow> safe D (check_rdonly_fs s m) fs"
    | (plain) p x where "path_pop_end (new_path_t s) = Inr (x, '''' # p)" and "x \<noteq> []" and "\<not> under_snapshot_entry ('''' # p)"
        and "s = path_to_string (p @ [x])" and "plain_path (p @ [x])" and "storable_name x"
  using assms
proof (cases rule: kernel_path_cases)
  case root
  then show thesis using that(1) root_pop by simp
next
  case entry
  have "path_pop_end (new_path_t s) = Inr (''.snapshot'', [''''])" using entry(2) by (simp add: new_path_t_eq components_eq path_pop_end_def)
  moreover have "safe D (check_rdonly_fs s m) fs" if "fs_ok fs" for D fs and m :: "int smi_exec"
    using that entry(1) by (intro safe_rdonly) auto
  ultimately show thesis by (intro that(3) [of "''.snapshot''" "[]"]) simp_all
next
  case (version v r)
  have c: "components s = ''.snapshot'' # v # r" using version(3,4) components_path_to_string [of "''.snapshot'' # v # r"] by simp
  show thesis
  proof (cases "r = []")
    case True
    then show thesis using that(2) [of v] version c by (auto simp: new_path_t_eq path_pop_end_def component_def)
  next
    case False
    have "last r \<noteq> []" using version(4) False by (auto simp: component_def)
    moreover have "safe D (check_rdonly_fs s m) fs" if "fs_ok fs" for D fs and m :: "int smi_exec"
      using that version(1,2) by (intro safe_rdonly) auto
    ultimately show thesis using that(3) [of "last r" "''.snapshot'' # v # butlast r"] c False by (simp add: new_path_t_eq path_pop_end_def)
  qed
next
  case (plain p x)
  then show thesis using that(4) [of x p] plain_parent_nonempty [OF plain(2)] under_snapshot_plain [OF plain(2)] by blast
qed

lemma served_mkdir:
  assumes ok: "fs_ok fs" and s: "kernel_path s" and space: "space_ok fs n"
  shows "served D (with_code (do_mkdir env s mode)) fs"
  unfolding do_mkdir_def
proof (rule served_catch_tail)
  show "safe D (bindx (liftx (path_pop_end (new_path_t s))) (\<lambda>(target_name, vpath).
        if target_name = [] then throw (HTMPFS_error_t HTMPFS_INVALID_DENTRY_NAME)
        else if under_snapshot_entry vpath then bindx (create_snapshot_volume target_name) (\<lambda>_. ret 0)
        else check_rdonly_fs s
          (bindx (get_inode_id_by_path (path_to_string vpath)) (\<lambda>parent_id.
           bindx (make_child_dentry_under_parent parent_id target_name True) (\<lambda>child_id.
           bindx (get_inode_by_id child_id) (\<lambda>k.
           bindx (on_stat k (\<lambda>s. s\<lparr>st_size := 0, st_ctim := clock env 0, st_atim := clock env 1,
             st_mtim := clock env 2, st_ino := FILESYSTEM_ROOT_INODE_NUMBER, st_mode := mode OR S_IFDIR,
             st_nlink := 1\<rparr>)) (\<lambda>_. ret 0))))))) fs"
    using s
  proof (cases rule: kernel_pop)
    case root
    then show ?thesis by (intro safe_lift [OF ok]) (auto intro!: on_files.runs_throw ok)
  next
    case (volume v)
    then show ?thesis
      by (intro safe_lift [OF ok])
         (auto simp: under_snapshot_entry_def SNAPSHOT_ENTRY_def intro!: safe_then_ret safe_create_snapshot [OF ok space])
  next
    case (readonly x p)
    then have "\<not> under_snapshot_entry ('''' # p)"
      by (auto simp: under_snapshot_entry_def SNAPSHOT_ENTRY_def length_Suc_conv split: if_splits)
    then show ?thesis using readonly(1-3) by (intro safe_lift [OF ok]) (auto intro!: readonly(4) ok)
  next
    case (plain p x)
    then show ?thesis
      by (intro safe_lift [OF ok])
         (auto intro!: safe_rdonly safe_get_id safe_new_node [OF ok _ _ space] ok)
  qed
qed

lemma served_rmdir:
  assumes ok: "fs_ok fs" and s: "kernel_path s" and space: "space_ok fs n"
    and D: "\<And>v. components s = [''.snapshot'', v] \<Longrightarrow> v \<in> D"
  shows "served D (with_code (do_rmdir env s)) fs"
  unfolding do_rmdir_def
proof (rule served_catch_tail)
  show "safe D (bindx (liftx (path_pop_end (new_path_t s))) (\<lambda>(target_name, vpath).
        if target_name = [] then throw (HTMPFS_error_t HTMPFS_INVALID_DENTRY_NAME)
        else if target_name = SNAPSHOT_ENTRY then ret (- int EROFS)
        else if under_snapshot_entry vpath then bindx (delete_snapshot_volume target_name) (\<lambda>_. ret 0)
        else check_rdonly_fs s (bindx (remove_inode_by_path s) (\<lambda>_. ret 0)))) fs"
    using s
  proof (cases rule: kernel_pop)
    case root
    then show ?thesis by (intro safe_lift [OF ok]) (auto intro!: on_files.runs_throw ok)
  next
    case (volume v)
    then show ?thesis
      using D [OF volume(4)]
      by (intro safe_lift [OF ok])
         (auto simp: under_snapshot_entry_def SNAPSHOT_ENTRY_def intro!: safe_then_ret safe_delete_snapshot [OF ok space] on_files.runs_ret ok)
  next
    case (readonly x p)
    then have "\<not> under_snapshot_entry ('''' # p)"
      by (auto simp: under_snapshot_entry_def SNAPSHOT_ENTRY_def length_Suc_conv split: if_splits)
    then show ?thesis using readonly(1-3) by (intro safe_lift [OF ok]) (auto intro!: readonly(4) on_files.runs_ret ok)
  next
    case (plain p x)
    then show ?thesis
      by (intro safe_lift [OF ok])
         (auto intro!: safe_rdonly safe_then_ret safe_remove_by_path [OF ok space] ok on_files.runs_ret)
  qed
qed

end
