(* ===== verification/Fuse_Contents.thy ===== *)
theory Fuse_Contents
  imports Fuse_Writers
begin

text \<open>
  The handlers that change the contents of files, and symbolic links: each is safe, whether
  it succeeds or not.
\<close>

section \<open>Files\<close>

lemma kept_file:
  assumes "fs_ok fs'" and "fs_data fs' = (fs_data fs)(k := (fs_data fs k)(FILESYSTEM_CUR_MODIFIABLE_VER \<mapsto> c))"
    and "kind fs' = kind fs" and "version_inodes fs' = version_inodes fs"
  shows "kept D fs fs'"
  using assms by (simp add: kept_def version_kept_def)

lemma space_put_stat [simp]: "space_ok (put_stat k f fs) n = space_ok fs n"
  by (simp add: space_ok_def counters_ok_def)

lemma write_to_directory:
  assumes "kind fs k = Some True"
  shows "on_inode k (inode_write src sz offset b False) fs = (Inl (HTMPFS_error_t HTMPFS_INVALID_WRITE_INVOKE), fs)"
proof -
  obtain i where i: "inode_of fs k = Some i" "is_dentry i" using assms by (auto simp: kind_Some)
  show ?thesis by (rule on_inode_pure [OF i(1)]) (simp add: inode_write_def bindx_app getx_app throw_app i(2))
qed

lemma write_nothing:
  assumes "kind fs k = Some False"
  shows "on_inode k (inode_write src 0 offset b False) fs = (Inr 0, fs)"
proof -
  obtain i where i: "inode_of fs k = Some i" "\<not> is_dentry i" using assms by (auto simp: kind_Some)
  show ?thesis by (rule on_inode_pure [OF i(1)]) (simp add: inode_write_def bindx_app getx_app ret_app i(2))
qed

lemma safe_write:
  assumes ok: "fs_ok fs" and k: "inode_of fs k \<noteq> None" and c: "fs_data fs k FILESYSTEM_CUR_MODIFIABLE_VER = Some c"
    and sz: "length src = sz" and nw: "offset + sz < 2 ^ 64" and space: "space_ok fs (offset + sz)"
  shows "safe D (on_inode k (inode_write src sz offset (add64 offset sz > length c) False)) fs"
proof -
  consider (dir) "kind fs k = Some True" | (empty) "kind fs k = Some False" "sz = 0" | (regular) "kind fs k = Some False" "src \<noteq> []"
    using dir_or_file [OF k] sz by force
  then show ?thesis
  proof cases
    case dir
    show ?thesis using ok write_to_directory [OF dir] by (intro on_files.runs_pure [where m = "on_inode k _"]) auto
  next
    case empty
    show ?thesis
      using ok write_nothing [OF empty(1)] unfolding empty(2) by (intro on_files.runs_pure [where m = "on_inode k _"]) auto
  next
    case regular
    have room: "write_room fs c (offset + length src)"
      using space_file [OF ok space] space c sz unfolding write_room_def space_ok_def by auto
    from write_choice [OF ok regular(1) c regular(2) _ room] nw sz obtain fs' where
      "on_inode k (inode_write src sz offset (add64 offset sz > length c) False) fs = (Inr (length src), fs')" and "fs_ok fs'"
      "fs_data fs' = (fs_data fs)(k := (fs_data fs k)(FILESYSTEM_CUR_MODIFIABLE_VER \<mapsto> pwrite offset src c))"
      "kind fs' = kind fs" "version_inodes fs' = version_inodes fs" by auto
    then show ?thesis using kept_file by (intro runsI) auto
  qed
qed

lemma served_write:
  assumes ok: "fs_ok fs" and src: "length src = sz" and off: "0 \<le> offset" "offset < 2 ^ 63" and space: "space_ok fs (nat offset + sz)"
  shows "served D (with_code (do_write env path src sz offset)) fs"
  unfolding do_write_def
proof (intro served_catch_tail safe_rdonly [OF ok] safe_by_path [OF ok])
  fix q k
  assume k: "inode_of fs k \<noteq> None"
  then obtain c where c: "fs_data fs k FILESYSTEM_CUR_MODIFIABLE_VER = Some c" using current_data [OF ok] by blast
  let ?fs = "put_stat k (\<lambda>s. s\<lparr>st_mtim := clock env 0\<rparr>) fs"
  have nw: "nat offset + sz < 2 ^ 64" using space by (simp add: space_ok_def)
  have "safe D (on_inode k (inode_write src sz (nat offset) (add64 (nat offset) sz > length c) False)) ?fs"
    using k c space by (intro safe_write [OF put_stat_ok [OF ok] _ _ src nw]) (simp_all add: inode_of_put_stat)
  then have "safe D (bindx (on_inode k (inode_write src sz (nat offset) (add64 (nat offset) sz > length c) False)) (\<lambda>n. ret (to_int32 n))) ?fs"
    by (rule on_files.runs_bind) (rule on_files.runs_ret)
  then show "safe D (bindx (on_inode k (current_data_size FILESYSTEM_CUR_MODIFIABLE_VER)) (\<lambda>current_data_sz.
        bindx (on_stat k (\<lambda>s. s\<lparr>st_mtim := clock env 0\<rparr>)) (\<lambda>_.
        let if_resize = (add64 (of_off_t offset) sz > current_data_sz) in
        bindx (on_inode k (inode_write src sz (of_off_t offset) if_resize False)) (\<lambda>n.
        ret (to_int32 n))))) fs"
    using data_size_fs_eq [OF ok c] ok k
    by (intro on_files.runs_bind_pure [where m = "on_inode k (current_data_size FILESYSTEM_CUR_MODIFIABLE_VER)"] safe_on_stat)
       (auto simp: of_off_t_nonneg [OF off])
qed

lemma safe_truncate:
  assumes ok: "fs_ok fs" and k: "kind fs k = Some False" and room: "file_room fs n"
  shows "safe D (on_inode k (inode_truncate n)) fs"
proof -
  have "inode_of fs k \<noteq> None" using k by (auto simp: kind_Some)
  then obtain c where c: "fs_data fs k FILESYSTEM_CUR_MODIFIABLE_VER = Some c" using current_data [OF ok] by blast
  from truncate_fs_ok [OF ok k c room] obtain fs' where "on_inode k (inode_truncate n) fs = (Inr (), fs')" and
      "fs_ok fs'" "fs_data fs' = (fs_data fs)(k := (fs_data fs k)(FILESYSTEM_CUR_MODIFIABLE_VER \<mapsto> resized n c))"
      "kind fs' = kind fs" "version_inodes fs' = version_inodes fs" by blast
  then show ?thesis using kept_file by (intro runsI) auto
qed

lemma file_room_put_stat [simp]: "file_room (put_stat k f fs) n = file_room fs n"
  by (simp add: file_room_def)

lemma served_fallocate:
  assumes ok: "fs_ok fs" and int: "0 \<le> offset" "0 \<le> len" and space: "space_ok fs (nat (offset + len))"
    and is_file: "\<And>k. locate fs path = Inr k \<Longrightarrow> kind fs k = Some False"
  shows "served D (with_code (do_fallocate env path mode offset len)) fs"
  unfolding do_fallocate_def
proof (intro served_catch_tail safe_rdonly [OF ok] safe_by_path [OF ok])
  fix q k
  assume k: "locate fs path = Inr k" "inode_of fs k \<noteq> None"
  have n: "offset + len < 2 ^ 63" using space int by (simp add: space_ok_def nat_less_iff)
  have sum: "add_off_t offset len = Inr (offset + len)" using int n by (simp add: add_off_t_def)
  have nn: "of_off_t (offset + len) = nat (offset + len)" using int n by (intro of_off_t_nonneg) simp_all
  have room: "file_room fs (of_off_t (offset + len))" using space_file [OF ok space] by (simp only: nn)
  show "safe D (let cur_time = clock env 0 in
        bindx (on_stat k (\<lambda>s. s\<lparr>st_mode := mode OR S_IFREG, st_nlink := 1, st_ctim := cur_time\<rparr>)) (\<lambda>_.
        bindx (liftx (add_off_t offset len)) (\<lambda>n.
        bindx (on_stat k (\<lambda>s. s\<lparr>st_size := n\<rparr>)) (\<lambda>_.
        bindx (on_inode k (inode_truncate (of_off_t n))) (\<lambda>_. ret 0))))) fs"
    unfolding Let_def
    using k room is_file [OF k(1)]
    by (intro safe_on_stat [OF ok k(2)] safe_lift [OF _ sum] safe_on_stat safe_then_ret safe_truncate put_stat_ok ok)
       (simp_all add: inode_of_put_stat)
qed

section \<open>Files made on the way\<close>

lemma made_file_tree:
  assumes ok: "fs_ok fs" and g: "op_ok fs (Make p name False)" and e: "entries fs FILESYSTEM_CUR_MODIFIABLE_VER p = Some path"
    and space: "space_ok fs n"
  shows "\<exists>k fs1. make_child_dentry_under_parent p name False fs = (Inr k, fs1) \<and> kept D fs fs1 \<and> fs_ok fs1
     \<and> kind fs1 k = Some False \<and> inode_of fs1 k \<noteq> None \<and> file_room fs1 n \<and> fs_data fs1 k FILESYSTEM_CUR_MODIFIABLE_VER = Some []
     \<and> inode_of fs k = None \<and> kind fs1 = (kind fs)(k \<mapsto> False)
     \<and> child fs1 = (child fs)(FILESYSTEM_CUR_MODIFIABLE_VER := (child fs FILESYSTEM_CUR_MODIFIABLE_VER)
         (p := (child fs FILESYSTEM_CUR_MODIFIABLE_VER p)(name \<mapsto> k)))
     \<and> (\<forall>m v. m \<noteq> k \<and> (m \<noteq> p \<or> v \<noteq> FILESYSTEM_CUR_MODIFIABLE_VER) \<longrightarrow> fs_data fs1 m v = fs_data fs m v)
     \<and> (\<forall>v. v \<noteq> FILESYSTEM_CUR_MODIFIABLE_VER \<longrightarrow> version_inodes fs1 v = version_inodes fs v)"
proof -
  have a: "valid_name name" "dir_map path name = None" "dir_room fs (Suc (length path))" "length (inode_pool fs) < inode_pool_max_size"
    using g e by (auto split: option.splits)
  have free: "child fs FILESYSTEM_CUR_MODIFIABLE_VER p name = None" using e a(2) by (simp add: child_def)
  obtain ks where cur: "version_inodes fs FILESYSTEM_CUR_MODIFIABLE_VER = Some ks" using ok by (rule current_list)
  obtain k fs1 where run: "make_child_dentry_under_parent p name False fs = (Inr k, fs1)"
    and ko: "inode_of fs k = None" and ok1: "fs_ok fs1"
    and ch: "child fs1 = (child fs)(FILESYSTEM_CUR_MODIFIABLE_VER := (child fs FILESYSTEM_CUR_MODIFIABLE_VER)
         (p := (child fs FILESYSTEM_CUR_MODIFIABLE_VER p)(name \<mapsto> k)))"
    and dk: "fs_data fs1 k = [FILESYSTEM_CUR_MODIFIABLE_VER \<mapsto> []]"
    and dm: "\<forall>m v. m \<noteq> k \<and> (m \<noteq> p \<or> v \<noteq> FILESYSTEM_CUR_MODIFIABLE_VER) \<longrightarrow> fs_data fs1 m v = fs_data fs m v"
    and kd: "kind fs1 = (kind fs)(k \<mapsto> False)"
    and vi: "version_inodes fs1 = (version_inodes fs)(FILESYSTEM_CUR_MODIFIABLE_VER \<mapsto> ks @ [k])"
    and bs: "smi_block_size fs1 = smi_block_size fs"
    and len: "length (buffer_pool fs1) \<le> length (buffer_pool fs) + 2 * block_count (8 + 136 * Suc (length path)) (smi_block_size fs)"
    using make_child_fs_ok [OF ok e a(1) free a(3,4) cur, of False] by blast
  have "kept D fs fs1" by (rule kept_make_node [OF ok ok1 ko dm kd]) (simp add: vi)
  moreover have "file_room fs1 n"
  proof -
    have "length (buffer_pool fs) + 6 * block_count (8 + 136 * Suc (length path)) (smi_block_size fs)
          + 2 * block_count n (smi_block_size fs) \<le> buffer_pool_max_size"
      using space e unfolding space_ok_def by blast
    moreover have "n + smi_block_size fs < 2 ^ 64" using space_file [OF ok space] by (simp add: file_room_def)
    ultimately show ?thesis using len by (simp add: file_room_def bs)
  qed
  moreover have "kind fs1 k = Some False" using kd by simp
  moreover from this have "inode_of fs1 k \<noteq> None" by (auto simp: kind_Some)
  ultimately show ?thesis using run ok1 dk ko kd ch dm vi by (intro exI [of _ k] exI [of _ fs1]) simp
qed

lemma made_file:
  assumes ok: "fs_ok fs" and g: "op_ok fs (Make p name False)" and e: "entries fs FILESYSTEM_CUR_MODIFIABLE_VER p = Some path"
    and space: "space_ok fs n"
  obtains k fs1 where "make_child_dentry_under_parent p name False fs = (Inr k, fs1)" and "kept D fs fs1"
    and "fs_ok fs1" and "kind fs1 k = Some False" and "inode_of fs1 k \<noteq> None" and "file_room fs1 n"
    and "fs_data fs1 k FILESYSTEM_CUR_MODIFIABLE_VER = Some []"
  using that made_file_tree [OF ok g e space, of D] by blast

text \<open>A child is made, its attributes are set, and something is done to it.\<close>

lemma safe_made_file:
  assumes ok: "fs_ok fs" and k: "inode_of fs p \<noteq> None" and name: "storable_name name" and space: "space_ok fs n"
    and rest: "\<And>k fs1. fs_ok fs1 \<Longrightarrow> kind fs1 k = Some False \<Longrightarrow> file_room fs1 n
      \<Longrightarrow> fs_data fs1 k FILESYSTEM_CUR_MODIFIABLE_VER = Some [] \<Longrightarrow> safe D (g k) fs1"
  shows "safe D (bindx (make_child_dentry_under_parent p name False) (\<lambda>i.
      bindx (get_inode_by_id i) (\<lambda>k. bindx (on_stat k f) (\<lambda>_. g k)))) fs"
proof (rule make_child_any [OF ok k name space, of False])
  fix c
  assume r: "make_child_dentry_under_parent p name False fs = (Inl (HTMPFS_error_t c), fs)"
  show ?thesis using ok by (intro on_files.runs_bind_pure [where m = "make_child_dentry_under_parent p name False", OF ok r]) auto
next
  fix path
  assume g: "op_ok fs (Make p name False)" and e: "entries fs FILESYSTEM_CUR_MODIFIABLE_VER p = Some path"
  obtain k fs1 where run: "make_child_dentry_under_parent p name False fs = (Inr k, fs1)" "kept D fs fs1"
    and ok1: "fs_ok fs1" and k1: "kind fs1 k = Some False" "inode_of fs1 k \<noteq> None" "file_room fs1 n"
      "fs_data fs1 k FILESYSTEM_CUR_MODIFIABLE_VER = Some []"
    by (rule made_file [OF ok g e space])
  have "safe D (g k) (put_stat k f fs1)" using k1 by (intro rest put_stat_ok ok1) simp_all
  then show ?thesis
    by (intro on_files.runs_bind_step [where m = "make_child_dentry_under_parent p name False", OF run]
        safe_get_inode [OF ok1 k1(2)] safe_on_stat [OF ok1 k1(2)])
qed

lemma safe_link:
  assumes "fs_ok fs" and "kind fs k = Some False" and "file_room fs (length t)"
    and "fs_data fs k FILESYSTEM_CUR_MODIFIABLE_VER = Some []" and "t \<noteq> []"
  shows "safe D (bindx (on_inode k (inode_write t (length t) 0 True False)) (\<lambda>_. ret 0)) fs"
proof -
  have "0 < length t" using assms(5) by simp
  with write_resize_fs_ok [OF assms(1,2,4), of 0 "length t" t] assms(3) obtain fs' where
    "on_inode k (inode_write t (length t) 0 True False) fs = (Inr (length t), fs')" and "fs_ok fs'"
    "fs_data fs' = (fs_data fs)(k := (fs_data fs k)(FILESYSTEM_CUR_MODIFIABLE_VER \<mapsto> resized 0 [] @ take (length t) t))"
    "kind fs' = kind fs" "version_inodes fs' = version_inodes fs" by auto
  then have "safe D (on_inode k (inode_write t (length t) 0 True False)) fs"
    using kept_file by (intro runsI) auto
  then show ?thesis by (rule safe_then_ret)
qed

lemma served_symlink:
  assumes ok: "fs_ok fs" and s: "kernel_path target" and space: "space_ok fs (length target)"
  shows "served D (with_code (do_symlink env path target)) fs"
proof -
  have ne: "target \<noteq> []" using s by (auto simp: kernel_path_def)
  show ?thesis
    unfolding do_symlink_def
    by (rule served_catch_tail, rule safe_rdonly [OF ok], rule safe_at_parent [OF ok s], insert ne space)
       (auto intro!: safe_get_id safe_made_file [OF ok] safe_link on_files.runs_throw ok)
qed

text \<open>
  \<open>do_truncate\<close> on a path that names a file, or nothing in an existing place: with any other
  error of the lookup, an uninitialised pointer is used.
\<close>

definition truncate_target :: "inode_smi_t \<Rightarrow> string \<Rightarrow> bool" where
  "truncate_target fs path \<longleftrightarrow> (case locate fs path of
     Inr k \<Rightarrow> kind fs k = Some False | Inl e \<Rightarrow> e = HTMPFS_error_t HTMPFS_NO_SUCH_FILE_OR_DIR)"

lemma inode_to_truncate_found:
  assumes "fs_ok fs" and "locate fs path = Inr k"
  shows "inode_to_truncate env path sz fs = (Inr (Some k), fs)"
  using assms by (simp add: inode_to_truncate_def catchx_app bindx_app inode_by_path_eq ret_app)

lemma inode_to_truncate_new:
  assumes ok: "fs_ok fs" and p: "plain_path (p @ [x])"
    and none: "locate fs (path_to_string (p @ [x])) = Inl (HTMPFS_error_t HTMPFS_NO_SUCH_FILE_OR_DIR)"
  shows "inode_to_truncate env (path_to_string (p @ [x])) sz fs
    = bindx (get_inode_id_by_path (path_to_string ('''' # p))) (\<lambda>ino.
      bindx (make_child_dentry_under_parent ino x False) (\<lambda>i.
      bindx (get_inode_by_id i) (\<lambda>k.
      bindx (on_stat k (\<lambda>s. s\<lparr>st_size := sz, st_nlink := 1, st_atim := clock env 0,
        st_ctim := clock env 0, st_mtim := clock env 0\<rparr>)) (\<lambda>_. ret (Some k))))) fs"
proof -
  let ?s = "path_to_string (p @ [x])"
  let ?lookup = "bindx (inode_by_path ?s) (\<lambda>k. ret (Some k))"
  have lookup: "?lookup fs = (Inl (HTMPFS_error_t HTMPFS_NO_SUCH_FILE_OR_DIR), fs)"
    using none by (simp add: bindx_app inode_by_path_eq [OF ok])
  have pop: "liftx (path_pop_end (new_path_t ?s)) fs = (Inr (x, '''' # p), fs)"
    using plain_parent_nonempty [OF p] by (simp add: liftx_app)
  show ?thesis
    unfolding inode_to_truncate_def catchx_InlI [where m = ?lookup, OF lookup]
    by (simp add: bindx_InrI [where m = "liftx (path_pop_end (new_path_t ?s))", OF pop] Let_def)
qed

lemma served_truncate:
  assumes ok: "fs_ok fs" and s: "kernel_path path" and int: "0 \<le> sz" and space: "space_ok fs (nat sz)"
    and target: "truncate_target fs path"
  shows "served D (with_code (do_truncate env path sz)) fs"
  unfolding do_truncate_def
proof (intro served_catch_tail safe_current [OF ok s])
  let ?cut = "\<lambda>k. bindx (on_inode k (inode_truncate (of_off_t sz))) (\<lambda>_. ret 0)"
  let ?rest = "\<lambda>found. case found of None \<Rightarrow> throw Undefined_behaviour | Some k \<Rightarrow> ?cut k"
  have nn: "of_off_t sz = nat sz" using int space by (intro of_off_t_nonneg) (simp_all add: space_ok_def nat_less_iff)
  have cut: "safe D (?cut k) fs1" if "fs_ok fs1" "kind fs1 k = Some False" "file_room fs1 (nat sz)" for fs1 k
    unfolding nn using that by (intro safe_then_ret safe_truncate)
  have found: "safe D (bindx (inode_to_truncate env path sz) ?rest) fs" if k: "locate fs path = Inr k" for k
  proof -
    have "safe D (?rest (Some k)) fs"
      using target k space_file [OF ok space] by (simp only: option.case, intro cut ok) (simp_all add: truncate_target_def)
    then show ?thesis
      by (rule on_files.runs_bind_step [where m = "inode_to_truncate env path sz" and x = "Some k",
            OF inode_to_truncate_found [OF ok k] kept_refl [OF ok]])
  qed
  show "safe D (bindx (inode_to_truncate env path sz) ?rest) fs" if "path = ''/''"
    using found [of FILESYSTEM_ROOT_INODE_NUMBER] that by (simp add: locate_def)
  show "safe D (bindx (inode_to_truncate env path sz) ?rest) fs"
    if p: "path = path_to_string (p @ [x])" "plain_path (p @ [x])" "storable_name x" for p x
  proof (cases "locate fs path")
    case (Inr k)
    then show ?thesis by (rule found)
  next
    case (Inl e)
    then have none: "locate fs path = Inl (HTMPFS_error_t HTMPFS_NO_SUCH_FILE_OR_DIR)"
      using target by (simp add: truncate_target_def)
    let ?new = "bindx (get_inode_id_by_path (path_to_string ('''' # p))) (\<lambda>ino.
      bindx (make_child_dentry_under_parent ino x False) (\<lambda>i.
      bindx (get_inode_by_id i) (\<lambda>k.
      bindx (on_stat k (\<lambda>s. s\<lparr>st_size := sz, st_nlink := 1, st_atim := clock env 0,
        st_ctim := clock env 0, st_mtim := clock env 0\<rparr>)) (\<lambda>_. ret (Some k)))))"
    have "inode_to_truncate env path sz fs = ?new fs"
      using inode_to_truncate_new [OF ok p(2)] none unfolding p(1) by blast
    then have "bindx (inode_to_truncate env path sz) ?rest fs = bindx ?new ?rest fs" by (rule bindx_cong_at)
    moreover have "safe D (bindx ?new ?rest) fs"
      unfolding bindx_assoc bindx_ret option.case
      by (rule safe_get_id [OF ok], rule safe_made_file [OF ok _ p(3) space], assumption, rule cut)
    ultimately show ?thesis by (rule runs_congI)
  qed
qed

end
