(* ===== verification/Fuse_Requests.thy ===== *)
theory Fuse_Requests
  imports Fuse_Contents
begin

text \<open>
  Every request of the kernel is safe: renaming, the table of handlers, and sequences of
  requests from the freshly mounted file system.
\<close>

section \<open>Renaming\<close>

text \<open>Where \<open>do_rename\<close> ends early, with nothing changed.\<close>

lemma rename_fails:
  assumes ok: "fs_ok fs" and p: "plain_path (p @ [n])" and q: "plain_path (q @ [m])"
  shows "resolve fs FILESYSTEM_CUR_MODIFIABLE_VER (p @ [n]) FILESYSTEM_ROOT_INODE_NUMBER = Inl e \<Longrightarrow>
      do_rename env (path_to_string (p @ [n])) (path_to_string (q @ [m])) fs = catch_tail env (throw e) fs"
    and "resolve fs FILESYSTEM_CUR_MODIFIABLE_VER (p @ [n]) FILESYSTEM_ROOT_INODE_NUMBER = Inr t \<Longrightarrow>
      resolve fs FILESYSTEM_CUR_MODIFIABLE_VER q FILESYSTEM_ROOT_INODE_NUMBER = Inl e \<Longrightarrow>
      do_rename env (path_to_string (p @ [n])) (path_to_string (q @ [m])) fs = catch_tail env (throw e) fs"
    and "resolve fs FILESYSTEM_CUR_MODIFIABLE_VER (p @ [n]) FILESYSTEM_ROOT_INODE_NUMBER = Inr t \<Longrightarrow>
      resolve fs FILESYSTEM_CUR_MODIFIABLE_VER q FILESYSTEM_ROOT_INODE_NUMBER = Inr d2 \<Longrightarrow> kind fs d2 = Some False \<Longrightarrow>
      do_rename env (path_to_string (p @ [n])) (path_to_string (q @ [m])) fs
        = catch_tail env (throw (HTMPFS_error_t HTMPFS_NOT_A_DIRECTORY)) fs"
    and "resolve fs FILESYSTEM_CUR_MODIFIABLE_VER (p @ [n]) FILESYSTEM_ROOT_INODE_NUMBER = Inr t \<Longrightarrow>
      resolve fs FILESYSTEM_CUR_MODIFIABLE_VER q FILESYSTEM_ROOT_INODE_NUMBER = Inr d2 \<Longrightarrow>
      entries fs FILESYSTEM_CUR_MODIFIABLE_VER d2 = Some path2 \<Longrightarrow> rename_add d2 path2 m t fs = (Inl e, fs) \<Longrightarrow>
      do_rename env (path_to_string (p @ [n])) (path_to_string (q @ [m])) fs = catch_tail env (throw e) fs"
proof -
  note start = do_rename_def plain_path_rules(3) [OF p] plain_path_rules(3) [OF q]
  have g1: "get_inode_id_by_path (path_to_string (p @ [n])) fs
      = (resolve fs FILESYSTEM_CUR_MODIFIABLE_VER (p @ [n]) FILESYSTEM_ROOT_INODE_NUMBER, fs)"
    by (simp add: plain_path_parent [OF ok p])
  have g2: "get_inode_id_by_path (path_to_string q) fs = (resolve fs FILESYSTEM_CUR_MODIFIABLE_VER q FILESYSTEM_ROOT_INODE_NUMBER, fs)"
    by (simp add: plain_path_parent [OF ok plain_pathD(2) [OF q]])
  note pops = plain_path_rules(1) [OF p] plain_path_rules(1) [OF q]
  show "do_rename env (path_to_string (p @ [n])) (path_to_string (q @ [m])) fs = catch_tail env (throw e) fs"
    if "resolve fs FILESYSTEM_CUR_MODIFIABLE_VER (p @ [n]) FILESYSTEM_ROOT_INODE_NUMBER = Inl e"
    unfolding start by (rule catch_tail_cong) (simp add: bindx_app g1 that throw_app)
  show "do_rename env (path_to_string (p @ [n])) (path_to_string (q @ [m])) fs = catch_tail env (throw e) fs"
    if "resolve fs FILESYSTEM_CUR_MODIFIABLE_VER (p @ [n]) FILESYSTEM_ROOT_INODE_NUMBER = Inr t"
      "resolve fs FILESYSTEM_CUR_MODIFIABLE_VER q FILESYSTEM_ROOT_INODE_NUMBER = Inl e"
    unfolding start by (rule catch_tail_cong) (simp add: bindx_app liftx_app g1 g2 pops that throw_app)
  have dir: "inode_of fs d2 \<noteq> None" if "resolve fs FILESYSTEM_CUR_MODIFIABLE_VER q FILESYSTEM_ROOT_INODE_NUMBER = Inr d2"
    using resolve_inode [OF ok that root_inode [OF ok]] .
  show "do_rename env (path_to_string (p @ [n])) (path_to_string (q @ [m])) fs
      = catch_tail env (throw (HTMPFS_error_t HTMPFS_NOT_A_DIRECTORY)) fs"
    if r: "resolve fs FILESYSTEM_CUR_MODIFIABLE_VER (p @ [n]) FILESYSTEM_ROOT_INODE_NUMBER = Inr t"
      "resolve fs FILESYSTEM_CUR_MODIFIABLE_VER q FILESYSTEM_ROOT_INODE_NUMBER = Inr d2" "kind fs d2 = Some False"
    unfolding start
    by (rule catch_tail_cong)
       (simp add: bindx_app liftx_app g1 g2 pops r(1,2) get_inode_by_id_eq [OF dir [OF r(2)]] open_file [OF r(3)] throw_app)
  show "do_rename env (path_to_string (p @ [n])) (path_to_string (q @ [m])) fs = catch_tail env (throw e) fs"
    if r: "resolve fs FILESYSTEM_CUR_MODIFIABLE_VER (p @ [n]) FILESYSTEM_ROOT_INODE_NUMBER = Inr t"
      "resolve fs FILESYSTEM_CUR_MODIFIABLE_VER q FILESYSTEM_ROOT_INODE_NUMBER = Inr d2"
      "entries fs FILESYSTEM_CUR_MODIFIABLE_VER d2 = Some path2" "rename_add d2 path2 m t fs = (Inl e, fs)"
    unfolding start
    by (rule catch_tail_cong)
       (simp add: bindx_app liftx_app g1 g2 pops r(1,2) get_inode_by_id_eq [OF dir [OF r(2)]]
          open_entries [OF fs_okD(1,4) [OF ok] r(3)] r(4) throw_app)
qed

lemma served_eq: "m fs = m' fs \<Longrightarrow> served D (with_code m') fs \<Longrightarrow> served D (with_code m) fs"
  by (simp add: served_by_def with_code_def bindx_app)

lemma served_throw:
  assumes "fs_ok fs" and "m fs = catch_tail env (throw e) fs" and "e \<noteq> Undefined_behaviour"
  shows "served D (with_code m) fs"
  by (rule served_eq [where m = m and m' = "catch_tail env (throw e)", OF assms(2)], rule served_catch_tail, rule on_files.runs_throw) (use assms(1,3) in auto)

lemma served_Inr: "m fs = (Inr r, fs') \<Longrightarrow> kept D fs fs' \<Longrightarrow> served D (with_code m) fs"
  by (auto simp: served_by_def with_code_def bindx_app ret_app)

text \<open>The versions other than the current one, after entries of the current one have moved.\<close>

lemma kept_rename:
  assumes "fs_ok fs" and "fs_ok fs'" and "\<forall>k v. v \<noteq> FILESYSTEM_CUR_MODIFIABLE_VER \<longrightarrow> fs_data fs' k v = fs_data fs k v"
    and "\<forall>v. v \<noteq> FILESYSTEM_CUR_MODIFIABLE_VER \<longrightarrow> version_inodes fs' v = version_inodes fs v"
    and "\<forall>k v. v \<noteq> FILESYSTEM_CUR_MODIFIABLE_VER \<and> v \<in> in_versions fs k \<longrightarrow> kind fs' k = kind fs k"
  shows "kept D fs fs'"
  using assms by (auto simp: kept_def version_kept_def)

lemma rename_room_two:
  assumes ok: "fs_ok fs" and space: "space_ok fs n" and e1: "entries fs FILESYSTEM_CUR_MODIFIABLE_VER d1 = Some path1"
    and e2: "entries fs FILESYSTEM_CUR_MODIFIABLE_VER d2 = Some path2"
  obtains N where "replace_room fs N" and "length path1 \<le> N" and "Suc (length path2) \<le> N"
  using that space_replace [OF ok space e1] space_replace [OF ok space e2]
  by (cases "length path1 \<le> length path2") force+

text \<open>
  An entry moves to a free name, in place of a file or an empty directory, or onto itself,
  which removes it.
\<close>

lemma rename_moves:
  assumes ok: "fs_ok fs" and p: "plain_path (p @ [n])" and q: "plain_path (q @ [m])"
    and d1: "resolve fs FILESYSTEM_CUR_MODIFIABLE_VER p FILESYSTEM_ROOT_INODE_NUMBER = Inr d1" and t: "child fs FILESYSTEM_CUR_MODIFIABLE_VER d1 n = Some t"
    and d2: "resolve fs FILESYSTEM_CUR_MODIFIABLE_VER q FILESYSTEM_ROOT_INODE_NUMBER = Inr d2" "kind fs d2 = Some True"
    and leaf: "\<And>t2. child fs FILESYSTEM_CUR_MODIFIABLE_VER d2 m = Some t2 \<Longrightarrow> removable fs t2"
    and m: "storable_name m" and space: "space_ok fs l"
  shows "\<exists>fs'. do_rename env (path_to_string (p @ [n])) (path_to_string (q @ [m])) fs = (Inr 0, fs') \<and> fs_ok fs'
     \<and> (\<forall>k x. child fs' FILESYSTEM_CUR_MODIFIABLE_VER k x = (if k = d1 \<and> x = n then None else if k = d2 \<and> x = m then Some t else child fs FILESYSTEM_CUR_MODIFIABLE_VER k x))
     \<and> (\<forall>k v. v \<noteq> FILESYSTEM_CUR_MODIFIABLE_VER \<longrightarrow> fs_data fs' k v = fs_data fs k v)
     \<and> (\<forall>k v. v \<noteq> FILESYSTEM_CUR_MODIFIABLE_VER \<and> v \<in> in_versions fs k \<longrightarrow> kind fs' k = kind fs k)
     \<and> (\<forall>v. v \<noteq> FILESYSTEM_CUR_MODIFIABLE_VER \<longrightarrow> version_inodes fs' v = version_inodes fs v)
     \<and> (\<forall>k. child fs FILESYSTEM_CUR_MODIFIABLE_VER d2 m \<noteq> Some k \<longrightarrow> kind fs' k = kind fs k \<and> (k \<noteq> d1 \<and> k \<noteq> d2 \<longrightarrow> fs_data fs' k = fs_data fs k))"
proof -
  obtain path1 where e1: "entries fs FILESYSTEM_CUR_MODIFIABLE_VER d1 = Some path1" using t by (auto simp: child_def split: option.splits)
  obtain path2 where e2: "entries fs FILESYSTEM_CUR_MODIFIABLE_VER d2 = Some path2" using d2(2) by (rule current_entries [OF ok])
  obtain ks where cur: "version_inodes fs FILESYSTEM_CUR_MODIFIABLE_VER = Some ks" using ok by (rule current_list)
  have vl: "length (snapshot_version_list fs) < 2 ^ 64" using space by (simp add: space_ok_def)
  obtain N where N: "replace_room fs N" "length path1 \<le> N" "Suc (length path2) \<le> N"
    by (rule rename_room_two [OF ok space e1 e2])
  show ?thesis
  proof (cases "child fs FILESYSTEM_CUR_MODIFIABLE_VER d2 m")
    case None
    from rename_ok [OF ok p q d1 t d2(1) e1 e2 None m replace_room_rename [OF N(1)] N(2,3), of env]
    show ?thesis by (rule ex_forward) (auto simp: None fun_eq_iff)
  next
    case (Some t2)
    note rm = leaf [OF Some]
    show ?thesis
    proof (cases "t2 = t")
      case False
      from rename_replace_ok [OF ok p q d1 t d2(1) e1 e2 Some False rm m N vl cur, of env]
      show ?thesis by (rule ex_forward) (simp add: Some)
    next
      case True
      have same: "d2 = d1" "m = n" using tree_okD(3) [OF fs_okD(3) [OF ok] t, of d2 m] Some True by auto
      have "Suc (length path1) \<le> N" using N(3) e1 e2 same by simp
      from rename_self_ok [OF ok p q [unfolded same] d2(1) [unfolded same] d1 t _ e1 m [unfolded same] N(1) this vl cur, of env]
        rm True
      have "\<exists>fs'. do_rename env (path_to_string (p @ [n])) (path_to_string (q @ [n])) fs = (Inr 0, fs') \<and> fs_ok fs'
         \<and> child fs' = (child fs)(FILESYSTEM_CUR_MODIFIABLE_VER := (child fs FILESYSTEM_CUR_MODIFIABLE_VER)(d1 := (child fs FILESYSTEM_CUR_MODIFIABLE_VER d1)(n := None)))
         \<and> (\<forall>k v. v \<noteq> FILESYSTEM_CUR_MODIFIABLE_VER \<longrightarrow> fs_data fs' k v = fs_data fs k v)
         \<and> kind fs' = (kind fs)(t := if in_versions fs t = {FILESYSTEM_CUR_MODIFIABLE_VER} then None else kind fs t)
         \<and> version_inodes fs' = (version_inodes fs)(FILESYSTEM_CUR_MODIFIABLE_VER \<mapsto> remove1 t ks)
         \<and> (\<forall>k. k \<noteq> d1 \<and> k \<noteq> t \<longrightarrow> fs_data fs' k = fs_data fs k)" by simp
      then show ?thesis unfolding same by (rule ex_forward) (use Some True same in simp)
    qed
  qed
qed

lemma rename_not_empty:
  assumes ok: "fs_ok fs" and p: "plain_path (p @ [n])" and q: "plain_path (q @ [m])"
    and t: "resolve fs FILESYSTEM_CUR_MODIFIABLE_VER (p @ [n]) FILESYSTEM_ROOT_INODE_NUMBER = Inr t"
    and d2: "resolve fs FILESYSTEM_CUR_MODIFIABLE_VER q FILESYSTEM_ROOT_INODE_NUMBER = Inr d2" "kind fs d2 = Some True"
    and t2: "child fs FILESYSTEM_CUR_MODIFIABLE_VER d2 m = Some t2" "\<not> removable fs t2"
  shows "do_rename env (path_to_string (p @ [n])) (path_to_string (q @ [m])) fs
    = catch_tail env (throw (HTMPFS_error_t HTMPFS_DIR_NOT_EMPTY)) fs"
proof -
  obtain path2 where e2: "entries fs FILESYSTEM_CUR_MODIFIABLE_VER d2 = Some path2" using d2(2) by (rule current_entries [OF ok])
  have "inode_of fs t2 \<noteq> None"
    using tree_okD(1) [OF fs_okD(3) [OF ok] t2(1)] in_versions_inode [OF fs_okD(2) [OF ok]] by blast
  then have "kind fs t2 = Some True" using t2(2) dir_or_file by (auto simp: removable_def)
  then obtain sub where sub: "entries fs FILESYSTEM_CUR_MODIFIABLE_VER t2 = Some sub" by (rule current_entries [OF ok])
  then have "sub \<noteq> []" using t2(2) by (auto simp: removable_def)
  note rm = remove_child_not_empty [OF ok t2(1) sub this]
  have "dir_map path2 m \<noteq> None" using t2(1) e2 by (simp add: child_def)
  then have "add_path path2 m t = Inl (HTMPFS_error_t HTMPFS_DOUBLE_MKPATHNAME)"
    using dir_map_None [of path2 m] by (simp add: add_path_def any_same_iff)
  then have "rename_add d2 path2 m t fs = (Inl (HTMPFS_error_t HTMPFS_DIR_NOT_EMPTY), fs)"
    using rm by (simp add: rename_add_def catchx_app bindx_app liftx_app)
  from rename_fails(4) [OF ok p q t d2(1) e2 this] show ?thesis .
qed

lemma served_rename_plain:
  assumes ok: "fs_ok fs" and p: "plain_path (p @ [n])" and q: "plain_path (q @ [m])" and m: "storable_name m"
    and space: "space_ok fs 0"
  shows "served D (with_code (do_rename env (path_to_string (p @ [n])) (path_to_string (q @ [m])))) fs"
proof (cases "resolve fs FILESYSTEM_CUR_MODIFIABLE_VER (p @ [n]) FILESYSTEM_ROOT_INODE_NUMBER")
  case (Inl e)
  then have "e \<noteq> Undefined_behaviour" using resolve_no_undefined [of fs _ "p @ [n]"] by auto
  with rename_fails(1) [OF ok p q Inl] show ?thesis by (rule served_throw [OF ok])
next
  case (Inr t)
  note rt = Inr
  obtain d1 where d1: "resolve fs FILESYSTEM_CUR_MODIFIABLE_VER p FILESYSTEM_ROOT_INODE_NUMBER = Inr d1"
    and t: "child fs FILESYSTEM_CUR_MODIFIABLE_VER d1 n = Some t" using rt by (rule resolve_snocE)
  show ?thesis
  proof (cases "resolve fs FILESYSTEM_CUR_MODIFIABLE_VER q FILESYSTEM_ROOT_INODE_NUMBER")
    case (Inl e)
    then have "e \<noteq> Undefined_behaviour" using resolve_no_undefined [of fs _ q] by auto
    with rename_fails(2) [OF ok p q rt Inl] show ?thesis by (rule served_throw [OF ok])
  next
    case (Inr d2)
    note d2 = Inr
    consider "kind fs d2 = Some False" | t2 where "kind fs d2 = Some True" "child fs FILESYSTEM_CUR_MODIFIABLE_VER d2 m = Some t2" "\<not> removable fs t2"
      | "kind fs d2 = Some True" "\<And>t2. child fs FILESYSTEM_CUR_MODIFIABLE_VER d2 m = Some t2 \<Longrightarrow> removable fs t2"
      using dir_or_file [OF resolve_inode [OF ok d2 root_inode [OF ok]]] by blast
    then show ?thesis
    proof cases
      case 1
      from rename_fails(3) [OF ok p q rt d2 this] show ?thesis by (rule served_throw [OF ok]) simp
    next
      case 2
      from rename_not_empty [OF ok p q rt d2 2] show ?thesis by (rule served_throw [OF ok]) simp
    next
      case 3
      from rename_moves [OF ok p q d1 t d2 3 m space, of env]
      obtain fs' where r: "do_rename env (path_to_string (p @ [n])) (path_to_string (q @ [m])) fs = (Inr 0, fs')"
        and k: "fs_ok fs'" "\<forall>k v. v \<noteq> FILESYSTEM_CUR_MODIFIABLE_VER \<longrightarrow> fs_data fs' k v = fs_data fs k v"
          "\<forall>k v. v \<noteq> FILESYSTEM_CUR_MODIFIABLE_VER \<and> v \<in> in_versions fs k \<longrightarrow> kind fs' k = kind fs k"
          "\<forall>v. v \<noteq> FILESYSTEM_CUR_MODIFIABLE_VER \<longrightarrow> version_inodes fs' v = version_inodes fs v" by blast
      from r kept_rename [OF ok k(1,2,4,3)] show ?thesis by (rule served_Inr)
    qed
  qed
qed

lemma safe_rename_root:
  assumes ok: "fs_ok fs" and p: "p = ''/'' \<or> (\<exists>x y. p = path_to_string (x @ [y]) \<and> plain_path (x @ [y]) \<and> q = ''/'')"
  shows "safe D (bindx (get_inode_id_by_path p) (\<lambda>ino. bindx (liftx (path_pop_end (new_path_t p))) (\<lambda>(original_name, original).
        if length original = 0 then throw (HTMPFS_error_t HTMPFS_INVALID_DENTRY_NAME)
        else bindx (liftx (path_pop_end (new_path_t q))) (\<lambda>(target_name, target).
        if length target = 0 then throw (HTMPFS_error_t HTMPFS_INVALID_DENTRY_NAME) else g ino original_name original target_name target)))) fs"
proof (rule safe_get_id [OF ok], cases "p = ''/''", goal_cases)
  case (1 k)
  show ?case unfolding 1(3) by (rule safe_lift [OF ok root_pop]) (simp add: on_files.runs_throw ok)
next
  case (2 k)
  then obtain x y where xy: "p = path_to_string (x @ [y])" "plain_path (x @ [y])" and q: "q = ''/''" using p by blast
  have pop: "path_pop_end (new_path_t p) = Inr (y, '''' # x)" using plain_parent_nonempty [OF xy(2)] xy(1) by simp
  have "safe D (bindx (liftx (path_pop_end (new_path_t q))) (\<lambda>(target_name, target).
        if length target = 0 then throw (HTMPFS_error_t HTMPFS_INVALID_DENTRY_NAME) else g k y ('''' # x) target_name target)) fs"
    unfolding q by (rule safe_lift [OF ok root_pop]) (simp add: on_files.runs_throw ok)
  then show ?case by (intro safe_lift [OF ok pop]) simp
qed

lemma served_rename:
  assumes ok: "fs_ok fs" and p: "kernel_path p" and q: "kernel_path q" and space: "space_ok fs 0"
  shows "served D (with_code (do_rename env p q)) fs"
proof (cases "(\<exists>x n. p = path_to_string (x @ [n]) \<and> plain_path (x @ [n])) \<and> (\<exists>y m. q = path_to_string (y @ [m]) \<and> plain_path (y @ [m]) \<and> storable_name m)")
  case True
  then show ?thesis using served_rename_plain [OF ok _ _ _ space] by blast
next
  case False
  show ?thesis
    unfolding do_rename_def
    by (intro served_catch_tail, rule safe_current [OF ok p]; rule safe_current [OF ok q]; rule safe_rename_root [OF ok])
       (use False in auto)
qed

section \<open>Every request\<close>

text \<open>How far a request can make a file grow.\<close>

fun amount :: "request \<Rightarrow> nat" where
  "amount (Req_write path src sz offset) = nat offset + sz"
| "amount (Req_truncate path sz) = nat sz"
| "amount (Req_ftruncate path sz) = nat sz"
| "amount (Req_fallocate path mode offset len) = nat (offset + len)"
| "amount (Req_symlink path target) = length target"
| "amount req = 0"

text \<open>
  What is asked of the arguments: what the kernel ensures before it calls FUSE, and none of the
  cases in which the handlers fail, which are names of 128 bytes, paths below
  \<open>/.snapshot/current\<close> and truncation through a file.
\<close>

fun request_ok :: "inode_smi_t \<Rightarrow> request \<Rightarrow> bool" where
  "request_ok fs (Req_readlink path sz) = (sz < 2 ^ 64)"
| "request_ok fs (Req_mknod path mode device) = kernel_path path"
| "request_ok fs (Req_mkdir path mode) = kernel_path path"
| "request_ok fs (Req_unlink path) = kernel_path path"
| "request_ok fs (Req_rmdir path) = kernel_path path"
| "request_ok fs (Req_symlink path target) = kernel_path target"
| "request_ok fs (Req_rename path name) = (kernel_path path \<and> kernel_path name)"
| "request_ok fs (Req_truncate path sz) = (kernel_path path \<and> 0 \<le> sz \<and> truncate_target fs path)"
| "request_ok fs (Req_read path sz offset) = (0 \<le> offset \<and> offset < 2 ^ 63 \<and> nat offset + sz < 2 ^ 64)"
| "request_ok fs (Req_write path src sz offset) = (length src = sz \<and> 0 \<le> offset \<and> offset < 2 ^ 63)"
| "request_ok fs (Req_create path mode) = kernel_path path"
| "request_ok fs (Req_ftruncate path sz) = (kernel_path path \<and> 0 \<le> sz \<and> truncate_target fs path)"
| "request_ok fs (Req_fallocate path mode offset len) = (0 \<le> offset \<and> 0 \<le> len \<and>
     (case locate fs path of Inl e \<Rightarrow> True | Inr k \<Rightarrow> kind fs k = Some False))"
| "request_ok fs req = True"

text \<open>The volume a request asks to delete.\<close>

fun deleted :: "request \<Rightarrow> string set" where
  "deleted (Req_rmdir path) = {v. components path = [''.snapshot'', v]}"
| "deleted req = {}"

lemma served_ret: "fs_ok fs \<Longrightarrow> served D (ret r) fs"
  by (auto simp: served_by_def kept_refl ret_app)

lemma request_is_served:
  assumes ok: "fs_ok fs" and g: "request_ok fs req" and space: "space_ok fs (amount req)"
  shows "served (deleted req) (fuse_ops env req) fs"
  using g space
proof (cases req)
  case (Req_getattr path stbuf)
  then show ?thesis using served_getattr [OF ok] by simp
next
  case (Req_fgetattr path stbuf)
  then show ?thesis using served_getattr [OF ok] by (simp add: do_fgetattr_def)
next
  case (Req_ftruncate path sz)
  then show ?thesis using served_truncate [OF ok] g space by (simp add: do_ftruncate_def)
next
  case (Req_fallocate path mode offset len)
  then have "kind fs k = Some False" if "locate fs path = Inr k" for k using g that by simp
  with Req_fallocate show ?thesis using g space by (auto intro: served_fallocate [OF ok])
next
  case (Req_rmdir path)
  then show ?thesis using served_rmdir [where n = 0, OF ok] g space by simp
qed (use served_readlink [OF ok] served_mknod [where n = 0, OF ok] served_mkdir [where n = 0, OF ok]
      served_unlink [where n = 0, OF ok] served_create [where n = 0, OF ok] served_symlink [OF ok] served_rename [OF ok]
      served_chmod [OF ok] served_chown [OF ok] served_utimens [OF ok] served_truncate [OF ok] served_open [OF ok]
      served_access [OF ok] served_read [OF ok] served_write [OF ok] served_readdir [OF ok] served_ret [OF ok]
      in \<open>simp_all\<close>)

section \<open>Sessions\<close>

text \<open>Requests served one after the other, each with its own clock and caller.\<close>

inductive session :: "inode_smi_t \<Rightarrow> (env \<times> request) list \<Rightarrow> reply list \<Rightarrow> inode_smi_t \<Rightarrow> bool" where
  session_Nil: "session fs [] [] fs"
| session_Cons: "request_ok fs req \<Longrightarrow> space_ok fs (amount req) \<Longrightarrow> fuse_ops env req fs = (Inr reply, fs1) \<Longrightarrow>
    session fs1 reqs replies fs2 \<Longrightarrow> session fs ((env, req) # reqs) (reply # replies) fs2"

inductive_cases session_ConsE: "session fs (r # reqs) replies fs'"
inductive_simps session_Nil_iff: "session fs [] replies fs'"

lemma request_kept:
  assumes "fs_ok fs" and "request_ok fs req" and "space_ok fs (amount req)" and "fuse_ops env req fs = (Inr reply, fs1)"
  shows "kept (deleted req) fs fs1"
  using request_is_served [OF assms(1-3), of env] assms(4) by (auto simp: served_by_def)

lemma kept_mono: "kept D fs fs' \<Longrightarrow> D \<subseteq> E \<Longrightarrow> kept E fs fs'"
  by (auto simp: kept_def)

lemma session_kept:
  "session fs reqs replies fs' \<Longrightarrow> fs_ok fs \<Longrightarrow> kept (\<Union>(env, req)\<in>set reqs. deleted req) fs fs'"
proof (induction rule: session.induct)
  case (session_Nil fs)
  then show ?case by (simp add: kept_refl)
next
  case (session_Cons fs req env reply fs1 reqs replies fs2)
  have "kept (deleted req) fs fs1" using session_Cons by (intro request_kept)
  moreover from this have "kept (\<Union>(env, req)\<in>set reqs. deleted req) fs1 fs2"
    using session_Cons.IH by (simp add: kept_ok)
  ultimately show ?case by (intro kept_trans [of _ fs fs1 fs2]) (auto elim: kept_mono)
qed

text \<open>Every next request is answered, so a session never gets stuck while there is room.\<close>

lemma session_snoc:
  "session fs reqs replies fs1 \<Longrightarrow> fs_ok fs \<Longrightarrow> request_ok fs1 req \<Longrightarrow> space_ok fs1 (amount req) \<Longrightarrow>
   \<exists>reply fs2. session fs (reqs @ [(env, req)]) (replies @ [reply]) fs2"
proof (induction rule: session.induct)
  case (session_Nil fs)
  then obtain reply fs2 where "fuse_ops env req fs = (Inr reply, fs2)"
    using request_is_served [of fs req env] by (auto simp: served_by_def)
  then show ?case using session_Nil session.session_Cons [OF _ _ _ session.session_Nil] by fastforce
next
  case (session_Cons fs r e reply fs1 reqs replies fs2)
  have "fs_ok fs1" using request_kept [OF session_Cons.prems(1) session_Cons.hyps(1-3)] by (rule kept_ok)
  then show ?case using session_Cons session.session_Cons [OF session_Cons.hyps(1-3)] by fastforce
qed

section \<open>Snapshots seen through the handlers\<close>

lemma version_root:
  assumes "fs_ok fs" and "resolve fs v p FILESYSTEM_ROOT_INODE_NUMBER = Inr k" and "p \<noteq> []" and "v \<noteq> FILESYSTEM_CUR_MODIFIABLE_VER"
  shows "v \<in> in_versions fs FILESYSTEM_ROOT_INODE_NUMBER"
proof -
  have "fs_data fs FILESYSTEM_ROOT_INODE_NUMBER v \<noteq> None"
    using assms(2,3) by (cases p) (auto split: option.splits bool.splits if_splits)
  then show ?thesis using versions_okD(5) [OF fs_okD(2) [OF assms(1)] root_inode [OF assms(1)] assms(4)] by blast
qed

lemma session_resolve:
  assumes ok: "fs_ok fs" and s: "session fs reqs replies fs'" and v: "v \<noteq> FILESYSTEM_CUR_MODIFIABLE_VER" "version_inodes fs v \<noteq> None"
    and D: "\<forall>(env, req)\<in>set reqs. v \<notin> deleted req"
    and r: "resolve fs v p FILESYSTEM_ROOT_INODE_NUMBER = Inr k" and p: "p \<noteq> []"
  shows "fs_ok fs'" and "version_inodes fs' v \<noteq> None" and "resolve fs' v p FILESYSTEM_ROOT_INODE_NUMBER = Inr k"
    and "fs_data fs' k v = fs_data fs k v" and "inode_of fs' k \<noteq> None"
proof -
  have k: "kept (\<Union>(env, req)\<in>set reqs. deleted req) fs fs'" using s ok by (rule session_kept)
  then show ok': "fs_ok fs'" by (rule kept_ok)
  have kv: "version_kept v fs fs'" using k v D unfolding kept_def by blast
  then show "version_inodes fs' v \<noteq> None" using v(2) by (simp add: version_kept_def)
  have root: "v \<in> in_versions fs FILESYSTEM_ROOT_INODE_NUMBER" using ok r p v(1) by (rule version_root)
  then show rs: "resolve fs' v p FILESYSTEM_ROOT_INODE_NUMBER = Inr k" using version_kept_resolve [OF ok kv] r by simp
  have "v \<in> in_versions fs k" using ok r root by (rule resolve_in_version)
  then show "fs_data fs' k v = fs_data fs k v" using kv by (simp add: version_kept_def)
  show "inode_of fs' k \<noteq> None" using resolve_inode [OF ok' rs root_inode [OF ok']] .
qed

text \<open>Reading a file through a volume, in the state after the session.\<close>

lemma session_read:
  assumes ok: "fs_ok fs" and s: "session fs reqs replies fs'" and v: "component v" "v \<noteq> FILESYSTEM_CUR_MODIFIABLE_VER" "version_inodes fs v \<noteq> None"
    and D: "\<forall>(env, req)\<in>set reqs. v \<notin> deleted req"
    and p: "\<forall>n\<in>set p. component n" "p \<noteq> []" and r: "resolve fs v p FILESYSTEM_ROOT_INODE_NUMBER = Inr k"
    and c: "fs_data fs k v = Some c" and int: "0 \<le> offset" "offset < 2 ^ 63" "nat offset + n < 2 ^ 64" "n < 2 ^ 31"
    and inside: "nat offset < length c"
  shows "fst (do_read env (make_path_with_version (path_to_string p) v) n offset fs')
     = Inr (int (min n (length c - nat offset)), take n (drop (nat offset) c))"
proof -
  note later = session_resolve [OF ok s v(2,3) D r p(2)]
  have l: "locate fs' (make_path_with_version (path_to_string p) v) = Inr k"
    using locate_version [OF v(1,2) p(1) later(2)] later(3) by simp
  have "fs_data fs' k v = Some c" using later(4) c by simp
  from do_read_ok [OF later(1) if_snapshot_with_version [OF v(1,2) p(1)] l this int disjI1 [OF inside], of env]
  show ?thesis by simp
qed

end
