(* ===== verification/Fuse_Effects.thy ===== *)
theory Fuse_Effects
  imports Fuse_Requests
begin

text \<open>
  What single handlers do to the file system: new files and links, the read-only snapshot
  paths, and the cases in which a handler misbehaves.
\<close>

section \<open>Snapshot paths are read-only\<close>

text \<open>
  The paths at which a request would change something, in the order of the checks: the object
  itself, or the entry that is made or removed. \<open>mkdir\<close> and \<open>rmdir\<close> of \<open>/.snapshot/v\<close> make and
  delete a volume.
\<close>

fun checked_paths :: "request \<Rightarrow> string list" where
  "checked_paths (Req_mknod path mode device) = [path]"
| "checked_paths (Req_mkdir path mode) = (if length (components path) = 2 then [] else [path])"
| "checked_paths (Req_unlink path) = [path]"
| "checked_paths (Req_rmdir path) = (if length (components path) = 2 then [] else [path])"
| "checked_paths (Req_symlink path target) = [path, target]"
| "checked_paths (Req_rename path name) = [path, name]"
| "checked_paths (Req_chmod path mode) = [path]"
| "checked_paths (Req_chown path uid gid) = [path]"
| "checked_paths (Req_truncate path sz) = [path]"
| "checked_paths (Req_write path src sz offset) = [path]"
| "checked_paths (Req_create path mode) = [path]"
| "checked_paths (Req_ftruncate path sz) = [path]"
| "checked_paths (Req_utimens path tv0 tv1) = [path]"
| "checked_paths (Req_fallocate path mode offset len) = [path]"
| "checked_paths req = []"

definition refusal :: "string \<Rightarrow> reply" where
  "refusal first = Code (- int (if components first = [''.snapshot''] then EINVAL else EROFS))"

lemma if_snapshot_entry: "if_snapshot path [] = Inr (v, q) \<Longrightarrow> v \<noteq> FILESYSTEM_CUR_MODIFIABLE_VER \<Longrightarrow>
    \<exists>r. components path = ''.snapshot'' # v # r"
  by (auto simp: if_snapshot_def new_path_t_eq split: if_splits list.splits)

lemma with_code_rdonly:
  assumes "if_snapshot path [] = Inr (v, q)" and "v \<noteq> FILESYSTEM_CUR_MODIFIABLE_VER"
  shows "with_code (catch_tail env (check_rdonly_fs path m)) fs = (Inr (refusal path), fs)"
  using check_rdonly_version [OF assms] if_snapshot_entry [OF assms]
  by (auto simp: with_code_def bindx_app ret_app refusal_def)

lemma with_code_rdonly_second:
  assumes "if_snapshot path [] = Inr (v, q)" and "v \<noteq> FILESYSTEM_CUR_MODIFIABLE_VER"
  shows "with_code (catch_tail env (check_rdonly_fs first (check_rdonly_fs path m))) fs = (Inr (refusal first), fs)"
proof (cases "if_snapshot first []")
  case (Inl e)
  then have e: "components first = [''.snapshot'']" "e = HTMPFS_error_t HTMPFS_INVALID_DENTRY_NAME"
    by (auto simp: if_snapshot_def new_path_t_eq split: if_splits list.splits)
  have "check_rdonly_fs first (check_rdonly_fs path m) fs = (Inl e, fs)"
    by (simp add: check_rdonly_fs_def bindx_app liftx_app Inl)
  then have "catch_tail env (check_rdonly_fs first (check_rdonly_fs path m)) fs = (Inr (- int EINVAL), fs)"
    using catch_tail_error [where m = "check_rdonly_fs first (check_rdonly_fs path m)"] e(2)
    by (simp add: errno_of_eq switch_cases_def)
  then show ?thesis using e(1) by (simp add: with_code_def bindx_app ret_app refusal_def)
next
  case (Inr x)
  obtain w q' where x: "x = (w, q')" by (cases x)
  show ?thesis
  proof (cases "w = FILESYSTEM_CUR_MODIFIABLE_VER")
    case True
    have "components first \<noteq> [''.snapshot'']"
      using if_snapshot_no_version [of first "[]"] Inr by auto
    then show ?thesis
      using with_code_rdonly [OF assms, of env m fs] if_snapshot_entry [OF assms] check_rdonly_current [of first q'] Inr x True
      by (auto simp: refusal_def)
  next
    case False
    then show ?thesis using with_code_rdonly [of first w q'] Inr x by simp
  qed
qed

lemma rdonly_directory:
  assumes p: "if_snapshot path [] = Inr (v, q)" "v \<noteq> FILESYSTEM_CUR_MODIFIABLE_VER" and l: "length (components path) \<noteq> 2"
  shows "with_code (do_mkdir env path mode) fs = (Inr (refusal path), fs)"
    and "with_code (do_rmdir env path) fs = (Inr (refusal path), fs)"
proof -
  have ne: "components path \<noteq> []" using if_snapshot_entry [OF p] by auto
  have u: "\<not> under_snapshot_entry ('''' # butlast (components path))" using ne l by (intro not_volume) simp_all
  note pop = entry_pop [OF ne] entry_name [OF ne] u
  have r: "refusal path = Code (- int EROFS)" using if_snapshot_entry [OF p] by (auto simp: refusal_def)
  have c: "catch_tail env m fs = (Inr (- int EROFS), fs)" if "m fs = check_rdonly_fs path m' fs" for m m'
    using check_rdonly_version [OF p, of env m' fs] that by (simp add: catch_tail_def catchx_app)
  show "with_code (do_mkdir env path mode) fs = (Inr (refusal path), fs)"
    unfolding do_mkdir_def with_code_def bindx_app
    by (subst c) (simp_all add: bindx_app liftx_app pop ret_app r)
  show "with_code (do_rmdir env path) fs = (Inr (refusal path), fs)"
  proof (cases "last (components path) = SNAPSHOT_ENTRY")
    case True
    then show ?thesis by (simp add: do_rmdir_def with_code_def bindx_app liftx_app pop ret_app catch_tail_def catchx_app r SNAPSHOT_ENTRY_def)
  next
    case False
    then show ?thesis
      unfolding do_rmdir_def with_code_def bindx_app
      by (subst c) (simp_all add: bindx_app liftx_app pop ret_app r)
  qed
qed

lemma request_rdonly:
  assumes "path \<in> set (checked_paths req)" and "if_snapshot path [] = Inr (v, q)" and "v \<noteq> FILESYSTEM_CUR_MODIFIABLE_VER"
  shows "fuse_ops env req fs = (Inr (refusal (hd (checked_paths req))), fs)"
  using assms(1)
  by (cases req) (auto simp: do_mknod_def do_unlink_def do_rename_def do_symlink_def do_chmod_def do_chown_def do_truncate_def
      do_write_def do_create_def do_ftruncate_def do_utimens_def do_fallocate_def rdonly_directory [OF assms(2,3)]
      with_code_rdonly [OF assms(2,3)] with_code_rdonly_second [OF assms(2,3)] split: if_splits)

section \<open>New files\<close>

text \<open>A created file is found under its path, empty, with the attributes that were asked for.\<close>

lemma create_getattr:
  assumes ok: "fs_ok fs" and p: "plain_path (p @ [n])"
    and d: "resolve fs FILESYSTEM_CUR_MODIFIABLE_VER p FILESYSTEM_ROOT_INODE_NUMBER = Inr d" and g: "op_ok fs (Make d n False)"
  shows "\<exists>k fs'. do_create env (path_to_string (p @ [n])) mode fs = (Inr 0, fs') \<and> fs_ok fs'
     \<and> resolve fs' FILESYSTEM_CUR_MODIFIABLE_VER (p @ [n]) FILESYSTEM_ROOT_INODE_NUMBER = Inr k
     \<and> fs_data fs' k FILESYSTEM_CUR_MODIFIABLE_VER = Some []
     \<and> do_getattr env' (path_to_string (p @ [n])) (fs', out)
       = (Inr 0, (fs', zero_stat\<lparr>st_ino := k, st_nlink := 1, st_mode := mode, st_uid := the_uid env, st_gid := the_gid env,
           st_size := 0, st_atim := clock env 0, st_mtim := clock env 0, st_ctim := clock env 0\<rparr>))"
proof -
  let ?f = "\<lambda>s. s\<lparr>st_mode := mode, st_nlink := 1, st_atim := clock env 0,
        st_ctim := clock env 0, st_mtim := clock env 0, st_gid := the_gid env, st_uid := the_uid env\<rparr>"
  obtain k fs' where r: "make_node d n False ?f fs = (Inr 0, fs')" and ino: "inode_of fs k = None" and ok': "fs_ok fs'"
    and ch: "child fs' = (child fs)(FILESYSTEM_CUR_MODIFIABLE_VER := (child fs FILESYSTEM_CUR_MODIFIABLE_VER)
         (d := (child fs FILESYSTEM_CUR_MODIFIABLE_VER d)(n \<mapsto> k)))"
    and kd: "kind fs' = (kind fs)(k \<mapsto> False)" and dk: "fs_data fs' k = [FILESYSTEM_CUR_MODIFIABLE_VER \<mapsto> []]"
    and st: "stat_of fs' = (stat_of fs)(k \<mapsto> ?f zero_stat)" and iv: "in_versions fs' k = {FILESYSTEM_CUR_MODIFIABLE_VER}"
    using make_node_ok [OF ok g, of ?f] by blast
  have run: "do_create env (path_to_string (p @ [n])) mode fs = (Inr 0, fs')"
    using do_create_eq [OF ok p d, of env mode] catch_tail_Inr [where m = "make_node d n False ?f", OF r] by simp
  obtain path where "entries fs FILESYSTEM_CUR_MODIFIABLE_VER d = Some path" "dir_map path n = None"
    using g by (auto split: option.splits)
  then have free: "child fs FILESYSTEM_CUR_MODIFIABLE_VER d n = None" by (simp add: child_def)
  have rs: "resolve fs' FILESYSTEM_CUR_MODIFIABLE_VER (p @ [n]) FILESYSTEM_ROOT_INODE_NUMBER = Inr k"
    by (rule make_node_visible [OF d free ino ok' ch kd])
  then have l: "locate fs' (path_to_string (p @ [n])) = Inr k" by (simp add: plain_path_locate [OF p])
  have c: "components (path_to_string (p @ [n])) = p @ [n]" using plain_pathD(1) [OF p] by (rule components_path_to_string)
  have ne: "path_to_string (p @ [n]) \<noteq> ''/'' @ SNAPSHOT_ENTRY"
  proof
    assume "path_to_string (p @ [n]) = ''/'' @ SNAPSHOT_ENTRY"
    then have "p @ [n] = [''.snapshot'']" using c by (simp add: SNAPSHOT_ENTRY_def components_eq)
    then show False using p by (simp add: plain_path_def)
  qed
  have "do_getattr env' (path_to_string (p @ [n])) (fs', out)
      = (Inr 0, (fs', (?f zero_stat)\<lparr>st_size := int (length ([] :: data_t)), st_nlink := card (in_versions fs' k), st_ino := k\<rparr>))"
    using do_getattr_ok [OF ok' ne plain_path_snoc [OF p] l, of "[]" "?f zero_stat" env' out] dk st by simp
  then show ?thesis using run ok' rs dk iv by (intro exI [of _ k] exI [of _ fs']) (simp add: zero_stat_def)
qed

text \<open>Bytes written at an offset of a file are read back.\<close>

lemma pwrite_read: "take (length src) (drop offset (pwrite offset src c)) = src"
  by (simp add: pwrite_def resized_def)

lemma write_read:
  assumes ok: "fs_ok fs" and p: "plain_path (p @ [n])"
    and r: "resolve fs FILESYSTEM_CUR_MODIFIABLE_VER (p @ [n]) FILESYSTEM_ROOT_INODE_NUMBER = Inr k" and k: "kind fs k = Some False"
    and c: "fs_data fs k FILESYSTEM_CUR_MODIFIABLE_VER = Some c" and src: "src \<noteq> []"
    and int: "0 \<le> offset" "offset < 2 ^ 63" "nat offset + length src < 2 ^ 64" "length src < 2 ^ 31"
    and room: "write_room fs c (nat offset + length src)"
  shows "\<exists>fs'. do_write env (path_to_string (p @ [n])) src (length src) offset fs = (Inr (int (length src)), fs') \<and> fs_ok fs'
     \<and> fs_data fs' k FILESYSTEM_CUR_MODIFIABLE_VER = Some (pwrite (nat offset) src c)
     \<and> (\<forall>m v. m \<noteq> k \<or> v \<noteq> FILESYSTEM_CUR_MODIFIABLE_VER \<longrightarrow> fs_data fs' m v = fs_data fs m v)
     \<and> fst (do_read env' (path_to_string (p @ [n])) (length src) offset fs') = Inr (int (length src), src)"
proof -
  have l: "locate fs (path_to_string (p @ [n])) = Inr k" using r by (simp add: plain_path_locate [OF p])
  obtain fs' where w: "do_write env (path_to_string (p @ [n])) src (length src) offset fs = (Inr (int (length src)), fs')" and ok': "fs_ok fs'"
    and d: "fs_data fs' = (fs_data fs)(k := (fs_data fs k)(FILESYSTEM_CUR_MODIFIABLE_VER \<mapsto> pwrite (nat offset) src c))"
    and same: "kind fs' = kind fs" "child fs' = child fs"
    using do_write_ok [OF ok plain_path_snoc [OF p] l k c src int room] by blast
  have "resolve fs' FILESYSTEM_CUR_MODIFIABLE_VER (p @ [n]) FILESYSTEM_ROOT_INODE_NUMBER = Inr k"
    using r by (rule resolve_mono [rotated 3]) (auto simp: same d)
  then have l': "locate fs' (path_to_string (p @ [n])) = Inr k" by (simp add: plain_path_locate [OF p])
  have d': "fs_data fs' k FILESYSTEM_CUR_MODIFIABLE_VER = Some (pwrite (nat offset) src c)" by (simp add: d)
  have len: "nat offset + length src \<le> length (pwrite (nat offset) src c)" by (simp add: pwrite_def resized_def)
  moreover have "0 < length src" using src by simp
  ultimately have "nat offset < length (pwrite (nat offset) src c)" by linarith
  from do_read_ok [OF ok' plain_path_snoc [OF p] l' d' int disjI1 [OF this], of env'] len
  have "fst (do_read env' (path_to_string (p @ [n])) (length src) offset fs') = Inr (int (length src), src)"
    by (simp add: pwrite_read min_absorb1)
  then show ?thesis using w ok' d' d by (intro exI [of _ fs']) auto
qed

section \<open>Symbolic links\<close>

text \<open>
  A new link holds its own path: the second argument of the handler is where the link is
  made, and it is what is written into it.
\<close>

lemma symlink_self:
  assumes ok: "fs_ok fs" and p: "plain_path (p @ [n])" and old: "if_snapshot content [] = Inr (FILESYSTEM_CUR_MODIFIABLE_VER, q)"
    and d: "resolve fs FILESYSTEM_CUR_MODIFIABLE_VER p FILESYSTEM_ROOT_INODE_NUMBER = Inr d" and g: "op_ok fs (Make d n False)"
    and space: "space_ok fs (length (path_to_string (p @ [n])))"
  shows "\<exists>k fs'. do_symlink env content (path_to_string (p @ [n])) fs = (Inr 0, fs') \<and> fs_ok fs'
     \<and> fs_data fs' k FILESYSTEM_CUR_MODIFIABLE_VER = Some (path_to_string (p @ [n]))
     \<and> child fs' FILESYSTEM_CUR_MODIFIABLE_VER d n = Some k"
proof -
  let ?t = "path_to_string (p @ [n])"
  obtain path where e: "entries fs FILESYSTEM_CUR_MODIFIABLE_VER d = Some path" and a: "valid_name n"
    "dir_map path n = None" "dir_room fs (Suc (length path))" "length (inode_pool fs) < inode_pool_max_size"
    using g by (auto split: option.splits)
  have free: "child fs FILESYSTEM_CUR_MODIFIABLE_VER d n = None" using e a(2) by (simp add: child_def)
  obtain ks where cur: "version_inodes fs FILESYSTEM_CUR_MODIFIABLE_VER = Some ks" using ok by (rule current_list)
  obtain k fs1 where run: "make_child_dentry_under_parent d n False fs = (Inr k, fs1)"
    and ok1: "fs_ok fs1"
    and ch: "child fs1 = (child fs)(FILESYSTEM_CUR_MODIFIABLE_VER := (child fs FILESYSTEM_CUR_MODIFIABLE_VER)
         (d := (child fs FILESYSTEM_CUR_MODIFIABLE_VER d)(n \<mapsto> k)))"
    and dk: "fs_data fs1 k = [FILESYSTEM_CUR_MODIFIABLE_VER \<mapsto> []]" and kd: "kind fs1 = (kind fs)(k \<mapsto> False)"
    using make_child_fs_ok [OF ok e a(1) free a(3,4) cur, of False] by blast
  obtain k2 fs2 where run2: "make_child_dentry_under_parent d n False fs = (Inr k2, fs2)" and "file_room fs2 (length ?t)"
    by (rule made_file [OF ok g e space, of "{}"])
  then have room1: "file_room fs1 (0 + length ?t)" using run by simp
  let ?f = "\<lambda>s. s\<lparr>st_mode := S_IFLNK OR mode_755, st_nlink := 1, st_atim := clock env 0,
          st_ctim := clock env 0, st_mtim := clock env 0, st_size := to_off_t (length ?t)\<rparr>"
  have kf: "kind fs1 k = Some False" using kd by simp
  then have k1: "kind (put_stat k ?f fs1) k = Some False" and ino1: "inode_of fs1 k \<noteq> None" by (auto simp: kind_Some)
  have c1: "fs_data (put_stat k ?f fs1) k FILESYSTEM_CUR_MODIFIABLE_VER = Some []" using dk by simp
  have "?t \<noteq> []" using path_to_string_slash [OF plain_pathD(1) [OF p]] by simp
  then have "0 < length ?t" by simp
  with write_resize_fs_ok [OF put_stat_ok [OF ok1] k1 c1, of 0 "length ?t" ?t] room1 obtain fs' where
    w: "on_inode k (inode_write ?t (length ?t) 0 True False) (put_stat k ?f fs1) = (Inr (length ?t), fs')" and ok': "fs_ok fs'"
    and d': "fs_data fs' = (fs_data fs1)(k := (fs_data fs1 k)(FILESYSTEM_CUR_MODIFIABLE_VER \<mapsto> resized 0 [] @ take (length ?t) ?t))"
    and ch': "child fs' = child fs1" by auto
  have "do_symlink env content ?t fs = (Inr 0, fs')"
    unfolding do_symlink_def check_rdonly_current [OF old] plain_path_rules(3) [OF p]
    by (rule catch_tail_Inr)
       (use d w in \<open>simp add: bindx_app liftx_app plain_path_rules(1) [OF p] component_not_Nil [OF p] plain_path_rules(2) [OF ok p]
          run get_inode_by_id_eq [OF ino1] on_stat_eq [OF ino1] ret_app\<close>)
  moreover have "fs_data fs' k FILESYSTEM_CUR_MODIFIABLE_VER = Some ?t" by (simp add: d' resized_def)
  ultimately show ?thesis using ok' ch ch' by (intro exI [of _ k] exI [of _ fs']) simp
qed

section \<open>Where handlers go wrong\<close>

text \<open>
  Truncating a path that leads through a file: the lookup fails with another error than the
  one expected, and the pointer that was to be set by it is used.
\<close>

lemma truncate_undefined:
  assumes ok: "fs_ok fs" and p: "plain_path (p @ [n])"
    and r: "resolve fs FILESYSTEM_CUR_MODIFIABLE_VER (p @ [n]) FILESYSTEM_ROOT_INODE_NUMBER = Inl (HTMPFS_error_t c)"
    and c: "c \<noteq> HTMPFS_NO_SUCH_FILE_OR_DIR"
  shows "do_truncate env (path_to_string (p @ [n])) sz fs = (Inl Undefined_behaviour, fs)"
proof -
  have "locate fs (path_to_string (p @ [n])) = Inl (HTMPFS_error_t c)" using r by (simp add: plain_path_locate [OF p])
  then show ?thesis
    unfolding do_truncate_def plain_path_rules(3) [OF p]
    by (intro catch_tail_undefined) (use c in \<open>simp add: inode_to_truncate_def bindx_app catchx_app inode_by_path_eq [OF ok] ret_app throw_app\<close>)
qed

text \<open>
  \<open>/.snapshot/current\<close> is the root of the current version and passes the check for read-only
  paths. Renaming it enters the root under a new name before the error is found.
\<close>

lemma current_prefix:
  "locate fs ''/.snapshot/current'' = Inr FILESYSTEM_ROOT_INODE_NUMBER"
  "if_snapshot ''/.snapshot/current'' [] = Inr (FILESYSTEM_CUR_MODIFIABLE_VER, [])"
  "path_pop_end (new_path_t ''/.snapshot/current'') = Inr (''current'', ['''', ''.snapshot''])"
  "locate fs (path_to_string ['''', ''.snapshot'']) = Inl (HTMPFS_error_t HTMPFS_INVALID_DENTRY_NAME)"
  by (simp_all add: locate_def components_eq if_snapshot_def new_path_t_eq path_pop_end_def FILESYSTEM_CUR_MODIFIABLE_VER_def)

lemma rename_current:
  assumes ok: "fs_ok fs" and q: "plain_path (p @ [n])" and n: "storable_name n"
    and d: "resolve fs FILESYSTEM_CUR_MODIFIABLE_VER p FILESYSTEM_ROOT_INODE_NUMBER = Inr d"
    and e: "entries fs FILESYSTEM_CUR_MODIFIABLE_VER d = Some path" and free: "dir_map path n = None"
    and room: "dir_room fs (Suc (length path))"
  shows "\<exists>fs'. do_rename env ''/.snapshot/current'' (path_to_string (p @ [n])) fs = (Inr (- int (errno_of HTMPFS_INVALID_DENTRY_NAME)), fs')
     \<and> child fs' FILESYSTEM_CUR_MODIFIABLE_VER d n = Some FILESYSTEM_ROOT_INODE_NUMBER \<and> \<not> fs_ok fs'"
proof -
  let ?root = FILESYSTEM_ROOT_INODE_NUMBER
  let ?path = "path @ [\<lparr>pathname = n, pack_inode = ?root\<rparr>]"
  note sok = fs_okD(1) [OF ok] and dok = fs_okD(4) [OF ok]
  have k: "kind fs d = Some True" using entries_data [OF dok e] by blast
  have b: "dir_bytes ?path (encode_dentry ?path)"
    using dir_bytes_snoc [OF entries_dir_bytes [OF dok e] free n(1), of ?root] room
    by (simp add: dir_room_def FILESYSTEM_ROOT_INODE_NUMBER_def)
  have "dir_room fs (length ?path)" using room by simp
  from save_entries [OF sok dok k this b] obtain fs' where run: "on_inode d (save_current ?path) fs = (Inr (), fs')" and sok': "storage_ok fs'" and dok': "dirs_ok fs'"
    and ch: "child fs' = (child fs)(FILESYSTEM_CUR_MODIFIABLE_VER := (child fs FILESYSTEM_CUR_MODIFIABLE_VER)(d := dir_map ?path))"
    by metis
  have c: "child fs' FILESYSTEM_CUR_MODIFIABLE_VER d n = Some ?root" by (simp add: ch dir_map_snoc [OF free])
  have ino: "inode_of fs d \<noteq> None" using k by (auto simp: kind_Some)
  have l: "get_inode_id_by_path (path_to_string ['''', ''.snapshot'']) fs' = (Inl (HTMPFS_error_t HTMPFS_INVALID_DENTRY_NAME), fs')"
    by (simp only: get_inode_id_by_path_eq [OF sok' dok'] current_prefix(4))
  have "do_rename env ''/.snapshot/current'' (path_to_string (p @ [n])) fs
      = (Inr (- int (errno_of HTMPFS_INVALID_DENTRY_NAME)), fs')"
    unfolding do_rename_def check_rdonly_current [OF current_prefix(2)] plain_path_rules(3) [OF q]
    by (rule catch_tail_error)
       (use d in \<open>simp add: bindx_app liftx_app get_inode_id_by_path_locate [OF ok, of "''/.snapshot/current''"] current_prefix(1,3) plain_path_rules(1) [OF q]
          plain_path_rules(2) [OF ok q] component_not_Nil [OF q]
          get_inode_by_id_eq [OF ino] open_entries [OF sok dok e] rename_add_free [OF free run] l [simplified]\<close>)
  moreover have "\<not> fs_ok fs'" using tree_okD(2) [OF fs_okD(3) c] by blast
  ultimately show ?thesis using c by auto
qed

section \<open>Snapshots made by requests\<close>

lemma mkdir_snapshot_made:
  assumes ok: "fs_ok fs" and space: "space_ok fs 0" and v: "component v"
    and run: "do_mkdir env (path_to_string [''.snapshot'', v]) mode fs = (Inr 0, fs1)"
  shows "v \<noteq> FILESYSTEM_CUR_MODIFIABLE_VER" and "op_ok fs (Snapshot v)" and "create_snapshot_volume v fs = (Inr (), fs1)"
proof -
  obtain ks where cur: "version_inodes fs FILESYSTEM_CUR_MODIFIABLE_VER = Some ks" using ok by (rule current_list)
  have eq: "catch_tail env (bindx (create_snapshot_volume v) (\<lambda>_. ret 0)) fs = (Inr 0, fs1)"
    using run by (simp only: do_mkdir_snapshot [OF v])
  have new: "version_inodes fs v = None"
  proof (rule ccontr)
    assume "version_inodes fs v \<noteq> None"
    then obtain l where "version_inodes fs v = Some l" by auto
    from create_snapshot_volume_double [OF this] eq show False by (simp add: catch_tail_def catchx_app bindx_app ret_app errno_of_eq switch_cases_def EEXIST_def)
  qed
  then show "v \<noteq> FILESYSTEM_CUR_MODIFIABLE_VER" using cur by auto
  show g: "op_ok fs (Snapshot v)" using new space by (simp add: space_ok_def)
  obtain fs' where "create_snapshot_volume v fs = (Inr (), fs')"
    using create_snapshot_volume_fs_ok [OF ok cur new] g by auto
  then show "create_snapshot_volume v fs = (Inr (), fs1)"
    using eq by (simp add: catch_tail_def catchx_app bindx_app ret_app)
qed

end
