(* ===== verification/Bitmap_T.thy ===== *)
theory Bitmap_T
  imports Smi "HOL-Library.Word"
begin

text \<open>
  \<open>bitmap_t\<close> (\<open>bitmap_t.h\<close>, \<open>bitmap_t.cpp\<close>): an array of bits kept in consecutive blocks of
  the file system's pool, and the bit operations on one byte.
\<close>

unbundle bit_operations_syntax

section \<open>Bits of a byte\<close>

text \<open>
  The shift happens in \<open>int\<close> and is cut to eight bits; the callers' offsets are below eight.
\<close>

definition set_bit_of :: "8 word \<Rightarrow> nat \<Rightarrow> 8 word" where
  "set_bit_of val8 bit_offset = (let comp = push_bit bit_offset 1 in val8 OR comp)"

definition remove_bit_of :: "8 word \<Rightarrow> nat \<Rightarrow> 8 word" where
  "remove_bit_of val8 bit_offset = (let comp = push_bit bit_offset 1 in let comp = NOT comp in val8 AND comp)"

definition get_bit_of :: "8 word \<Rightarrow> nat \<Rightarrow> bool" where
  "get_bit_of val8 bit_offset = (let comp = push_bit bit_offset 1 in comp AND val8 \<noteq> 0)"

text \<open>A \<open>char\<close> in memory as a \<open>uint8_t\<close> and back.\<close>

definition uint8_of :: "char \<Rightarrow> 8 word" where
  "uint8_of c = word_of_nat (of_char c)"

definition char_of8 :: "8 word \<Rightarrow> char" where
  "char_of8 w = char_of (unat w)"

lemma char_of8_uint8_of [simp]: "char_of8 (uint8_of c) = c"
proof -
  have "(of_char c :: nat) < 256" by simp
  then have "unat (uint8_of c) = of_char c" by (simp add: uint8_of_def unat_of_nat take_bit_nat_eq_self_iff)
  then show ?thesis by (simp add: char_of8_def)
qed

lemma uint8_of_char_of8 [simp]: "uint8_of (char_of8 w) = w"
proof -
  have "unat w < 2 ^ LENGTH(8)" by (rule unsigned_less)
  then have "unat w < 256" by simp
  then have "(of_char (char_of (unat w)) :: nat) = unat w" by (simp add: of_char_of)
  then show ?thesis by (simp add: uint8_of_def char_of8_def)
qed

lemma get_bit_of_eq: "get_bit_of w k = bit w k"
  using and_exp_eq_0_iff_not_bit [of w k] by (simp add: get_bit_of_def push_bit_of_1 and.commute)

lemma set_bit_of_bit: "k < 8 \<Longrightarrow> bit (set_bit_of w k) m = (m = k \<or> bit w m)"
  by (auto simp: set_bit_of_def bit_simps)

lemma remove_bit_of_bit: "k < 8 \<Longrightarrow> bit (remove_bit_of w k) m = (m \<noteq> k \<and> bit w m)"
  by (auto simp: remove_bit_of_def bit_simps dest: bit_imp_le_length)

section \<open>The bitmap\<close>

text \<open>\<open>filesystem\<close> points to the file system object, the state of the computations.\<close>

record bitmap_t =
  bitmap_length :: nat
  starting_buffer_id :: nat

definition new_bitmap_t :: "nat \<Rightarrow> nat \<Rightarrow> bitmap_t" where
  "new_bitmap_t start len = \<lparr>bitmap_length = len, starting_buffer_id = start\<rparr>"

text \<open>
  The block and the byte in it of a location, both from \<open>location / 8\<close>; the division by the
  block size is undefined for size 0.
\<close>

definition byte_loc_in_block :: "bitmap_t \<Rightarrow> nat \<Rightarrow> nat \<Rightarrow> nat" where
  "byte_loc_in_block bm bs location = add64 (location div 8 div bs) (starting_buffer_id bm)"

definition byte_off_in_block :: "nat \<Rightarrow> nat \<Rightarrow> nat" where
  "byte_off_in_block bs location = location div 8 mod bs"

text \<open>
  The variable \<open>byte\<close> has no value before the read: when the block is too short to give one,
  its use is undefined.
\<close>

definition read_byte :: "nat \<Rightarrow> nat \<Rightarrow> (buffer_pool_t, exc, 8 word) exec" where
  "read_byte j off =
     bindx (get_buffer_by_id j) (\<lambda>buffer_id.
     bindx (deref_buffer buffer_id) (\<lambda>d.
     bindx (liftx (buffer_read d 1 off)) (\<lambda>cs.
     case cs of [] \<Rightarrow> throw Undefined_behaviour | c # _ \<Rightarrow> ret (uint8_of c))))"

definition on_blocks :: "(buffer_pool_t, exc, 'a) exec \<Rightarrow> 'a smi_exec" where
  "on_blocks m = zoomx buffer_pool (\<lambda>bp fs. fs\<lparr>buffer_pool := bp\<rparr>) m"

definition set_bit_in_map :: "bitmap_t \<Rightarrow> nat \<Rightarrow> int \<Rightarrow> unit smi_exec" where
  "set_bit_in_map bm location b =
     bindx (getx smi_block_size) (\<lambda>bs.
     if bs = 0 then throw Undefined_behaviour
     else
     let bit_offset = location mod 8 in
     let j = byte_loc_in_block bm bs location in
     let off = byte_off_in_block bs location in
     bindx (on_blocks (read_byte j off)) (\<lambda>byte.
     let byte' = (if b \<noteq> 0 then set_bit_of byte bit_offset else remove_bit_of byte bit_offset) in
     bindx (on_blocks (pool_write j [char_of8 byte'] 1 off False)) (\<lambda>_. ret ())))"

definition get_bit_in_map :: "bitmap_t \<Rightarrow> nat \<Rightarrow> bool smi_exec" where
  "get_bit_in_map bm location =
     bindx (getx smi_block_size) (\<lambda>bs.
     if bs = 0 then throw Undefined_behaviour
     else
     let bit_offset = location mod 8 in
     let j = byte_loc_in_block bm bs location in
     let off = byte_off_in_block bs location in
     bindx (on_blocks (read_byte j off)) (\<lambda>byte. ret (get_bit_of byte bit_offset)))"

section \<open>An array of bits\<close>

text \<open>
  The bitmap is usable where every location below its length has a byte in the pool. The
  abstract value is the list of the bits.
\<close>

definition bitmap_byte :: "bitmap_t \<Rightarrow> inode_smi_t \<Rightarrow> nat \<Rightarrow> 8 word option" where
  "bitmap_byte bm fs l =
     (case map_of (buffer_pool fs) (byte_loc_in_block bm (smi_block_size fs) l) of None \<Rightarrow> None
      | Some pk \<Rightarrow> if byte_off_in_block (smi_block_size fs) l < length (buffer pk) \<and> length (buffer pk) < 2 ^ 64
          then Some (uint8_of (buffer pk ! byte_off_in_block (smi_block_size fs) l)) else None)"

definition bitmap_ok :: "bitmap_t \<Rightarrow> inode_smi_t \<Rightarrow> bool" where
  "bitmap_ok bm fs \<longleftrightarrow> 0 < smi_block_size fs \<and> bitmap_length bm + starting_buffer_id bm < 2 ^ 64 \<and>
     (\<forall>l<bitmap_length bm. bitmap_byte bm fs l \<noteq> None)"

definition bitmap_bits :: "bitmap_t \<Rightarrow> inode_smi_t \<Rightarrow> bool list" where
  "bitmap_bits bm fs = map (\<lambda>l. bit (the (bitmap_byte bm fs l)) (l mod 8)) [0..<bitmap_length bm]"

lemma read_byte_eq:
  assumes "map_of pool j = Some pk" and "off < length (buffer pk)" and "length (buffer pk) < 2 ^ 64"
  shows "read_byte j off pool = (Inr (uint8_of (buffer pk ! off)), pool)"
proof -
  have "drop off (buffer pk) = buffer pk ! off # drop (Suc off) (buffer pk)"
    using assms(2) by (rule Cons_nth_drop_Suc [symmetric])
  then have "buffer_read (buffer pk) 1 off = Inr [buffer pk ! off]"
    using buffer_read_eq [of off 1 "buffer pk"] assms(2,3) by simp
  then show ?thesis using assms(1)
    by (simp add: read_byte_def get_buffer_by_id_def deref_buffer_def exec_simps)
qed

lemma write_byte_eq:
  assumes "map_of pool j = Some pk" and "off < length (buffer pk)" and "length (buffer pk) < 2 ^ 64"
  shows "pool_write j [c] 1 off False pool
    = (Inr 1, map_assign j (pk\<lparr>buffer := (buffer pk)[off := c]\<rparr>) pool)"
proof -
  have "buffer_write (buffer pk) [c] 1 off False = Inr ((buffer pk)[off := c], 1)"
    using buffer_write_fixed_eq [of off 1 "buffer pk" "[c]"] assms(2,3) by (simp add: upd_conv_take_nth_drop)
  then show ?thesis using assms(1)
    by (simp add: pool_write_def deref_buffer_def store_buffer_def exec_simps)
qed

lemma bitmap_byteE:
  assumes "bitmap_byte bm fs l = Some w"
  obtains pk where "map_of (buffer_pool fs) (byte_loc_in_block bm (smi_block_size fs) l) = Some pk"
    and "byte_off_in_block (smi_block_size fs) l < length (buffer pk)" and "length (buffer pk) < 2 ^ 64"
    and "w = uint8_of (buffer pk ! byte_off_in_block (smi_block_size fs) l)"
  using assms by (auto simp: bitmap_byte_def split: option.splits if_splits)

lemma get_bit_in_map_eq:
  assumes "0 < smi_block_size fs" and "bitmap_byte bm fs l = Some w"
  shows "get_bit_in_map bm l fs = (Inr (bit w (l mod 8)), fs)"
proof -
  obtain pk where pk: "map_of (buffer_pool fs) (byte_loc_in_block bm (smi_block_size fs) l) = Some pk"
    "byte_off_in_block (smi_block_size fs) l < length (buffer pk)" "length (buffer pk) < 2 ^ 64"
    and w: "w = uint8_of (buffer pk ! byte_off_in_block (smi_block_size fs) l)"
    using assms(2) by (rule bitmap_byteE)
  show ?thesis
    using assms(1) read_byte_eq [OF pk]
    by (simp add: get_bit_in_map_def getx_app bindx_app zoomx_app on_blocks_def ret_app get_bit_of_eq w)
qed

text \<open>Locations with the same block and byte are in the same byte.\<close>

lemma same_byte:
  assumes "l + starting_buffer_id bm < 2 ^ 64" and "m + starting_buffer_id bm < 2 ^ 64" and "0 < bs"
    and "byte_loc_in_block bm bs l = byte_loc_in_block bm bs m" and "byte_off_in_block bs l = byte_off_in_block bs m"
  shows "l div 8 = m div 8"
proof -
  have no: "byte_loc_in_block bm bs k = k div 8 div bs + starting_buffer_id bm" if "k + starting_buffer_id bm < 2 ^ 64" for k
  proof -
    have "k div 8 div bs \<le> k" by (meson div_le_dividend order_trans)
    then show ?thesis using that by (simp add: byte_loc_in_block_def add64_small)
  qed
  have "l div 8 div bs = m div 8 div bs" using assms(4) no [OF assms(1)] no [OF assms(2)] by simp
  moreover have "l div 8 mod bs = m div 8 mod bs" using assms(5) by (simp add: byte_off_in_block_def)
  ultimately show ?thesis by (metis div_mult_mod_eq)
qed

definition new_byte :: "8 word \<Rightarrow> int \<Rightarrow> nat \<Rightarrow> 8 word" where
  "new_byte w b k = (if b \<noteq> 0 then set_bit_of w k else remove_bit_of w k)"

lemma bit_new_byte: "k < 8 \<Longrightarrow> bit (new_byte w b k) m = (if m = k then b \<noteq> 0 else bit w m)"
  by (simp add: new_byte_def set_bit_of_bit remove_bit_of_bit)

lemma set_bit_in_map_eq:
  assumes bs: "0 < smi_block_size fs" and l: "l + starting_buffer_id bm < 2 ^ 64" and w: "bitmap_byte bm fs l = Some w"
  obtains fs' where "set_bit_in_map bm l b fs = (Inr (), fs')" and "smi_block_size fs' = smi_block_size fs"
    and "inode_pool fs' = inode_pool fs" and "snapshot_version_list fs' = snapshot_version_list fs"
    and "\<And>m. m + starting_buffer_id bm < 2 ^ 64 \<Longrightarrow>
      bitmap_byte bm fs' m = (if m div 8 = l div 8 then Some (new_byte w b (l mod 8)) else bitmap_byte bm fs m)"
proof -
  let ?bs = "smi_block_size fs"
  let ?j = "byte_loc_in_block bm ?bs l" and ?off = "byte_off_in_block ?bs l"
  obtain pk where pk: "map_of (buffer_pool fs) ?j = Some pk" "?off < length (buffer pk)" "length (buffer pk) < 2 ^ 64"
    and we: "w = uint8_of (buffer pk ! ?off)"
    using w by (rule bitmap_byteE)
  let ?c = "char_of8 (new_byte w b (l mod 8))"
  let ?fs = "fs\<lparr>buffer_pool := map_assign ?j (pk\<lparr>buffer := (buffer pk)[?off := ?c]\<rparr>) (buffer_pool fs)\<rparr>"
  have run: "set_bit_in_map bm l b fs = (Inr (), ?fs)"
    using bs read_byte_eq [OF pk] write_byte_eq [OF pk]
    by (simp add: set_bit_in_map_def getx_app bindx_app zoomx_app on_blocks_def ret_app new_byte_def we)
  have byte: "bitmap_byte bm ?fs m = (if m div 8 = l div 8 then Some (new_byte w b (l mod 8)) else bitmap_byte bm fs m)"
    if m: "m + starting_buffer_id bm < 2 ^ 64" for m
  proof (cases "m div 8 = l div 8")
    case True
    then show ?thesis using pk by (simp add: bitmap_byte_def byte_loc_in_block_def byte_off_in_block_def)
  next
    case False
    then have "byte_loc_in_block bm ?bs m \<noteq> ?j \<or> byte_off_in_block ?bs m \<noteq> ?off"
      using same_byte [OF m l bs] by blast
    then show ?thesis using False pk by (auto simp: bitmap_byte_def split: option.splits)
  qed
  show thesis by (rule that [OF run]) (simp_all add: byte)
qed

lemma bitmap_byte_location: "bitmap_ok bm fs \<Longrightarrow> l < bitmap_length bm \<Longrightarrow> \<exists>w. bitmap_byte bm fs l = Some w"
  by (auto simp: bitmap_ok_def)

lemma bitmap_bits_nth: "l < bitmap_length bm \<Longrightarrow> bitmap_bits bm fs ! l = bit (the (bitmap_byte bm fs l)) (l mod 8)"
  by (simp add: bitmap_bits_def)

lemma length_bitmap_bits [simp]: "length (bitmap_bits bm fs) = bitmap_length bm"
  by (simp add: bitmap_bits_def)

lemma get_bit_ok:
  assumes "bitmap_ok bm fs" and "l < bitmap_length bm"
  shows "get_bit_in_map bm l fs = (Inr (bitmap_bits bm fs ! l), fs)"
  using bitmap_byte_location [OF assms] get_bit_in_map_eq [of fs bm l] assms
  by (auto simp: bitmap_ok_def bitmap_bits_nth)

lemma set_bit_ok:
  assumes "bitmap_ok bm fs" and l: "l < bitmap_length bm"
  shows "\<exists>fs'. set_bit_in_map bm l b fs = (Inr (), fs') \<and> bitmap_ok bm fs'
    \<and> bitmap_bits bm fs' = (bitmap_bits bm fs)[l := b \<noteq> 0]
    \<and> inode_pool fs' = inode_pool fs \<and> snapshot_version_list fs' = snapshot_version_list fs"
proof -
  have bs: "0 < smi_block_size fs" and len: "m + starting_buffer_id bm < 2 ^ 64" if "m < bitmap_length bm" for m
    using assms(1) that by (simp_all add: bitmap_ok_def)
  obtain w where w: "bitmap_byte bm fs l = Some w" using bitmap_byte_location [OF assms] by blast
  obtain fs' where run: "set_bit_in_map bm l b fs = (Inr (), fs')" and r: "smi_block_size fs' = smi_block_size fs"
    "inode_pool fs' = inode_pool fs" "snapshot_version_list fs' = snapshot_version_list fs"
    and byte: "\<And>m. m + starting_buffer_id bm < 2 ^ 64 \<Longrightarrow>
      bitmap_byte bm fs' m = (if m div 8 = l div 8 then Some (new_byte w b (l mod 8)) else bitmap_byte bm fs m)"
    using set_bit_in_map_eq [OF bs [OF l] len [OF l] w] by blast
  have "bitmap_bits bm fs' ! m = (bitmap_bits bm fs)[l := b \<noteq> 0] ! m" if m: "m < bitmap_length bm" for m
  proof (cases "m div 8 = l div 8")
    case True
    then have "bitmap_byte bm fs m = Some w"
      using w by (simp only: bitmap_byte_def byte_loc_in_block_def byte_off_in_block_def)
    moreover have "m mod 8 = l mod 8 \<longleftrightarrow> m = l" using True by (metis div_mult_mod_eq)
    ultimately show ?thesis using m True byte [OF len [OF m]] by (simp add: bitmap_bits_nth bit_new_byte)
  next
    case False
    then show ?thesis using m byte [OF len [OF m]] by (auto simp: bitmap_bits_nth)
  qed
  then have "bitmap_bits bm fs' = (bitmap_bits bm fs)[l := b \<noteq> 0]" by (intro nth_equalityI) simp_all
  moreover have "bitmap_ok bm fs'"
    using assms(1) byte len r(1) unfolding bitmap_ok_def by auto
  ultimately show ?thesis using run r(2,3) by blast
qed

end
