(* ===== verification/Ll_Io.thy ===== *)
theory Ll_Io
  imports Buffer_T
begin

text \<open>
  \<open>ll_io\<close> and \<open>ll_io_blockized\<close> (\<open>ll_io.h\<close>, \<open>ll_io.cpp\<close>): a device opened for direct access, and
  reads and writes of whole blocks of it. The operating system is a parameter: its calls
  are the fields of \<open>os\<close>, on a state of its own.
\<close>

section \<open>The system calls\<close>

text \<open>
  \<open>::open\<close>, \<open>lseek\<close>, \<open>::read\<close>, \<open>::write\<close> and \<open>::close\<close>: a result and the new state of the
  system. \<open>os_read\<close> also gives the bytes it stored, \<open>os_write\<close> gets the bytes at the pointer.
\<close>

record 'w os =
  os_open :: "string \<Rightarrow> int \<Rightarrow> 'w \<Rightarrow> int \<times> 'w"
  os_lseek :: "int \<Rightarrow> int \<Rightarrow> int \<Rightarrow> 'w \<Rightarrow> int \<times> 'w"
  os_read :: "int \<Rightarrow> nat \<Rightarrow> 'w \<Rightarrow> (int \<times> data_t) \<times> 'w"
  os_write :: "int \<Rightarrow> data_t \<Rightarrow> nat \<Rightarrow> 'w \<Rightarrow> int \<times> 'w"
  os_close :: "int \<Rightarrow> 'w \<Rightarrow> int \<times> 'w"

definition O_RDWR_DIRECT :: int where "O_RDWR_DIRECT = 0x4002"
definition SEEK_SET :: int where "SEEK_SET = 0"
definition SEEK_END :: int where "SEEK_END = 2"

section \<open>The classes\<close>

record ll_io =
  fd :: int
  dev_len :: int

record ll_io_blockized = ll_io +
  io_block_size :: nat
  io_block_count :: nat

definition new_ll_io :: ll_io where
  "new_ll_io = \<lparr>fd = 0, dev_len = 0\<rparr>"

text \<open>A computation of an object of the class, or of the class derived from it.\<close>

type_synonym ('a, 'w, 'r) ll_exec = "('a ll_io_scheme \<times> 'w, exc, 'r) exec"

definition os_call :: "('w \<Rightarrow> 'r \<times> 'w) \<Rightarrow> ('a, 'w, 'r) ll_exec" where
  "os_call f = (\<lambda>(io, w). case f w of (r, w') \<Rightarrow> (Inr r, (io, w')))"

definition on_io :: "('a ll_io_scheme \<Rightarrow> 'a ll_io_scheme) \<Rightarrow> ('a, 'w, unit) ll_exec" where
  "on_io f = modifyx (\<lambda>(io, w). (f io, w))"

definition get_fd :: "('a, 'w, int) ll_exec" where
  "get_fd = getx (\<lambda>(io, w). fd io)"

definition ll_open :: "'w os \<Rightarrow> string \<Rightarrow> ('a, 'w, unit) ll_exec" where
  "ll_open os path =
     bindx (os_call (os_open os path O_RDWR_DIRECT)) (\<lambda>d.
     bindx (on_io (\<lambda>io. io\<lparr>fd := d\<rparr>)) (\<lambda>_.
     if d = -1 then throw (HTMPFS_error_t HTMPFS_CANNOT_OPEN_DEVICE)
     else
     bindx (os_call (os_lseek os d 0 SEEK_END)) (\<lambda>n.
     bindx (on_io (\<lambda>io. io\<lparr>dev_len := n\<rparr>)) (\<lambda>_.
     if n = -1 then throw (HTMPFS_error_t HTMPFS_CANNOT_LSEEK_DEVICE) else ret ()))))"

definition ll_read :: "'w os \<Rightarrow> nat \<Rightarrow> int \<Rightarrow> ('a, 'w, int \<times> data_t) ll_exec" where
  "ll_read os len offset =
     bindx get_fd (\<lambda>d.
     bindx (os_call (os_lseek os d offset SEEK_SET)) (\<lambda>n.
     if n \<noteq> offset then throw (HTMPFS_error_t HTMPFS_CANNOT_LSEEK_DEVICE)
     else os_call (os_read os d len)))"

definition ll_write :: "'w os \<Rightarrow> data_t \<Rightarrow> nat \<Rightarrow> int \<Rightarrow> ('a, 'w, int) ll_exec" where
  "ll_write os buf len offset =
     bindx get_fd (\<lambda>d.
     bindx (os_call (os_lseek os d offset SEEK_SET)) (\<lambda>n.
     if n \<noteq> offset then throw (HTMPFS_error_t HTMPFS_CANNOT_LSEEK_DEVICE)
     else os_call (os_write os d buf len)))"

definition ll_close :: "'w os \<Rightarrow> ('a, 'w, unit) ll_exec" where
  "ll_close os = bindx get_fd (\<lambda>d. bindx (os_call (os_close os d)) (\<lambda>_. ret ()))"

text \<open>The comparison of a signed result with an unsigned length, in \<open>VERIFY_DATA_OPS_LEN\<close>.\<close>

definition verify_ops_len :: "int \<Rightarrow> nat \<Rightarrow> ('s, exc, unit) exec" where
  "verify_ops_len r len =
     (if nat (r mod 2 ^ 64) \<noteq> len then throw (HTMPFS_error_t HTMPFS_BLOCK_SHORT_OPS) else ret ())"

text \<open>
  The constructor. When it throws, the destructor of the base class closes the descriptor,
  which is \<open>-1\<close> when the device could not be opened. A block size of 0 is undefined.
\<close>

definition new_ll_io_blockized :: "'w os \<Rightarrow> string \<Rightarrow> nat \<Rightarrow> (ll_io_blockized \<times> 'w, exc, unit) exec" where
  "new_ll_io_blockized os path bs =
     catchx
       (bindx (ll_open os path) (\<lambda>_.
        bindx (modifyx (\<lambda>(io, w). (io\<lparr>io_block_size := bs\<rparr>, w))) (\<lambda>_.
        if bs = 0 then throw Undefined_behaviour
        else modifyx (\<lambda>(io, w). (io\<lparr>io_block_count := nat (dev_len io mod 2 ^ 64) div bs\<rparr>, w)))))
       (\<lambda>e. case e of
          Undefined_behaviour \<Rightarrow> throw e
        | _ \<Rightarrow> bindx (ll_close os) (\<lambda>_. throw e))"

text \<open>\<open>(off_t)(block_num * block_size)\<close>: a product of 64 bits read as signed.\<close>

definition block_offset :: "nat \<Rightarrow> nat \<Rightarrow> int" where
  "block_offset num bs = (int (mul64 num bs) + 2 ^ 63) mod 2 ^ 64 - 2 ^ 63"

definition read_block :: "'w os \<Rightarrow> buffer_t \<Rightarrow> nat \<Rightarrow> (ll_io_blockized \<times> 'w, exc, buffer_t) exec" where
  "read_block os buf num =
     bindx (getx fst) (\<lambda>io.
     if num > io_block_count io then throw (HTMPFS_error_t HTMPFS_MEET_DEVICE_BOUNDARY)
     else
     bindx (ll_read os (io_block_size io) (block_offset num (io_block_size io))) (\<lambda>(n, c_buff).
     bindx (verify_ops_len n (io_block_size io)) (\<lambda>_.
     bindx (liftx (buffer_write buf c_buff (io_block_size io) 0 True)) (\<lambda>(buf', k). ret buf'))))"

text \<open>
  The memory for \<open>c_buff\<close> is not cleared: the bytes after those that \<open>buffer.read\<close> copied are
  whatever was there, the parameter \<open>heap\<close>.
\<close>

definition write_block :: "'w os \<Rightarrow> (nat \<Rightarrow> char) \<Rightarrow> buffer_t \<Rightarrow> nat \<Rightarrow> (ll_io_blockized \<times> 'w, exc, unit) exec" where
  "write_block os heap buf num =
     bindx (getx fst) (\<lambda>io.
     if num > io_block_count io then throw (HTMPFS_error_t HTMPFS_MEET_DEVICE_BOUNDARY)
     else
     bindx (liftx (buffer_read buf (io_block_size io) 0)) (\<lambda>cs.
     let c_buff = cs @ map heap [length cs..<io_block_size io] in
     bindx (ll_write os c_buff (io_block_size io) (block_offset num (io_block_size io))) (\<lambda>n.
     verify_ops_len n (io_block_size io))))"

section \<open>A device that works\<close>

text \<open>
  What POSIX says of a seekable device without faults: \<open>disk\<close> and \<open>pos\<close> observe its bytes and
  the position of the descriptor \<open>d\<close>. Seeking inside the device succeeds, a read returns the
  bytes that are there, a write inside the device replaces them.
\<close>

definition block_device :: "'w os \<Rightarrow> int \<Rightarrow> ('w \<Rightarrow> data_t) \<Rightarrow> ('w \<Rightarrow> nat) \<Rightarrow> bool" where
  "block_device os d disk pos \<longleftrightarrow>
     (\<forall>w off. off \<le> length (disk w) \<longrightarrow>
        (\<exists>w'. os_lseek os d (int off) SEEK_SET w = (int off, w') \<and> disk w' = disk w \<and> pos w' = off)) \<and>
     (\<forall>w n. \<exists>w'. os_read os d n w
        = ((int (min n (length (disk w) - pos w)), take n (drop (pos w) (disk w))), w') \<and> disk w' = disk w) \<and>
     (\<forall>w cs n. pos w + n \<le> length (disk w) \<and> n \<le> length cs \<longrightarrow>
        (\<exists>w'. os_write os d cs n w = (int n, w')
           \<and> disk w' = take (pos w) (disk w) @ take n cs @ drop (pos w + n) (disk w)))"

text \<open>An object on such a device: its numbers are those of the device.\<close>

definition blockized_ok :: "'w os \<Rightarrow> ('w \<Rightarrow> data_t) \<Rightarrow> ('w \<Rightarrow> nat) \<Rightarrow> ll_io_blockized \<times> 'w \<Rightarrow> bool" where
  "blockized_ok os disk pos s \<longleftrightarrow> block_device os (fd (fst s)) disk pos \<and> 0 < io_block_size (fst s)
     \<and> io_block_count (fst s) = length (disk (snd s)) div io_block_size (fst s) \<and> length (disk (snd s)) < 2 ^ 63"

lemma block_offset_small: "num * bs < 2 ^ 63 \<Longrightarrow> block_offset num bs = int (num * bs)"
  by (simp add: block_offset_def mul64_small del: of_nat_mult)

lemma verify_ops_len_int: "n < 2 ^ 63 \<Longrightarrow> verify_ops_len (int n) len s
    = (if n = len then (Inr (), s) else (Inl (HTMPFS_error_t HTMPFS_BLOCK_SHORT_OPS), s))"
  by (simp add: verify_ops_len_def ret_app throw_app)

lemma block_device_lseek:
  assumes "block_device os d disk pos" and "off \<le> length (disk w)"
  obtains w' where "os_lseek os d (int off) SEEK_SET w = (int off, w')" and "disk w' = disk w" and "pos w' = off"
  using assms unfolding block_device_def by meson

lemma block_device_read:
  assumes "block_device os d disk pos"
  obtains w' where "os_read os d n w = ((int (min n (length (disk w) - pos w)), take n (drop (pos w) (disk w))), w')"
    and "disk w' = disk w"
  using assms unfolding block_device_def by meson

lemma block_device_write:
  assumes "block_device os d disk pos" and "pos w + n \<le> length (disk w)" and "n \<le> length cs"
  obtains w' where "os_write os d cs n w = (int n, w')"
    and "disk w' = take (pos w) (disk w) @ take n cs @ drop (pos w + n) (disk w)"
  using assms unfolding block_device_def by meson

lemma ll_read_eq:
  assumes "block_device os (fd io) disk pos" and "off \<le> length (disk w)"
  shows "\<exists>w'. ll_read os n (int off) (io, w)
    = (Inr (int (min n (length (disk w) - off)), take n (drop off (disk w))), (io, w')) \<and> disk w' = disk w"
proof -
  obtain w1 where s: "os_lseek os (fd io) (int off) SEEK_SET w = (int off, w1)" "disk w1 = disk w" "pos w1 = off"
    using assms by (rule block_device_lseek)
  obtain w2 where "os_read os (fd io) n w1
      = ((int (min n (length (disk w1) - pos w1)), take n (drop (pos w1) (disk w1))), w2)" "disk w2 = disk w1"
    using assms(1) by (rule block_device_read)
  then show ?thesis using s by (simp add: ll_read_def get_fd_def os_call_def bindx_app getx_app)
qed

lemma ll_write_eq:
  assumes "block_device os (fd io) disk pos" and "off + n \<le> length (disk w)" and "n \<le> length cs"
  shows "\<exists>w'. ll_write os cs n (int off) (io, w) = (Inr (int n), (io, w'))
    \<and> disk w' = take off (disk w) @ take n cs @ drop (off + n) (disk w)"
proof -
  obtain w1 where s: "os_lseek os (fd io) (int off) SEEK_SET w = (int off, w1)" "disk w1 = disk w" "pos w1 = off"
    using block_device_lseek [OF assms(1), of off w] assms(2) by auto
  obtain w2 where "os_write os (fd io) cs n w1 = (int n, w2)"
      "disk w2 = take (pos w1) (disk w1) @ take n cs @ drop (pos w1 + n) (disk w1)"
    using block_device_write [OF assms(1), of w1 n cs] assms(2,3) s by auto
  then show ?thesis using s by (simp add: ll_write_def get_fd_def os_call_def bindx_app getx_app)
qed

lemma block_inside:
  assumes "0 < bs" and "num < len div bs"
  shows "num * bs + bs \<le> (len :: nat)"
proof -
  have "Suc num * bs \<le> len div bs * bs" using assms by (intro mult_le_mono1) simp
  also have "\<dots> \<le> len" by (rule div_times_less_eq_dividend)
  finally show ?thesis by simp
qed

lemma read_block_ok:
  assumes ok: "blockized_ok os disk pos (io, w)" and n: "num < io_block_count io" and buf: "length buf < 2 ^ 63"
  shows "\<exists>w'. read_block os buf num (io, w)
    = (Inr (take (io_block_size io) (drop (num * io_block_size io) (disk w))), (io, w')) \<and> disk w' = disk w"
proof -
  let ?bs = "io_block_size io"
  let ?cs = "take ?bs (drop (num * ?bs) (disk w))"
  have d: "block_device os (fd io) disk pos" "0 < ?bs" "num < length (disk w) div ?bs" "length (disk w) < 2 ^ 63"
    using ok n by (simp_all add: blockized_ok_def)
  have i: "num * ?bs + ?bs \<le> length (disk w)" using d by (intro block_inside) simp_all
  have "num * ?bs \<le> length (disk w)" using i by simp
  from ll_read_eq [OF d(1) this, of ?bs] obtain w' where r: "ll_read os ?bs (int (num * ?bs)) (io, w)
      = (Inr (int (min ?bs (length (disk w) - num * ?bs)), ?cs), (io, w'))" "disk w' = disk w" by blast
  have m: "min ?bs (length (disk w) - num * ?bs) = ?bs" and l: "length ?cs = ?bs" using i by simp_all
  have "buffer_write buf ?cs ?bs 0 True = Inr (?cs, ?bs)"
    using buffer_write_resize_eq [of 0 ?bs buf ?cs] l buf i d(4) by simp
  moreover have "block_offset num ?bs = int (num * ?bs)" using i d(2,4) by (intro block_offset_small) linarith
  ultimately show ?thesis
    using r n i d(4) by (simp add: read_block_def bindx_app getx_app liftx_app ret_app verify_ops_len_int m del: of_nat_mult)
qed

lemma write_block_ok:
  assumes ok: "blockized_ok os disk pos (io, w)" and n: "num < io_block_count io" and buf: "length buf = io_block_size io"
  shows "\<exists>w'. write_block os heap buf num (io, w) = (Inr (), (io, w'))
    \<and> disk w' = take (num * io_block_size io) (disk w) @ buf @ drop (num * io_block_size io + io_block_size io) (disk w)
    \<and> blockized_ok os disk pos (io, w')"
proof -
  let ?bs = "io_block_size io"
  have d: "block_device os (fd io) disk pos" "0 < ?bs" "num < length (disk w) div ?bs" "length (disk w) < 2 ^ 63"
    using ok n by (simp_all add: blockized_ok_def)
  have i: "num * ?bs + ?bs \<le> length (disk w)" using d by (intro block_inside) simp_all
  have b: "buffer_read buf ?bs 0 = Inr buf" using buffer_read_eq [of 0 ?bs buf] buf i d(4) by simp
  have "?bs \<le> length buf" using buf by simp
  from ll_write_eq [OF d(1) i this] obtain w' where r: "ll_write os buf ?bs (int (num * ?bs)) (io, w) = (Inr (int ?bs), (io, w'))"
    "disk w' = take (num * ?bs) (disk w) @ take ?bs buf @ drop (num * ?bs + ?bs) (disk w)" by blast
  have "block_offset num ?bs = int (num * ?bs)" using i d(2,4) by (intro block_offset_small) linarith
  then have run: "write_block os heap buf num (io, w) = (Inr (), (io, w'))"
    using r n i d(4) b buf by (simp add: write_block_def bindx_app getx_app liftx_app ret_app verify_ops_len_int del: of_nat_mult)
  have "length (disk w') = length (disk w)" using r(2) i buf by simp
  then have "blockized_ok os disk pos (io, w')" using ok by (simp add: blockized_ok_def)
  then show ?thesis using run r(2) buf by simp
qed

text \<open>The number of blocks itself passes the check, although the last block has the number before it.\<close>

lemma read_block_boundary:
  assumes ok: "blockized_ok os disk pos (io, w)" and n: "io_block_count io \<le> num"
  shows "\<exists>w'. read_block os buf num (io, w)
    = (Inl (HTMPFS_error_t (if num = io_block_count io then HTMPFS_BLOCK_SHORT_OPS else HTMPFS_MEET_DEVICE_BOUNDARY)), (io, w'))"
proof (cases "num = io_block_count io")
  case False
  then show ?thesis using n by (simp add: read_block_def bindx_app getx_app throw_app)
next
  case True
  let ?bs = "io_block_size io"
  have d: "block_device os (fd io) disk pos" "0 < ?bs" "num = length (disk w) div ?bs" "length (disk w) < 2 ^ 63"
    using ok True by (simp_all add: blockized_ok_def)
  have le: "num * ?bs \<le> length (disk w)" using d(3) by (simp add: div_times_less_eq_dividend)
  have "length (disk w) mod ?bs < ?bs" using d(2) by simp
  then have short: "length (disk w) - num * ?bs < ?bs" using d(3) by (simp add: minus_div_mult_eq_mod)
  from ll_read_eq [OF d(1) le, of ?bs] obtain w' where r: "ll_read os ?bs (int (num * ?bs)) (io, w)
      = (Inr (int (min ?bs (length (disk w) - num * ?bs)), take ?bs (drop (num * ?bs) (disk w))), (io, w'))" by blast
  have m: "min ?bs (length (disk w) - num * ?bs) = length (disk w) - num * ?bs" using short by simp
  have "block_offset num ?bs = int (num * ?bs)" using le d(4) by (intro block_offset_small) linarith
  then show ?thesis
    using r short True d(4) by (simp add: read_block_def bindx_app getx_app verify_ops_len_int m del: of_nat_mult of_nat_diff)
qed

text \<open>Laying a block over the device leaves the other blocks as they were.\<close>

lemma overlaid_block:
  assumes "num * bs + bs \<le> length c" and "other * bs + bs \<le> length c" and "length buf = bs"
  shows "take bs (drop (other * bs) (take (num * bs) c @ buf @ drop (num * bs + bs) c))
     = (if other = num then buf else take bs (drop (other * bs) c))"
proof -
  consider "other = num" | "other + 1 \<le> num" | "num + 1 \<le> other" by linarith
  then show ?thesis
  proof cases
    case 1
    then show ?thesis using assms by simp
  next
    case 2
    from mult_le_mono1 [OF this, of bs] show ?thesis
      using 2 assms by (intro nth_equalityI) (simp_all add: nth_append)
  next
    case 3
    from mult_le_mono1 [OF this, of bs] show ?thesis
      using 3 assms by (intro nth_equalityI) (simp_all add: nth_append)
  qed
qed

lemma written_block_read:
  assumes ok: "blockized_ok os disk pos (io, w)" and n: "num < io_block_count io" "other < io_block_count io"
    and buf: "length buf = io_block_size io" "length old < 2 ^ 63"
  shows "\<exists>w' w''. write_block os heap buf num (io, w) = (Inr (), (io, w')) \<and> blockized_ok os disk pos (io, w')
    \<and> read_block os old other (io, w') = (Inr (if other = num then buf
        else take (io_block_size io) (drop (other * io_block_size io) (disk w))), (io, w''))"
proof -
  let ?bs = "io_block_size io"
  obtain w' where wr: "write_block os heap buf num (io, w) = (Inr (), (io, w'))" and ok': "blockized_ok os disk pos (io, w')"
    and d: "disk w' = take (num * ?bs) (disk w) @ buf @ drop (num * ?bs + ?bs) (disk w)"
    using write_block_ok [OF ok n(1) buf(1)] by blast
  have len: "num * ?bs + ?bs \<le> length (disk w)" "other * ?bs + ?bs \<le> length (disk w)"
    using ok n block_inside by (auto simp: blockized_ok_def)
  obtain w'' where "read_block os old other (io, w') = (Inr (take ?bs (drop (other * ?bs) (disk w'))), (io, w''))"
    using read_block_ok [OF ok' n(2) buf(2)] by blast
  moreover have "take ?bs (drop (other * ?bs) (disk w')) = (if other = num then buf
        else take ?bs (drop (other * ?bs) (disk w)))"
    unfolding d using len by (intro overlaid_block) (simp_all add: buf(1))
  ultimately show ?thesis using wr ok' by auto
qed

end
