(* ===== verification/Example_Requests.thy ===== *)
theory Example_Requests
  imports Fuse_Effects Mount Bitmap_T Ll_Io Example_States
begin

text \<open>
  Concrete requests on the file system of \<open>Example_States\<close>, a bitmap of one byte, and a
  block device in memory, on which the properties of the handlers are exercised.
\<close>

section \<open>Requests\<close>

definition demo_env :: env where
  "demo_env = \<lparr>clock = (\<lambda>n. \<lparr>tv_sec = 1700000000, tv_nsec = int n\<rparr>), the_uid = 1000, the_gid = 100, sys_errno = 0\<rparr>"

lemma one_block_count: "n \<le> 4096 \<Longrightarrow> block_count n 4096 \<le> 1"
  by (cases "n = 4096") (auto simp: block_count_def)

lemma demo_space: "n \<le> 4096 \<Longrightarrow> space_ok demo_fs n" "n \<le> 4096 \<Longrightarrow> space_ok demo_snap n"
proof -
  show "space_ok demo_fs n" if n: "n \<le> 4096"
    using n one_block_count [OF n] demo_guards(3)
    by (auto simp: space_ok_def demo_fs_pool demo_fs_views demo_entries demo_dir_map demo_fs_data demo_dir_bytes(2)
        inode_pool_max_size_def buffer_pool_max_size_def block_count_def split: if_splits)
  have c: "counters_ok demo_snap" by (simp add: counters_ok_def demo_snap_def)
  have e: "path = demo_entries" if "entries demo_snap FILESYSTEM_CUR_MODIFIABLE_VER k = Some path" for k path
  proof (cases "k = 0")
    case True
    then show ?thesis using that demo_snap_entries by simp
  next
    case False
    then have "kind demo_snap k \<noteq> Some True" by (simp add: demo_snap_facts demo_fs_views)
    then show ?thesis using that by (simp add: entries_def)
  qed
  have d: "length c \<le> 4096" if "fs_data demo_snap k FILESYSTEM_CUR_MODIFIABLE_VER = Some c" for k c
    using that by (auto simp: demo_snap_facts demo_fs_data demo_dir_bytes(2) FILESYSTEM_CUR_MODIFIABLE_VER_def split: if_splits)
  show "space_ok demo_snap n" if n: "n \<le> 4096"
    unfolding space_ok_def
    using n one_block_count [OF n] c
    by (auto dest!: e d simp: demo_snap_facts(3) demo_snap_pool demo_dir_map
        inode_pool_max_size_def buffer_pool_max_size_def block_count_def)
qed

lemma demo_plain: "plain_path [''a'']" "plain_path [''b'']" "plain_path [''a'', ''b'']"
  by (simp_all add: plain_path_def component_def)

lemma demo_storable: "storable_name ''a''" "storable_name ''b''"
  by (simp_all add: storable_name_def)

lemma demo_resolve:
  "resolve demo_fs FILESYSTEM_CUR_MODIFIABLE_VER [] FILESYSTEM_ROOT_INODE_NUMBER = Inr 0"
  "resolve demo_fs FILESYSTEM_CUR_MODIFIABLE_VER [''a''] FILESYSTEM_ROOT_INODE_NUMBER = Inr 1"
  "resolve demo_fs FILESYSTEM_CUR_MODIFIABLE_VER [''a'', ''b''] FILESYSTEM_ROOT_INODE_NUMBER
     = Inl (HTMPFS_error_t HTMPFS_NOT_A_DIRECTORY)"
  by (simp_all add: FILESYSTEM_ROOT_INODE_NUMBER_def demo_fs_views demo_fs_data demo_child)

lemma demo_make: "op_ok demo_fs (Make 0 ''b'' d)"
  by (simp add: demo_entries demo_dir_map dir_room_def demo_fs_views demo_fs_pool block_count_def buffer_pool_max_size_def
      inode_pool_max_size_def valid_name_def bad_char_def signed_char_def)

lemma demo_rooms:
  "dir_room demo_fs 2" "replace_room demo_fs 2" "rename_room demo_fs 2" "n \<le> 4096 \<Longrightarrow> write_room demo_fs ''hello'' n"
  using one_block_count [of n]
  by (simp_all add: dir_room_def replace_room_def rename_room_def write_room_def file_room_def demo_fs_views demo_fs_pool
      block_count_def [of 280] buffer_pool_max_size_def)

lemma demo_removable: "removable demo_fs 1"
  by (simp add: removable_def demo_fs_views)

lemma demo_kernel_path: "kernel_path ''/a''" "kernel_path ''/b''" "kernel_path ''/.snapshot/v1''"
  by (simp_all add: kernel_path_def components_eq storable_name_def FILESYSTEM_CUR_MODIFIABLE_VER_def)

lemma mounted_space: "space_ok (mounted env) 0"
proof -
  let ?fs = "new_inode_smi_t (512 * 1024)"
  obtain f where m: "mounted env = put_stat FILESYSTEM_ROOT_INODE_NUMBER f ?fs"
    using set_up_root_eq [OF new_fs_ok(1)] by (simp add: mounted_def)
  have d: "c = []" if "fs_data ?fs k FILESYSTEM_CUR_MODIFIABLE_VER = Some c" for k c
    using that new_fs_ok(2) [of "512 * 1024"] fs_data_none [of ?fs k]
    by (cases "k = FILESYSTEM_ROOT_INODE_NUMBER") (auto simp: new_fs_views)
  have e: "path = []" if p: "entries ?fs FILESYSTEM_CUR_MODIFIABLE_VER k = Some path" for k path
  proof -
    obtain c where c: "fs_data ?fs k FILESYSTEM_CUR_MODIFIABLE_VER = Some c" "decode_dentry c = Inr path"
      using p by (auto simp: entries_def split: if_splits option.splits sum.splits)
    then show ?thesis using d [OF c(1)] by (simp add: decode_dentry_def)
  qed
  have "length (snapshot_version_list ?fs) = 1" "length (inode_pool ?fs) = 1"
    by (simp_all add: new_inode_smi_t_def map_emplace_def)
  then show ?thesis
    by (auto simp: m space_ok_def new_fs_views counters_ok_def inode_pool_max_size_def buffer_pool_max_size_def
        block_count_def dest!: d [simplified] e [simplified])
qed

text \<open>Two bytes are written into the file after the snapshot.\<close>

lemma demo_session:
  "\<exists>reply fs. session demo_snap [(demo_env, Req_write ''/a'' ''XX'' 2 0)] [reply] fs"
  using session_snoc [OF session_Nil demo_snap_facts(1), of "Req_write ''/a'' ''XX'' 2 0" demo_env] demo_space(2) [of 2]
  by (simp add: numeral_2_eq_2)

section \<open>A bitmap\<close>

definition demo_bitmap :: bitmap_t where
  "demo_bitmap = new_bitmap_t 1 8"

lemma demo_bitmap_ok: "bitmap_ok demo_bitmap demo_fs"
  by (auto simp: bitmap_ok_def demo_bitmap_def new_bitmap_t_def bitmap_byte_def byte_loc_in_block_def byte_off_in_block_def
      demo_fs_views demo_fs_pool demo_fs_pool(8) [unfolded One_nat_def] u64_simps)

lemma demo_bitmap_length: "bitmap_length demo_bitmap = 8"
  by (simp add: demo_bitmap_def new_bitmap_t_def)

section \<open>A block device\<close>

definition ram_disk :: "(data_t \<times> nat) os" where
  "ram_disk = \<lparr>
     os_open = (\<lambda>path flags w. (3, w)),
     os_lseek = (\<lambda>d off whence (c, p). let q = (if whence = SEEK_END then int (length c) + off else off) in (q, (c, nat q))),
     os_read = (\<lambda>d n (c, p). ((int (min n (length c - p)), take n (drop p c)), (c, p + n))),
     os_write = (\<lambda>d cs n (c, p). (int n, (take p c @ take n cs @ drop (p + n) c, p + n))),
     os_close = (\<lambda>d w. (0, w))\<rparr>"

lemma ram_disk_device: "block_device ram_disk d fst snd"
  by (auto simp: block_device_def ram_disk_def SEEK_SET_def SEEK_END_def Let_def)

definition demo_device :: ll_io_blockized where
  "demo_device = \<lparr>fd = 3, dev_len = 6, io_block_size = 2, io_block_count = 3\<rparr>"

lemma demo_device_open:
  "new_ll_io_blockized ram_disk ''/dev/ram0'' 2 (\<lparr>fd = 0, dev_len = 0, io_block_size = 0, io_block_count = 0\<rparr>, (''aabbcc'', 0))
    = (Inr (), (demo_device, (''aabbcc'', 6)))"
  by (simp add: new_ll_io_blockized_def ll_open_def os_call_def on_io_def exec_simps ram_disk_def SEEK_END_def demo_device_def)

lemma demo_device_ok: "blockized_ok ram_disk fst snd (demo_device, (''aabbcc'', 0))"
  by (simp add: blockized_ok_def ram_disk_device demo_device_def)

end
