(* ===== verification/Debug_Text.thy ===== *)
theory Debug_Text
  imports Prelude
begin

text \<open>
  The text functions of \<open>debug.cpp\<close> that the stack trace uses: they take the address and the
  path out of a line of \<open>backtrace_symbols\<close>, and pick a line of the output of \<open>addr2line\<close>.
\<close>

section \<open>Addresses\<close>

text \<open>
  One of the two loops of \<open>__get_addr\<close>: after \<open>left\<close>, the characters up to \<open>right\<close> are
  appended to \<open>output\<close>.
\<close>

fun get_addr_loop :: "char \<Rightarrow> char \<Rightarrow> bool \<Rightarrow> string \<Rightarrow> string \<Rightarrow> string" where
  "get_addr_loop left right start output [] = output"
| "get_addr_loop left right start output (i # input) =
     (if i = left then get_addr_loop left right True output input
      else if start then
        (if i \<noteq> right then get_addr_loop left right start (output @ [i]) input else output)
      else get_addr_loop left right start output input)"

text \<open>Both loops append to \<open>output_ad\<close>; \<open>output_sq\<close> stays empty.\<close>

definition get_addr :: "string \<Rightarrow> string" where
  "get_addr input =
     (let output_sq = [];
          output_ad = get_addr_loop CHR ''+'' CHR '')'' False [] input;
          output_ad = get_addr_loop CHR ''['' CHR '']'' False output_ad input
      in if output_ad \<noteq> [] then output_ad else output_sq)"

fun get_path_loop :: "string \<Rightarrow> string \<Rightarrow> string" where
  "get_path_loop pathname [] = pathname"
| "get_path_loop pathname (i # input) =
     (if i \<noteq> CHR ''('' then get_path_loop (pathname @ [i]) input else pathname)"

definition get_path :: "string \<Rightarrow> string" where
  "get_path input = get_path_loop [] input"

section \<open>Lines\<close>

abbreviation newline :: char where "newline \<equiv> CHR 0x0A"

fun lines_loop :: "string \<Rightarrow> string list \<Rightarrow> string \<Rightarrow> string list" where
  "lines_loop line found [] = found"
| "lines_loop line found (i # input) =
     (if i = newline then lines_loop [] (found @ [line]) input else lines_loop (line @ [i]) found input)"

definition str2lines :: "string \<Rightarrow> string list" where
  "str2lines input = lines_loop [] [] input"

text \<open>
  \<open>operator[]\<close> of a string: the position of the size gives the terminating 0. The second test
  is made only when the first character is there and is a question mark.
\<close>

definition char_at :: "string \<Rightarrow> nat \<Rightarrow> char" where
  "char_at s k = (if k < length s then s ! k else NUL)"

fun first_useful :: "string list \<Rightarrow> string option" where
  "first_useful [] = None"
| "first_useful (i # lines) =
     (if char_at i 0 = CHR ''?'' \<and> char_at i 1 = CHR ''?'' then first_useful lines else Some i)"

definition clean_addr2line_output :: "string \<Rightarrow> string" where
  "clean_addr2line_output input =
     (case first_useful (str2lines input) of Some i \<Rightarrow> i | None \<Rightarrow> ''(no specific information)'')"

section \<open>What they compute\<close>

lemma get_path_loop_eq: "get_path_loop p input = p @ takeWhile (\<lambda>c. c \<noteq> CHR ''('') input"
  by (induction input arbitrary: p) simp_all

lemma get_path_eq: "get_path input = takeWhile (\<lambda>c. c \<noteq> CHR ''('') input"
  by (simp add: get_path_def get_path_loop_eq)

lemma get_addr_loop_skip:
  "left \<notin> set s \<Longrightarrow> get_addr_loop left right False out (s @ input) = get_addr_loop left right False out input"
  by (induction s) auto

lemma get_addr_loop_take:
  "left \<notin> set s \<Longrightarrow> right \<notin> set s \<Longrightarrow> left \<noteq> right \<Longrightarrow>
   get_addr_loop left right True out (s @ right # input) = out @ s"
  by (induction s arbitrary: out) auto

lemma get_addr_loop_none: "left \<notin> set s \<Longrightarrow> get_addr_loop left right False out s = out"
  using get_addr_loop_skip [of left s right out "[]"] by simp

lemma get_addr_loop_between:
  assumes "left \<notin> set p" and "left \<notin> set s" and "right \<notin> set s" and "left \<noteq> right"
  shows "get_addr_loop left right False out (p @ left # s @ right # input) = out @ s"
  using assms get_addr_loop_skip [of left p right out] get_addr_loop_take [of left s right out input] by simp

lemma lines_loop_line:
  "newline \<notin> set l \<Longrightarrow> lines_loop line found (l @ newline # input) = lines_loop [] (found @ [line @ l]) input"
  by (induction l arbitrary: line) auto

lemma lines_loop_rest: "newline \<notin> set l \<Longrightarrow> lines_loop line found l = found"
  by (induction l arbitrary: line) auto

lemma lines_loop_concat:
  "\<forall>l\<in>set ls. newline \<notin> set l \<Longrightarrow> newline \<notin> set r \<Longrightarrow>
   lines_loop [] found (concat (map (\<lambda>l. l @ [newline]) ls) @ r) = found @ ls"
proof (induction ls arbitrary: found)
  case Nil
  then show ?case by (simp add: lines_loop_rest)
next
  case (Cons l ls)
  then show ?case using lines_loop_line [of l "[]" found] by simp
qed

text \<open>The lines of a text, without a last line that no newline ends.\<close>

lemma str2lines_concat:
  "\<forall>l\<in>set ls. newline \<notin> set l \<Longrightarrow> newline \<notin> set r \<Longrightarrow>
   str2lines (concat (map (\<lambda>l. l @ [newline]) ls) @ r) = ls"
  by (simp add: str2lines_def lines_loop_concat)

lemma first_useful_eq: "first_useful ls = List.find (\<lambda>i. take 2 i \<noteq> ''??'') ls"
proof (induction ls)
  case Nil
  then show ?case by simp
next
  case (Cons i ls)
  have "char_at i 0 = CHR ''?'' \<and> char_at i 1 = CHR ''?'' \<longleftrightarrow> take 2 i = ''??''"
    by (cases i; cases "tl i") (auto simp: char_at_def numeral_2_eq_2)
  then show ?case using Cons by simp
qed

end
