(* ===== verification/Debug_Output.thy ===== *)
theory Debug_Output
  imports Debug_Text Errors
begin

text \<open>
  What a debug build prints when an error is thrown: the place, the stack trace and the
  message of the exception. The state is the text on the two standard streams, and whether
  \<open>std::hex\<close> and \<open>std::uppercase\<close> have been left on for the error stream.
\<close>

section \<open>Streams\<close>

record console =
  cout_text :: string
  cerr_text :: string
  cerr_hex :: bool

text \<open>
  What is thrown on the way is \<open>std::runtime_error\<close>, or \<open>std::logic_error\<close> for a null string;
  its text stands for it.
\<close>

type_synonym 'a console_exec = "(console, string, 'a) exec"

text \<open>Pipe 2 is \<open>std::cerr\<close>, every other number is \<open>std::cout\<close>.\<close>

definition emit :: "int \<Rightarrow> string \<Rightarrow> unit console_exec" where
  "emit pipe s = modifyx (\<lambda>c. if pipe = 2 then c\<lparr>cerr_text := cerr_text c @ s\<rparr>
     else c\<lparr>cout_text := cout_text c @ s\<rparr>)"

definition digit :: "nat \<Rightarrow> char" where
  "digit k = ''0123456789ABCDEF'' ! k"

function digits :: "nat \<Rightarrow> nat \<Rightarrow> string" where
  "digits base n = (if base < 2 \<or> n < base then [digit n] else digits base (n div base) @ [digit (n mod base)])"
  by pat_completeness auto
termination by (relation "measure snd") auto

declare digits.simps [simp del]

text \<open>A number goes out in the base the stream was left in.\<close>

definition emit_number :: "int \<Rightarrow> nat \<Rightarrow> unit console_exec" where
  "emit_number pipe n = bindx (getx (\<lambda>c. pipe = 2 \<and> cerr_hex c)) (\<lambda>hex. emit pipe (digits (if hex then 16 else 10) n))"

definition set_hex :: "unit console_exec" where
  "set_hex = modifyx (\<lambda>c. c\<lparr>cerr_hex := True\<rparr>)"

section \<open>Running a command\<close>

text \<open>
  \<open>fgets\<close> with a buffer of 128 bytes: at most 127 characters, up to and with a newline. What
  \<open>+=\<close> appends ends at the first 0 in them.
\<close>

definition fgets_count :: "string \<Rightarrow> nat" where
  "fgets_count s = (let k = length (takeWhile (\<lambda>c. c \<noteq> newline) s) in min 127 (if k < length s then Suc k else k))"

lemma fgets_count_pos: "s \<noteq> [] \<Longrightarrow> 0 < fgets_count s"
  by (cases s) (auto simp: fgets_count_def)

function fgets_loop :: "string \<Rightarrow> string \<Rightarrow> string" where
  "fgets_loop result rest = (if rest = [] then result
     else fgets_loop (result @ c_str (take (fgets_count rest) rest)) (drop (fgets_count rest) rest))"
  by pat_completeness auto
termination
  by (relation "measure (\<lambda>(result, rest). length rest)") (simp_all add: fgets_count_pos)

declare fgets_loop.simps [simp del]

text \<open>\<open>popen\<close> gives the output of the command, or nothing when it cannot be started.\<close>

definition exec_cmd :: "(string \<Rightarrow> string option) \<Rightarrow> string \<Rightarrow> ('s, string, string) exec" where
  "exec_cmd popen cmd = (case popen cmd of None \<Rightarrow> throw ''popen() failed!'' | Some text \<Rightarrow> ret (fgets_loop [] text))"

definition check_addr2line :: "(string \<Rightarrow> int) \<Rightarrow> bool" where
  "check_addr2line system \<longleftrightarrow> system ''addr2line --help >/dev/null 2>/dev/null'' = 0"

section \<open>The current time\<close>

text \<open>
  The clock counts nanoseconds from the epoch; \<open>to_time_t\<close> rounds towards 0 to seconds. A time
  whose year does not fit has no text: \<open>ctime\<close> gives a null pointer, and
  the \<open>std::string\<close> of the GNU library throws.
\<close>

definition to_time_t :: "int \<Rightarrow> int" where
  "to_time_t ns = (if ns < 0 then - (- ns div 1000000000) else ns div 1000000000)"

definition current_time :: "(int \<Rightarrow> string option) \<Rightarrow> int \<Rightarrow> ('s, string, string) exec" where
  "current_time ctime ns = (case ctime (to_time_t ns) of
       None \<Rightarrow> throw ''basic_string: construction from null is not valid''
     | Some text \<Rightarrow> ret text)"

section \<open>Stack traces\<close>

record debug_flags =
  is_addr2line_available :: bool
  is_time_enabled :: bool
  disable_output :: bool

definition BACKTRACE_SZ :: nat where "BACKTRACE_SZ = 64"

fun frame_loop :: "debug_flags \<Rightarrow> (string \<Rightarrow> string option) \<Rightarrow> int \<Rightarrow> string list \<Rightarrow> unit console_exec" where
  "frame_loop flags popen pipe [] = ret ()"
| "frame_loop flags popen pipe (s # ss) =
     bindx (emit pipe (CHR 0x09 # s)) (\<lambda>_.
     bindx (if is_addr2line_available flags then
              bindx (emit pipe '' '') (\<lambda>_.
              bindx (exec_cmd popen (''addr2line a -f -p -e '' @ get_path s @ '' '' @ get_addr s)) (\<lambda>r.
              emit pipe (clean_addr2line_output r)))
            else ret ()) (\<lambda>_.
     bindx (emit pipe [newline]) (\<lambda>_. frame_loop flags popen pipe ss)))"

text \<open>
  \<open>stack\<close> is the text of every frame; \<open>backtrace\<close> keeps 64, and \<open>backtrace_symbols\<close> gives
  nothing when \<open>symbols_ok\<close> is false. \<open>ns\<close> is the time on the clock.
\<close>

definition obtain_stack_frame ::
    "debug_flags \<Rightarrow> (string \<Rightarrow> string option) \<Rightarrow> (int \<Rightarrow> string option) \<Rightarrow> int \<Rightarrow> bool \<Rightarrow> string list \<Rightarrow> int \<Rightarrow>
     unit console_exec" where
  "obtain_stack_frame flags popen ctime ns symbols_ok stack pipe =
     (if disable_output flags then ret ()
      else
      bindx (if is_time_enabled flags then
               bindx (emit pipe [newline]) (\<lambda>_. bindx (current_time ctime ns) (emit pipe))
             else ret ()) (\<lambda>_.
      if symbols_ok then
        bindx (emit pipe (''Obtained stack frame(s):'' @ [newline])) (\<lambda>_.
        bindx (frame_loop flags popen pipe (take BACKTRACE_SZ stack)) (\<lambda>_.
        emit pipe [newline, newline]))
      else ret ()))"

definition function_info :: "debug_flags \<Rightarrow> string \<Rightarrow> nat \<Rightarrow> string \<Rightarrow> int \<Rightarrow> unit console_exec" where
  "function_info flags file_name line function_name pipe =
     (if disable_output flags then ret ()
      else
      bindx (emit pipe (newline # ''From '' @ file_name @ '':'')) (\<lambda>_.
      bindx (emit_number pipe line) (\<lambda>_.
      emit pipe ('': '' @ function_name @ '': ''))))"

text \<open>\<open>INSTANCE\<close>: a message in yellow on the output stream, whatever the flags are.\<close>

definition instance_message :: "string \<Rightarrow> unit console_exec" where
  "instance_message msg = bindx (emit 1 (CHR 0x1B # ''[01;33m'')) (\<lambda>_. bindx (emit 1 msg) (\<lambda>_.
     emit 1 (CHR 0x1B # ''[0m'' @ [newline])))"

section \<open>Throwing an error\<close>

definition output_error_message :: "(nat \<Rightarrow> string) \<Rightarrow> HTMPFS_error \<Rightarrow> unit console_exec" where
  "output_error_message strerror e =
     bindx (emit 2 ''HTMPFS error: 0x'') (\<lambda>_.
     bindx set_hex (\<lambda>_.
     bindx (emit_number 2 (error_code e)) (\<lambda>_.
     emit 2 ('' ('' @ what e @ '')'' @ [newline] @ ''System error: '' @ strerror (my_errno e) @ [newline]
       @ ''User specified information: '' @ err_info e @ [newline]))))"

text \<open>The constructor in a debug build: the message goes out before the errno is filled in.\<close>

definition construct_error :: "debug_flags \<Rightarrow> (nat \<Rightarrow> string) \<Rightarrow> nat \<Rightarrow> string \<Rightarrow> HTMPFS_error console_exec" where
  "construct_error flags strerror code msg =
     (let e = \<lparr>error_code = code mod 2 ^ 32, my_errno = 0, err_info = msg\<rparr> in
      bindx (if \<not> disable_output flags then
               bindx (emit 2 (''HTMPFS Error thrown'' @ [newline])) (\<lambda>_. output_error_message strerror e)
             else ret ()) (\<lambda>_. ret (fill_out_errno e)))"

text \<open>\<open>THROW_HTMPFS_ERROR\<close>: what it gives is the exception that is thrown.\<close>

definition throw_htmpfs_error ::
    "debug_flags \<Rightarrow> (string \<Rightarrow> string option) \<Rightarrow> (nat \<Rightarrow> string) \<Rightarrow> (int \<Rightarrow> string option) \<Rightarrow> int \<Rightarrow>
     bool \<Rightarrow> string list \<Rightarrow> string \<Rightarrow> nat \<Rightarrow> string \<Rightarrow> int \<Rightarrow> nat \<Rightarrow> string \<Rightarrow> HTMPFS_error console_exec" where
  "throw_htmpfs_error flags popen strerror ctime ns symbols_ok stack file_name line function_name pipe code msg =
     bindx (function_info flags file_name line function_name pipe) (\<lambda>_.
     bindx (obtain_stack_frame flags popen ctime ns symbols_ok stack pipe) (\<lambda>_.
     construct_error flags strerror code msg))"

section \<open>What is printed\<close>

lemma fgets_loop_eq: "NUL \<notin> set rest \<Longrightarrow> fgets_loop result rest = result @ rest"
proof (induction result rest rule: fgets_loop.induct)
  case (1 result rest)
  have "NUL \<notin> set (take (fgets_count rest) rest)" "NUL \<notin> set (drop (fgets_count rest) rest)"
    using 1(2) by (auto dest: in_set_takeD in_set_dropD)
  then show ?case using 1 by (simp add: fgets_loop.simps [of result rest] c_str_same)
qed

text \<open>
  A frame as \<open>backtrace_symbols\<close> writes it: the object file, the function, the offset in it,
  and the address.
\<close>

type_synonym frame = "string \<times> string \<times> string \<times> string"

fun symbol_text :: "frame \<Rightarrow> string" where
  "symbol_text (elf, function_name, off, ad) = elf @ ''('' @ function_name @ ''+'' @ off @ '') ['' @ ad @ '']''"

fun frame_ok :: "frame \<Rightarrow> bool" where
  "frame_ok (elf, function_name, off, ad) \<longleftrightarrow> CHR ''('' \<notin> set elf \<and> CHR ''+'' \<notin> set (elf @ function_name @ off)
     \<and> CHR '')'' \<notin> set off \<and> CHR ''['' \<notin> set (elf @ function_name @ off @ ad) \<and> CHR '']'' \<notin> set ad"

lemma symbol_parts:
  assumes "frame_ok (elf, f, off, ad)"
  shows "get_path (symbol_text (elf, f, off, ad)) = elf" and "get_addr (symbol_text (elf, f, off, ad)) = off @ ad"
proof -
  let ?s = "symbol_text (elf, f, off, ad)"
  show "get_path ?s = elf" using assms unfolding get_path_eq symbol_text.simps by (subst takeWhile_append2) auto
  have "get_addr_loop CHR ''+'' CHR '')'' False [] ?s = [] @ off"
    using assms get_addr_loop_between [of "CHR ''+''" "elf @ ''('' @ f" off "CHR '')''" "[]" "'' ['' @ ad @ '']''"] by simp
  moreover have "get_addr_loop CHR ''['' CHR '']'' False off ?s = off @ ad"
    using assms get_addr_loop_between [of "CHR ''[''" "elf @ ''('' @ f @ ''+'' @ off @ '') ''" ad "CHR '']''" off "[]"] by simp
  ultimately show "get_addr ?s = off @ ad" by (simp add: get_addr_def)
qed

text \<open>
  What is shown of an answer of \<open>addr2line\<close>, given as its lines: the first one that does not
  begin with two question marks.
\<close>

definition shown :: "string list \<Rightarrow> string" where
  "shown ls = (case filter (\<lambda>l. take 2 l \<noteq> ''??'') ls of [] \<Rightarrow> ''(no specific information)'' | l # _ \<Rightarrow> l)"

lemma clean_lines: "\<forall>l\<in>set ls. newline \<notin> set l \<Longrightarrow> clean_addr2line_output (concat (map (\<lambda>l. l @ [newline]) ls)) = shown ls"
proof -
  assume l: "\<forall>l\<in>set ls. newline \<notin> set l"
  have f: "(case List.find P ls of Some i \<Rightarrow> i | None \<Rightarrow> d) = (case filter P ls of [] \<Rightarrow> d | l # _ \<Rightarrow> l)" for P and d :: string
    by (induction ls) simp_all
  show ?thesis using str2lines_concat [OF l, of "[]"] by (simp add: clean_addr2line_output_def first_useful_eq shown_def f)
qed

text \<open>\<open>popen\<close> answers the command for a frame with the lines \<open>says\<close> for the frame.\<close>

fun answered :: "(string \<Rightarrow> string option) \<Rightarrow> (frame \<Rightarrow> string list) \<Rightarrow> frame \<Rightarrow> bool" where
  "answered popen says (elf, function_name, off, ad) \<longleftrightarrow>
     popen (''addr2line a -f -p -e '' @ elf @ '' '' @ off @ ad)
       = Some (concat (map (\<lambda>l. l @ [newline]) (says (elf, function_name, off, ad)))) \<and>
     (\<forall>l\<in>set (says (elf, function_name, off, ad)). newline \<notin> set l \<and> NUL \<notin> set l)"

lemma exec_cmd_eq: "popen cmd = Some text \<Longrightarrow> NUL \<notin> set text \<Longrightarrow> exec_cmd popen cmd s = (Inr text, s)"
  by (simp add: exec_cmd_def fgets_loop_eq ret_app)

definition frame_line :: "debug_flags \<Rightarrow> (frame \<Rightarrow> string list) \<Rightarrow> frame \<Rightarrow> string" where
  "frame_line flags says fr = CHR 0x09 # symbol_text fr
     @ (if is_addr2line_available flags then '' '' @ shown (says fr) else []) @ [newline]"

lemma emit_err: "emit 2 s c = (Inr (), c\<lparr>cerr_text := cerr_text c @ s\<rparr>)"
  by (simp add: emit_def modifyx_app)

lemma frame_loop_eq:
  "\<forall>fr\<in>set frs. frame_ok fr \<and> answered popen says fr \<Longrightarrow>
   frame_loop flags popen 2 (map symbol_text frs) c
     = (Inr (), c\<lparr>cerr_text := cerr_text c @ concat (map (frame_line flags says) frs)\<rparr>)"
proof (induction frs arbitrary: c)
  case (Cons fr frs)
  obtain elf f off ad where fr: "fr = (elf, f, off, ad)" by (cases fr)
  have ok: "frame_ok (elf, f, off, ad)" "answered popen says (elf, f, off, ad)" using Cons.prems fr by auto
  have "exec_cmd popen (''addr2line a -f -p -e '' @ elf @ '' '' @ off @ ad) c'
      = (Inr (concat (map (\<lambda>l. l @ [newline]) (says fr))), c')" for c' :: console
    using ok(2) fr by (intro exec_cmd_eq) auto
  moreover have "clean_addr2line_output (concat (map (\<lambda>l. l @ [newline]) (says fr))) = shown (says fr)"
    using ok(2) fr by (intro clean_lines) simp
  ultimately show ?case
    using Cons symbol_parts [OF ok(1)] fr by (simp add: exec_simps emit_err frame_line_def)
qed (simp add: exec_simps)

lemma obtain_stack_frame_eq:
  assumes "\<forall>fr\<in>set (take 64 frs). frame_ok fr \<and> answered popen says fr"
    and "\<not> disable_output flags" and "0 \<le> ns" and "ctime (ns div 1000000000) = Some now"
  shows "obtain_stack_frame flags popen ctime ns True (map symbol_text frs) 2 c
     = (Inr (), c\<lparr>cerr_text := cerr_text c @ (if is_time_enabled flags then newline # now else [])
         @ ''Obtained stack frame(s):'' @ [newline]
         @ concat (map (frame_line flags says) (take 64 frs)) @ [newline, newline]\<rparr>)"
  using frame_loop_eq [OF assms(1)] assms(2-4)
  by (simp add: obtain_stack_frame_def current_time_def to_time_t_def BACKTRACE_SZ_def exec_simps emit_err take_map)

lemma function_info_eq:
  "\<not> disable_output flags \<Longrightarrow> function_info flags file_name line function_name 2 c = (Inr (), c\<lparr>cerr_text := cerr_text c
     @ newline # ''From '' @ file_name @ '':'' @ digits (if cerr_hex c then 16 else 10) line @ '': '' @ function_name @ '': ''\<rparr>)"
  by (simp add: function_info_def emit_number_def exec_simps emit_err)

lemma construct_error_eq:
  "\<not> disable_output flags \<Longrightarrow> construct_error flags strerror (err_value e) msg c
     = (Inr (new_error (err_value e) msg), c\<lparr>cerr_text := cerr_text c @ ''HTMPFS Error thrown'' @ [newline]
          @ ''HTMPFS error: 0x'' @ digits 16 (err_value e) @ '' ('' @ what (new_error (err_value e) msg) @ '')'' @ [newline]
          @ ''System error: '' @ strerror 0 @ [newline] @ ''User specified information: '' @ msg @ [newline],
        cerr_hex := True\<rparr>)"
  unfolding construct_error_def new_error_def err_value_32
  by (simp add: output_error_message_def set_hex_def emit_number_def exec_simps emit_err what_fill_out_errno)

lemma construct_error_quiet:
  "disable_output flags \<Longrightarrow> construct_error flags strerror code msg c = (Inr (new_error code msg), c)"
  by (simp add: construct_error_def exec_simps new_error_def)

end
