(* ===== verification/Path_Map.thy ===== *)
theory Path_Map
  imports Fs_Map Fuse_Contents "HOL-Library.Sublist"
begin

text \<open>
  The file system as a map from paths: what a user of the mounted directory sees. A volume
  is a tree of directories and files with their bytes; inode numbers, blocks, versions of
  blocks and the bytes of directories are gone.
\<close>

section \<open>Following names\<close>

datatype node = Directory | Regular data_t

type_synonym tree = "string list \<Rightarrow> node option"
type_synonym volumes = "string \<Rightarrow> tree option"

text \<open>The inode that a path leads to, in a relation \<open>c\<close> of directories to their entries.\<close>

primrec follow :: "(nat \<Rightarrow> string \<Rightarrow> nat option) \<Rightarrow> string list \<Rightarrow> nat \<Rightarrow> nat option" where
  "follow c [] k = Some k"
| "follow c (n # p) k = (case c k n of None \<Rightarrow> None | Some t \<Rightarrow> follow c p t)"

lemma follow_append: "follow c (p @ q) k = (case follow c p k of None \<Rightarrow> None | Some d \<Rightarrow> follow c q d)"
  by (induction p arbitrary: k) (auto split: option.splits)

lemma follow_snoc: "follow c (p @ [n]) k = (case follow c p k of None \<Rightarrow> None | Some d \<Rightarrow> c d n)"
  by (simp add: follow_append split: option.splits)

lemma resolve_follow: "resolve fs v p k = Inr t \<longleftrightarrow> follow (child fs v) p k = Some t"
proof (induction p arbitrary: k)
  case (Cons n p)
  then show ?case using child_kind [of fs v k n] by (auto split: option.splits bool.splits)
qed simp

definition rooted :: "(nat \<Rightarrow> string \<Rightarrow> nat option) \<Rightarrow> nat \<Rightarrow> bool" where
  "rooted c r \<longleftrightarrow> (\<forall>k n. c k n \<noteq> Some r) \<and> (\<forall>k n k' n' t. c k n = Some t \<and> c k' n' = Some t \<longrightarrow> k = k' \<and> n = n')"

lemma rooted_child: "fs_ok fs \<Longrightarrow> rooted (child fs v) FILESYSTEM_ROOT_INODE_NUMBER"
  using fs_okD(3) unfolding rooted_def tree_ok_def by metis

lemma follow_root: "rooted c r \<Longrightarrow> follow c p r = Some r \<Longrightarrow> p = []"
  by (cases p rule: rev_cases) (auto simp: follow_snoc rooted_def split: option.splits)

lemma follow_inj:
  assumes "rooted c r"
  shows "follow c p r = Some t \<Longrightarrow> follow c q r = Some t \<Longrightarrow> p = q"
proof (induction p arbitrary: q t rule: rev_induct)
  case Nil
  then show ?case using follow_root [OF assms, of q] by simp
next
  case (snoc n p)
  obtain d where d: "follow c p r = Some d" "c d n = Some t"
    using snoc.prems(1) by (auto simp: follow_snoc split: option.splits)
  obtain m q' where q: "q = q' @ [m]"
    using snoc.prems follow_root [OF assms, of "p @ [n]"] by (cases q rule: rev_cases) auto
  obtain e where e: "follow c q' r = Some e" "c e m = Some t"
    using snoc.prems(2) q by (auto simp: follow_snoc split: option.splits)
  have "d = e \<and> n = m" using assms d(2) e(2) unfolding rooted_def by blast
  then show ?case using snoc.IH [OF d(1)] e(1) q by simp
qed

text \<open>A new entry, an entry less, an entry moved.\<close>

lemma follow_step:
  assumes "\<And>j m. c' j m = f j m"
  shows "follow c' (q @ [x]) r = (case follow c' q r of None \<Rightarrow> None | Some d \<Rightarrow> f d x)"
  unfolding follow_snoc using assms by (auto split: option.splits)

lemma follow_add:
  assumes c: "rooted c r" and d: "follow c p r = Some d" "c d n = None"
    and k: "\<And>m. c k m = None" "k \<noteq> d"
    and c': "\<And>j m. c' j m = (if j = d \<and> m = n then Some k else c j m)"
  shows "follow c' q r = (if q = p @ [n] then Some k else follow c q r)"
proof (induction q rule: rev_induct)
  case (snoc m q)
  note st = follow_step [where f = "\<lambda>j m. if j = d \<and> m = n then Some k else c j m", OF c'] follow_snoc [of c]
  have old: "t = d \<longleftrightarrow> q = p" if "follow c q r = Some t" for t using follow_inj [OF c that, of p] d(1) that by auto
  show ?case
  proof (cases "q = p @ [n]")
    case True
    moreover have "follow c (p @ [n]) r = None" using d by (simp add: st)
    ultimately show ?thesis using snoc.IH k by (simp add: st del: append_assoc)
  next
    case False
    then have "follow c' q r = follow c q r" using snoc.IH by simp
    moreover have "q @ [m] = p @ [n] \<longleftrightarrow> q = p \<and> m = n" by simp
    moreover have "follow c q r = None \<Longrightarrow> q \<noteq> p" using d(1) by auto
    ultimately show ?thesis by (cases "follow c q r") (simp_all add: st old)
  qed
qed simp

lemma follow_remove:
  assumes c: "rooted c r" and d: "follow c p r = Some d" "c d n = Some t" and t: "\<And>m. c t m = None"
    and c': "\<And>j m. c' j m = (if j = d \<and> m = n then None else c j m)"
  shows "follow c' q r = (if q = p @ [n] then None else follow c q r)"
proof (induction q rule: rev_induct)
  case (snoc m q)
  note st = follow_step [where f = "\<lambda>j m. if j = d \<and> m = n then None else c j m", OF c'] follow_snoc [of c]
  have old: "s = d \<longleftrightarrow> q = p" if "follow c q r = Some s" for s using follow_inj [OF c that, of p] d(1) that by auto
  show ?case
  proof (cases "q = p @ [n]")
    case True
    moreover have "follow c (p @ [n]) r = Some t" using d by (simp add: st)
    ultimately show ?thesis using snoc.IH t by (simp add: st del: append_assoc)
  next
    case False
    then have "follow c' q r = follow c q r" using snoc.IH by simp
    moreover have "q @ [m] = p @ [n] \<longleftrightarrow> q = p \<and> m = n" by simp
    ultimately show ?thesis by (cases "follow c q r") (simp_all add: st d(1) old)
  qed
qed simp

lemma follow_move:
  assumes c: "rooted c r" and d1: "follow c p r = Some d1" "c d1 n = Some t" and d2: "follow c q r = Some d2"
    and leaf: "\<And>t2 x. c d2 m = Some t2 \<Longrightarrow> c t2 x = None"
    and c': "\<And>j x. c' j x = (if j = d1 \<and> x = n then None else if j = d2 \<and> x = m then Some t else c j x)"
  shows "follow c' s r = (if prefix (p @ [n]) s then None
    else if prefix (q @ [m]) s then follow c (p @ [n] @ drop (Suc (length q)) s) r else follow c s r)"
proof (induction s rule: rev_induct)
  case (snoc x s)
  note inj = follow_inj [OF c]
  note st = follow_step [where f = "\<lambda>j x. if j = d1 \<and> x = n then None else if j = d2 \<and> x = m then Some t else c j x", OF c']
  have above: "\<not> prefix (q @ [m]) p"
  proof
    assume "prefix (q @ [m]) p"
    then obtain u where u: "p = (q @ [m]) @ u" by (auto simp: prefix_def)
    then obtain t2 where t2: "c d2 m = Some t2" "follow c u t2 = Some d1"
      using d1(1) d2 by (auto simp: follow_append split: option.splits)
    then show False using leaf [OF t2(1)] d1(2) by (cases u) auto
  qed
  consider (src) "s = p" "x = n" | (below_src) "prefix (p @ [n]) s"
    | (dst) "s = q" "x = m" "\<not> prefix (p @ [n]) (s @ [x])"
    | (below_dst) "prefix (q @ [m]) s" "\<not> prefix (p @ [n]) (s @ [x])" "\<not> prefix (p @ [n]) s"
    | (other) "\<not> prefix (q @ [m]) (s @ [x])" "\<not> prefix (p @ [n]) (s @ [x])" "\<not> prefix (p @ [n]) s" "\<not> prefix (q @ [m]) s"
    by (auto simp: prefix_snoc)
  then show ?case
  proof cases
    case src
    then have "follow c' s r = Some d1" using snoc.IH above d1(1) by simp
    then show ?thesis using src by (simp add: st)
  next
    case below_src
    then show ?thesis using snoc.IH by (simp add: st)
  next
    case dst
    have "follow c' s r = Some d2" using snoc.IH dst d2 by (simp add: prefix_snoc)
    moreover have "\<not> (d2 = d1 \<and> m = n)" using inj [OF d1(1)] d2 dst by auto
    moreover have "follow c (p @ [n]) r = Some t" using d1 by (simp add: follow_snoc)
    ultimately show ?thesis using dst by (simp add: st)
  next
    case below_dst
    then obtain u where u: "s = (q @ [m]) @ u" by (auto simp: prefix_def)
    have now: "follow c' s r = follow c (p @ [n] @ u) r" using snoc.IH below_dst u by simp
    have y: "\<not> (y = d1 \<and> x = n)" "\<not> (y = d2 \<and> x = m)" if "follow c (p @ [n] @ u) r = Some y" for y
    proof -
      show "\<not> (y = d1 \<and> x = n)" using inj [OF that, of p] d1(1) by auto
      show "\<not> (y = d2 \<and> x = m)"
      proof
        assume "y = d2 \<and> x = m"
        then have "q = p @ [n] @ u" using inj [OF that, of q] d2 by simp
        then show False using below_dst(3) u by simp
      qed
    qed
    have "follow c' (s @ [x]) r = follow c ((p @ [n] @ u) @ [x]) r"
      unfolding st now follow_snoc [of c] using y by (auto split: option.splits)
    then show ?thesis using below_dst u by (simp add: prefix_snoc)
  next
    case other
    have y: "\<not> (y = d1 \<and> x = n)" "\<not> (y = d2 \<and> x = m)" if "follow c s r = Some y" for y
      using inj [OF that] d1(1) d2 other by auto
    have "follow c' (s @ [x]) r = follow c (s @ [x]) r"
      unfolding st follow_snoc [of c] using y snoc.IH other by (auto split: option.splits)
    then show ?thesis using other(1,2) by (simp only: if_False)
  qed
qed simp

section \<open>The volumes of a file system\<close>

definition node_at :: "inode_smi_t \<Rightarrow> string \<Rightarrow> nat \<Rightarrow> node option" where
  "node_at fs v k = (case (kind fs k, fs_data fs k v) of
     (Some d, Some c) \<Rightarrow> Some (if d then Directory else Regular c) | _ \<Rightarrow> None)"

definition view :: "inode_smi_t \<Rightarrow> string \<Rightarrow> tree" where
  "view fs v p = (case resolve fs v p FILESYSTEM_ROOT_INODE_NUMBER of Inl e \<Rightarrow> None | Inr k \<Rightarrow> node_at fs v k)"

definition volumes :: "inode_smi_t \<Rightarrow> volumes" where
  "volumes fs v = (if version_inodes fs v = None then None else Some (view fs v))"

lemma view_follow:
  "view fs v p = (case follow (child fs v) p FILESYSTEM_ROOT_INODE_NUMBER of None \<Rightarrow> None | Some k \<Rightarrow> node_at fs v k)"
proof (cases "resolve fs v p FILESYSTEM_ROOT_INODE_NUMBER")
  case (Inl e)
  then have "follow (child fs v) p FILESYSTEM_ROOT_INODE_NUMBER = None"
    using resolve_follow [of fs v p FILESYSTEM_ROOT_INODE_NUMBER] by (cases "follow (child fs v) p FILESYSTEM_ROOT_INODE_NUMBER") auto
  with Inl show ?thesis by (simp add: view_def)
next
  case (Inr k)
  then have "follow (child fs v) p FILESYSTEM_ROOT_INODE_NUMBER = Some k" by (simp only: resolve_follow)
  with Inr show ?thesis by (simp add: view_def)
qed

lemma node_at_cong: "kind fs' k = kind fs k \<Longrightarrow> fs_data fs' k v' = fs_data fs k v \<Longrightarrow> node_at fs' v' k = node_at fs v k"
  by (simp add: node_at_def)

lemma node_current:
  assumes "fs_ok fs"
  shows "node_at fs FILESYSTEM_CUR_MODIFIABLE_VER k = Some Directory \<longleftrightarrow> kind fs k = Some True"
    and "node_at fs FILESYSTEM_CUR_MODIFIABLE_VER k = Some (Regular c) \<longleftrightarrow> kind fs k = Some False \<and> fs_data fs k FILESYSTEM_CUR_MODIFIABLE_VER = Some c"
    and "node_at fs FILESYSTEM_CUR_MODIFIABLE_VER k = None \<longleftrightarrow> kind fs k = None"
  using current_data [OF assms, of k] by (auto simp: node_at_def kind_Some kind_inode_of split: option.splits)

lemma volumes_current: "fs_ok fs \<Longrightarrow> volumes fs FILESYSTEM_CUR_MODIFIABLE_VER = Some (view fs FILESYSTEM_CUR_MODIFIABLE_VER)"
  by (auto simp: volumes_def elim: current_list)

text \<open>The first step at which a path cannot be followed further.\<close>

fun fault :: "tree \<Rightarrow> string list \<Rightarrow> string list \<Rightarrow> htmpfs_code option" where
  "fault T p [] = None"
| "fault T p (n # q) =
     (if T p \<noteq> Some Directory then Some HTMPFS_NOT_A_DIRECTORY
      else if T (p @ [n]) = None then Some HTMPFS_NO_SUCH_FILE_OR_DIR else fault T (p @ [n]) q)"

lemma resolve_append: "resolve fs v p k = Inr d \<Longrightarrow> resolve fs v (p @ q) k = resolve fs v q d"
  by (induction p arbitrary: k) (auto split: option.splits bool.splits if_splits)

lemma view_at: "resolve fs v p FILESYSTEM_ROOT_INODE_NUMBER = Inr k \<Longrightarrow> view fs v p = node_at fs v k"
  by (simp add: view_def)

lemma view_reached:
  assumes "fs_ok fs"
  shows "view fs FILESYSTEM_CUR_MODIFIABLE_VER p \<noteq> None \<longleftrightarrow> (\<exists>k. resolve fs FILESYSTEM_CUR_MODIFIABLE_VER p FILESYSTEM_ROOT_INODE_NUMBER = Inr k)"
proof -
  have "node_at fs FILESYSTEM_CUR_MODIFIABLE_VER k \<noteq> None" if "resolve fs FILESYSTEM_CUR_MODIFIABLE_VER p FILESYSTEM_ROOT_INODE_NUMBER = Inr k" for k
    using resolve_inode [OF assms that root_inode [OF assms]] by (simp add: node_current(3) [OF assms] kind_inode_of)
  then show ?thesis by (cases "resolve fs FILESYSTEM_CUR_MODIFIABLE_VER p FILESYSTEM_ROOT_INODE_NUMBER") (simp_all add: view_def del: not_None_eq)
qed

lemma child_view:
  assumes ok: "fs_ok fs" and d: "resolve fs FILESYSTEM_CUR_MODIFIABLE_VER p FILESYSTEM_ROOT_INODE_NUMBER = Inr d"
  shows "child fs FILESYSTEM_CUR_MODIFIABLE_VER d n = None \<longleftrightarrow> view fs FILESYSTEM_CUR_MODIFIABLE_VER (p @ [n]) = None"
    and "child fs FILESYSTEM_CUR_MODIFIABLE_VER d n = Some t \<Longrightarrow> resolve fs FILESYSTEM_CUR_MODIFIABLE_VER (p @ [n]) FILESYSTEM_ROOT_INODE_NUMBER = Inr t"
proof -
  have f: "follow (child fs FILESYSTEM_CUR_MODIFIABLE_VER) p FILESYSTEM_ROOT_INODE_NUMBER = Some d" using d by (simp only: resolve_follow)
  then have "child fs FILESYSTEM_CUR_MODIFIABLE_VER d n = Some t \<longleftrightarrow> resolve fs FILESYSTEM_CUR_MODIFIABLE_VER (p @ [n]) FILESYSTEM_ROOT_INODE_NUMBER = Inr t" for t
    by (simp add: resolve_follow follow_snoc del: resolve.simps)
  then show "child fs FILESYSTEM_CUR_MODIFIABLE_VER d n = None \<longleftrightarrow> view fs FILESYSTEM_CUR_MODIFIABLE_VER (p @ [n]) = None"
    and "child fs FILESYSTEM_CUR_MODIFIABLE_VER d n = Some t \<Longrightarrow> resolve fs FILESYSTEM_CUR_MODIFIABLE_VER (p @ [n]) FILESYSTEM_ROOT_INODE_NUMBER = Inr t"
    using view_reached [OF ok, of "p @ [n]"] by (metis not_Some_eq)+
qed

lemma resolve_fault:
  assumes ok: "fs_ok fs"
  shows "resolve fs FILESYSTEM_CUR_MODIFIABLE_VER p FILESYSTEM_ROOT_INODE_NUMBER = Inr d \<Longrightarrow> fault (view fs FILESYSTEM_CUR_MODIFIABLE_VER) p q = Some c \<Longrightarrow>
    resolve fs FILESYSTEM_CUR_MODIFIABLE_VER (p @ q) FILESYSTEM_ROOT_INODE_NUMBER = Inl (HTMPFS_error_t c)"
proof (induction q arbitrary: p d)
  case (Cons n q)
  have i: "inode_of fs d \<noteq> None" using resolve_inode [OF ok Cons.prems(1) root_inode [OF ok]] .
  have nxt: "resolve fs FILESYSTEM_CUR_MODIFIABLE_VER (p @ n # q) FILESYSTEM_ROOT_INODE_NUMBER = resolve fs FILESYSTEM_CUR_MODIFIABLE_VER (n # q) d" by (rule resolve_append [OF Cons.prems(1)])
  have data: "fs_data fs d FILESYSTEM_CUR_MODIFIABLE_VER \<noteq> None" by (rule current_data [OF ok i])
  consider "kind fs d = Some False" | "kind fs d = Some True" "child fs FILESYSTEM_CUR_MODIFIABLE_VER d n = None"
    | t where "kind fs d = Some True" "child fs FILESYSTEM_CUR_MODIFIABLE_VER d n = Some t"
    using dir_or_file [OF i] by (cases "child fs FILESYSTEM_CUR_MODIFIABLE_VER d n") auto
  then show ?case
  proof cases
    case 1
    then show ?thesis using Cons.prems(2) nxt node_current(1) [OF ok, of d] by (simp add: view_at [OF Cons.prems(1)])
  next
    case 2
    then show ?thesis
      using Cons.prems(2) nxt data child_view(1) [OF ok Cons.prems(1), of n] node_current(1) [OF ok, of d] by (simp add: view_at [OF Cons.prems(1)])
  next
    case 3
    note c = child_view [OF ok Cons.prems(1), of n]
    show ?thesis
      using Cons.IH [OF c(2) [OF 3(2)]] 3 c(1) node_current(1) [OF ok, of d] Cons.prems(2) by (auto simp: view_at [OF Cons.prems(1)] split: if_splits)
  qed
qed simp

lemma fault_None:
  assumes ok: "fs_ok fs"
  shows "resolve fs FILESYSTEM_CUR_MODIFIABLE_VER p FILESYSTEM_ROOT_INODE_NUMBER = Inr d \<Longrightarrow> fault (view fs FILESYSTEM_CUR_MODIFIABLE_VER) p q = None \<longleftrightarrow> (\<exists>k. resolve fs FILESYSTEM_CUR_MODIFIABLE_VER (p @ q) FILESYSTEM_ROOT_INODE_NUMBER = Inr k)"
proof (induction q arbitrary: p d)
  case (Cons n q)
  note c = child_view [OF ok Cons.prems, of n]
  show ?case
  proof (cases "child fs FILESYSTEM_CUR_MODIFIABLE_VER d n")
    case None
    then show ?thesis using c(1) resolve_children [OF Cons.prems, of n q] by simp
  next
    case (Some t)
    then have "view fs FILESYSTEM_CUR_MODIFIABLE_VER p = Some Directory"
      using child_kind [OF Some] node_current(1) [OF ok, of d] by (simp add: view_at [OF Cons.prems])
    then show ?thesis using Cons.IH [OF c(2) [OF Some]] c(1) Some by (cases "view fs FILESYSTEM_CUR_MODIFIABLE_VER (p @ [n])") simp_all
  qed
qed simp

text \<open>Lookup in the current volume, from its root.\<close>

lemma lookup_current:
  assumes ok: "fs_ok fs"
  obtains (found) k where "fault (view fs FILESYSTEM_CUR_MODIFIABLE_VER) [] p = None" and "resolve fs FILESYSTEM_CUR_MODIFIABLE_VER p FILESYSTEM_ROOT_INODE_NUMBER = Inr k"
      and "view fs FILESYSTEM_CUR_MODIFIABLE_VER p = node_at fs FILESYSTEM_CUR_MODIFIABLE_VER k" and "inode_of fs k \<noteq> None"
    | (failed) c where "fault (view fs FILESYSTEM_CUR_MODIFIABLE_VER) [] p = Some c" and "resolve fs FILESYSTEM_CUR_MODIFIABLE_VER p FILESYSTEM_ROOT_INODE_NUMBER = Inl (HTMPFS_error_t c)"
      and "view fs FILESYSTEM_CUR_MODIFIABLE_VER p = None"
proof (cases "fault (view fs FILESYSTEM_CUR_MODIFIABLE_VER) [] p")
  case None
  then obtain k where "resolve fs FILESYSTEM_CUR_MODIFIABLE_VER p FILESYSTEM_ROOT_INODE_NUMBER = Inr k" using fault_None [OF ok, of "[]" _ p] by auto
  then show thesis using None found view_at resolve_inode [OF ok _ root_inode [OF ok]] by blast
next
  case (Some c)
  then have r: "resolve fs FILESYSTEM_CUR_MODIFIABLE_VER p FILESYSTEM_ROOT_INODE_NUMBER = Inl (HTMPFS_error_t c)" using resolve_fault [OF ok, of "[]" _ p c] by simp
  then show thesis using failed [OF Some r] by (simp add: view_def)
qed

section \<open>Volumes that keep their inodes\<close>

lemma view_version_kept:
  assumes ok: "fs_ok fs" and kept: "version_kept w fs fs'" and ok': "fs_ok fs'"
  shows "view fs' w = view fs w"
proof
  fix p
  show "view fs' w p = view fs w p"
  proof (cases "w \<in> in_versions fs FILESYSTEM_ROOT_INODE_NUMBER")
    case True
    then have r: "resolve fs' w p FILESYSTEM_ROOT_INODE_NUMBER = resolve fs w p FILESYSTEM_ROOT_INODE_NUMBER" by (rule version_kept_resolve [OF ok kept])
    have "node_at fs' w k = node_at fs w k" if "resolve fs w p FILESYSTEM_ROOT_INODE_NUMBER = Inr k" for k
      using kept resolve_in_version [OF ok that True] by (intro node_at_cong) (simp_all add: version_kept_def)
    then show ?thesis using r by (cases "resolve fs w p FILESYSTEM_ROOT_INODE_NUMBER") (simp_all add: view_def)
  next
    case False
    have same: "version_inodes fs' w = version_inodes fs w" using kept by (simp add: version_kept_def)
    have none: "view fs w p = None" if ok: "fs_ok fs" and w: "w \<notin> in_versions fs FILESYSTEM_ROOT_INODE_NUMBER" for fs
    proof -
      have "w \<noteq> FILESYSTEM_CUR_MODIFIABLE_VER" using w tree_ok_root(2) [OF fs_okD(3) [OF ok]] by auto
      then have "fs_data fs FILESYSTEM_ROOT_INODE_NUMBER w = None" using versions_okD(5) [OF fs_okD(2) [OF ok] root_inode [OF ok]] w by blast
      then have "node_at fs w FILESYSTEM_ROOT_INODE_NUMBER = None" "\<And>n. child fs w FILESYSTEM_ROOT_INODE_NUMBER n = None"
        by (auto simp: node_at_def child_def entries_def split: option.splits)
      then show ?thesis by (cases p) (simp_all add: view_follow)
    qed
    show ?thesis using none [OF ok False] none [OF ok'] False same by (simp add: in_versions_def)
  qed
qed

lemma volumes_keptI:
  assumes "fs_ok fs" and "kept {} fs fs'" and "\<And>v. v \<noteq> FILESYSTEM_CUR_MODIFIABLE_VER \<Longrightarrow> version_inodes fs' v = version_inodes fs v"
    and "view fs' FILESYSTEM_CUR_MODIFIABLE_VER = T"
  shows "volumes fs' = (volumes fs)(FILESYSTEM_CUR_MODIFIABLE_VER \<mapsto> T)"
proof
  fix v
  have ok': "fs_ok fs'" using assms(2) by (rule kept_ok)
  show "volumes fs' v = ((volumes fs)(FILESYSTEM_CUR_MODIFIABLE_VER \<mapsto> T)) v"
  proof (cases "v = FILESYSTEM_CUR_MODIFIABLE_VER")
    case True
    then show ?thesis using volumes_current [OF ok'] assms(4) by simp
  next
    case False
    then show ?thesis
      using assms(2,3) view_version_kept [OF assms(1) _ ok'] by (auto simp: volumes_def kept_def)
  qed
qed

end
