(* ===== verification/Path_Spec.thy ===== *)
theory Path_Spec
  imports Path_Map
begin

text \<open>
  What each request does, told on paths alone: the volumes before, the answer, the volumes
  after. This is the contract that \<open>Path_Refines\<close> proves of the handlers. It mentions no
  inode, no block and no directory bytes.
\<close>

section \<open>One tree\<close>

definition refuse :: "htmpfs_code \<Rightarrow> 'a \<Rightarrow> int \<times> 'a" where
  "refuse c N = (- int (errno_of c), N)"

text \<open>What lies directly below a path.\<close>

definition below :: "tree \<Rightarrow> string list \<Rightarrow> string set" where
  "below T p = {n. T (p @ [n]) \<noteq> None}"

text \<open>A new node \<open>n\<close> in the directory \<open>p\<close>.\<close>

definition add_node :: "string list \<Rightarrow> string \<Rightarrow> node \<Rightarrow> tree \<Rightarrow> int \<times> tree" where
  "add_node p n x T = (case fault T [] p of
     Some c \<Rightarrow> refuse c T
   | None \<Rightarrow>
       if list_ex bad_char n then refuse HTMPFS_INVALID_DENTRY_NAME T
       else if T p \<noteq> Some Directory then refuse HTMPFS_NOT_A_DIRECTORY T
       else if T (p @ [n]) \<noteq> None then refuse HTMPFS_DOUBLE_MKPATHNAME T
       else (0, T(p @ [n] \<mapsto> x)))"

text \<open>A file or an empty directory less.\<close>

definition remove_node :: "string list \<Rightarrow> string \<Rightarrow> tree \<Rightarrow> int \<times> tree" where
  "remove_node p n T = (case fault T [] (p @ [n]) of
     Some c \<Rightarrow> refuse c T
   | None \<Rightarrow>
       if below T (p @ [n]) \<noteq> {} then refuse HTMPFS_DIR_NOT_EMPTY T
       else (0, T(p @ [n] := None)))"

text \<open>
  The subtree at \<open>p @ [n]\<close> moves to \<open>q @ [m]\<close>, where a file or an empty directory makes way
  for it. Moved to its own place or below itself, it is gone.
\<close>

definition moved :: "string list \<Rightarrow> string list \<Rightarrow> tree \<Rightarrow> tree" where
  "moved p q T r = (if prefix p r then None
     else if prefix q r then T (p @ drop (length q) r) else T r)"

definition move_node :: "string list \<Rightarrow> string list \<Rightarrow> string \<Rightarrow> tree \<Rightarrow> int \<times> tree" where
  "move_node p q m T = (case fault T [] p of
     Some c \<Rightarrow> refuse c T
   | None \<Rightarrow> (case fault T [] q of
       Some c \<Rightarrow> refuse c T
     | None \<Rightarrow>
         if T q \<noteq> Some Directory then refuse HTMPFS_NOT_A_DIRECTORY T
         else if T (q @ [m]) \<noteq> None \<and> below T (q @ [m]) \<noteq> {} then refuse HTMPFS_DIR_NOT_EMPTY T
         else (0, moved p (q @ [m]) T)))"

text \<open>Bytes of a file. What is asked of a directory here is refused, or not asked.\<close>

definition write_node :: "string list \<Rightarrow> data_t \<Rightarrow> nat \<Rightarrow> tree \<Rightarrow> int \<times> tree" where
  "write_node p src offset T = (case fault T [] p of
     Some c \<Rightarrow> refuse c T
   | None \<Rightarrow> (case T p of
       Some (Regular c) \<Rightarrow> (int (length src), if src = [] then T else T(p \<mapsto> Regular (pwrite offset src c)))
     | _ \<Rightarrow> refuse HTMPFS_INVALID_WRITE_INVOKE T))"

definition resize_node :: "string list \<Rightarrow> nat \<Rightarrow> tree \<Rightarrow> int \<times> tree" where
  "resize_node p sz T = (case fault T [] p of
     Some c \<Rightarrow> refuse c T
   | None \<Rightarrow> (case T p of
       Some (Regular c) \<Rightarrow> (0, T(p \<mapsto> Regular (resized sz c)))
     | _ \<Rightarrow> (0, T)))"

text \<open>Truncation makes a missing file.\<close>

definition truncate_node :: "string list \<Rightarrow> string \<Rightarrow> nat \<Rightarrow> tree \<Rightarrow> int \<times> tree" where
  "truncate_node p n sz T =
     (if T (p @ [n]) = None then add_node p n (Regular (resized sz [])) T else resize_node (p @ [n]) sz T)"

section \<open>All volumes\<close>

definition on_current :: "(tree \<Rightarrow> int \<times> tree) \<Rightarrow> volumes \<Rightarrow> int \<times> volumes" where
  "on_current f N = (case N FILESYSTEM_CUR_MODIFIABLE_VER of None \<Rightarrow> (0, N) | Some T \<Rightarrow> (fst (f T), N(FILESYSTEM_CUR_MODIFIABLE_VER \<mapsto> snd (f T))))"

text \<open>The paths below \<open>/.snapshot\<close> are read-only.\<close>

fun protected :: "string list \<Rightarrow> int option" where
  "protected [] = None"
| "protected (a # q) =
     (if a \<noteq> ''.snapshot'' then None
      else (case q of
        [] \<Rightarrow> Some (- int (errno_of HTMPFS_INVALID_DENTRY_NAME))
      | v # r \<Rightarrow> if v = FILESYSTEM_CUR_MODIFIABLE_VER then None else Some (- int EROFS)))"

text \<open>A change at a path of the current volume; the root itself answers \<open>c\<close>.\<close>

definition at_entry :: "string list \<Rightarrow> htmpfs_code \<Rightarrow> (string list \<Rightarrow> string \<Rightarrow> tree \<Rightarrow> int \<times> tree) \<Rightarrow> volumes \<Rightarrow> int \<times> volumes" where
  "at_entry p c f N = (case protected p of
     Some r \<Rightarrow> (r, N)
   | None \<Rightarrow> if p = [] then refuse c N else on_current (f (butlast p) (last p)) N)"

definition take_snapshot :: "string \<Rightarrow> volumes \<Rightarrow> int \<times> volumes" where
  "take_snapshot v N = (if N v \<noteq> None then refuse HTMPFS_DOUBLE_SNAPSHOT N else (0, N(v := N FILESYSTEM_CUR_MODIFIABLE_VER)))"

definition drop_snapshot :: "string \<Rightarrow> volumes \<Rightarrow> int \<times> volumes" where
  "drop_snapshot v N = (if N v = None then refuse HTMPFS_NO_SUCH_SNAPSHOT N else (0, N(v := None)))"

definition make_directory :: "string list \<Rightarrow> volumes \<Rightarrow> int \<times> volumes" where
  "make_directory p N = (if length p = 2 \<and> hd p = ''.snapshot'' then take_snapshot (last p) N
     else at_entry p HTMPFS_INVALID_DENTRY_NAME (\<lambda>p n. add_node p n Directory) N)"

definition remove_directory :: "string list \<Rightarrow> volumes \<Rightarrow> int \<times> volumes" where
  "remove_directory p N =
     (if p \<noteq> [] \<and> last p = ''.snapshot'' then (- int EROFS, N)
      else if length p = 2 \<and> hd p = ''.snapshot'' then drop_snapshot (last p) N
      else at_entry p HTMPFS_INVALID_DENTRY_NAME remove_node N)"

definition move_path :: "string list \<Rightarrow> string list \<Rightarrow> volumes \<Rightarrow> int \<times> volumes" where
  "move_path p q N = (case protected p of
     Some r \<Rightarrow> (r, N)
   | None \<Rightarrow> (case protected q of
       Some r \<Rightarrow> (r, N)
     | None \<Rightarrow>
         if p = [] then refuse HTMPFS_INVALID_DENTRY_NAME N
         else on_current (\<lambda>T. if q = [] then (case fault T [] p of
             Some c \<Rightarrow> refuse c T | None \<Rightarrow> refuse HTMPFS_INVALID_DENTRY_NAME T)
           else move_node p (butlast q) (last q) T) N))"

text \<open>A symbolic link holds its own path, and its target must not be read-only.\<close>

definition link_path :: "string \<Rightarrow> string \<Rightarrow> volumes \<Rightarrow> int \<times> volumes" where
  "link_path path target N = (case protected (components path) of
     Some r \<Rightarrow> (r, N)
   | None \<Rightarrow> at_entry (components target) HTMPFS_INVALID_DENTRY_NAME (\<lambda>p n. add_node p n (Regular target)) N)"

section \<open>The requests\<close>

text \<open>The requests that change a tree, with their answer and the volumes after.\<close>

fun change :: "request \<Rightarrow> volumes \<Rightarrow> (int \<times> volumes) option" where
  "change (Req_mknod path mode device) N =
     Some (at_entry (components path) HTMPFS_INVALID_DENTRY_NAME (\<lambda>p n. add_node p n (Regular [])) N)"
| "change (Req_create path mode) N =
     Some (at_entry (components path) HTMPFS_INVALID_DENTRY_NAME (\<lambda>p n. add_node p n (Regular [])) N)"
| "change (Req_mkdir path mode) N = Some (make_directory (components path) N)"
| "change (Req_unlink path) N = Some (at_entry (components path) HTMPFS_CANNOT_REMOVE_ROOT remove_node N)"
| "change (Req_rmdir path) N = Some (remove_directory (components path) N)"
| "change (Req_symlink path target) N = Some (link_path path target N)"
| "change (Req_rename path name) N = Some (move_path (components path) (components name) N)"
| "change (Req_truncate path sz) N =
     Some (at_entry (components path) HTMPFS_INVALID_DENTRY_NAME (\<lambda>p n. truncate_node p n (nat sz)) N)"
| "change (Req_ftruncate path sz) N =
     Some (at_entry (components path) HTMPFS_INVALID_DENTRY_NAME (\<lambda>p n. truncate_node p n (nat sz)) N)"
| "change (Req_fallocate path mode offset len) N =
     Some (at_entry (components path) HTMPFS_INVALID_DENTRY_NAME (\<lambda>p n. resize_node (p @ [n]) (nat (offset + len))) N)"
| "change (Req_write path src sz offset) N =
     Some (at_entry (components path) HTMPFS_INVALID_WRITE_INVOKE (\<lambda>p n. write_node (p @ [n]) src (nat offset)) N)"
| "change req N = None"

text \<open>What is at a path, in the volume that the path names.\<close>

fun place :: "string list \<Rightarrow> (string \<times> string list) option" where
  "place [] = Some (FILESYSTEM_CUR_MODIFIABLE_VER, [])"
| "place (a # q) = (if a \<noteq> ''.snapshot'' then Some (FILESYSTEM_CUR_MODIFIABLE_VER, a # q)
     else (case q of [] \<Rightarrow> None | v # r \<Rightarrow> Some (v, r)))"

definition tree_at :: "volumes \<Rightarrow> string \<Rightarrow> (tree \<times> string list) option" where
  "tree_at N path = (case place (components path) of
     None \<Rightarrow> None | Some (v, p) \<Rightarrow> map_option (\<lambda>T. (T, p)) (N v))"

definition node_of :: "volumes \<Rightarrow> string \<Rightarrow> node option" where
  "node_of N path = (case tree_at N path of None \<Rightarrow> None | Some (T, p) \<Rightarrow> T p)"

text \<open>The error of a path of the current volume that leads nowhere.\<close>

definition missing :: "volumes \<Rightarrow> string \<Rightarrow> htmpfs_code option" where
  "missing N path = (case place (components path) of
     Some (v, p) \<Rightarrow> if v \<noteq> FILESYSTEM_CUR_MODIFIABLE_VER then None else (case N v of None \<Rightarrow> None | Some T \<Rightarrow> fault T [] p)
   | None \<Rightarrow> None)"

text \<open>What the requests that change nothing answer.\<close>

definition tells_node :: "volumes \<Rightarrow> string \<Rightarrow> reply \<Rightarrow> bool" where
  "tells_node N path reply \<longleftrightarrow>
     (\<forall>c. node_of N path = Some (Regular c) \<and> length c < 2 ^ 63 \<longrightarrow> (\<exists>st. reply = Attr 0 st \<and> st_size st = int (length c))) \<and>
     (\<forall>e. missing N path = Some e \<longrightarrow> (\<exists>st. reply = Attr (- int (errno_of e)) st))"

definition tells_presence :: "volumes \<Rightarrow> string \<Rightarrow> reply \<Rightarrow> bool" where
  "tells_presence N path reply \<longleftrightarrow>
     (node_of N path \<noteq> None \<longrightarrow> reply = Code 0) \<and>
     (\<forall>e. missing N path = Some e \<longrightarrow> reply = Code (- int (errno_of e)))"

definition tells_bytes :: "volumes \<Rightarrow> string \<Rightarrow> nat \<Rightarrow> nat \<Rightarrow> reply \<Rightarrow> bool" where
  "tells_bytes N path sz offset reply \<longleftrightarrow>
     (\<forall>c. node_of N path = Some (Regular c) \<and> offset < length c \<and> sz < 2 ^ 31 \<longrightarrow>
        reply = Data (int (min sz (length c - offset))) (take sz (drop offset c))) \<and>
     (\<forall>e. missing N path = Some e \<longrightarrow> reply = Data (- int (errno_of e)) [])"

definition tells_names :: "volumes \<Rightarrow> string \<Rightarrow> reply \<Rightarrow> bool" where
  "tells_names N path reply \<longleftrightarrow>
     (\<forall>T p. tree_at N path = Some (T, p) \<and> T p = Some Directory \<longrightarrow>
        (\<exists>ns. reply = Names 0 ([''.'', ''..''] @ (if path = ''/'' then [''.snapshot''] else []) @ ns)
           \<and> distinct ns \<and> set ns = below T p))"

fun answer :: "request \<Rightarrow> volumes \<Rightarrow> reply \<Rightarrow> bool" where
  "answer (Req_getattr path stbuf) N reply = tells_node N path reply"
| "answer (Req_fgetattr path stbuf) N reply = tells_node N path reply"
| "answer (Req_open path) N reply = tells_presence N path reply"
| "answer (Req_opendir path) N reply = tells_presence N path reply"
| "answer (Req_read path sz offset) N reply = tells_bytes N path sz (nat offset) reply"
| "answer (Req_readdir path) N reply = tells_names N path reply"
| "answer req N reply = True"

definition path_step :: "volumes \<Rightarrow> request \<Rightarrow> reply \<Rightarrow> volumes \<Rightarrow> bool" where
  "path_step N req reply N' \<longleftrightarrow> (case change req N of
     Some (r, M) \<Rightarrow> reply = Code r \<and> N' = M
   | None \<Rightarrow> N' = N \<and> answer req N reply)"

inductive path_steps :: "volumes \<Rightarrow> request list \<Rightarrow> reply list \<Rightarrow> volumes \<Rightarrow> bool" where
  path_Nil: "path_steps N [] [] N"
| path_Cons: "path_step N req reply M \<Longrightarrow> path_steps M reqs replies M' \<Longrightarrow> path_steps N (req # reqs) (reply # replies) M'"

end
