(* ===== verification/Path_Nodes.thy ===== *)
theory Path_Nodes
  imports Path_Spec Fuse_Effects
begin

text \<open>
  The handlers keep the contract of \<open>Path_Spec\<close>, first those that make a file, a directory
  or a snapshot volume: the volumes after a request are the ones the contract computes from
  those before, and the number returned is the one it gives.
\<close>

section \<open>What a handler yields\<close>

definition yields :: "int smi_exec \<Rightarrow> inode_smi_t \<Rightarrow> int \<times> tree \<Rightarrow> bool" where
  "yields m fs x \<longleftrightarrow> (\<exists>fs'. m fs = (Inr (fst x), fs') \<and> fs_ok fs' \<and> volumes fs' = (volumes fs)(FILESYSTEM_CUR_MODIFIABLE_VER \<mapsto> snd x))"

lemma volumes_same: "fs_ok fs \<Longrightarrow> (volumes fs)(FILESYSTEM_CUR_MODIFIABLE_VER \<mapsto> view fs FILESYSTEM_CUR_MODIFIABLE_VER) = volumes fs"
  by (rule fun_upd_idem) (simp add: volumes_current)

lemma view_cong:
  assumes "kind fs' = kind fs" and "\<And>k. fs_data fs' k v = fs_data fs k v"
  shows "view fs' v = view fs v"
proof -
  have "resolve fs' v p k = resolve fs v p k" for p k
    by (rule resolve_same [where P = "\<lambda>_. True"]) (simp_all add: assms)
  moreover have "node_at fs' v = node_at fs v" by (simp add: node_at_def assms fun_eq_iff)
  ultimately show ?thesis by (intro ext) (simp add: view_def split: sum.splits)
qed

lemma put_stat_volumes [simp]: "view (put_stat k f fs) = view fs" "volumes (put_stat k f fs) = volumes fs"
  using view_cong [of "put_stat k f fs" fs] by (simp_all add: volumes_def fun_eq_iff)

lemma yields_refuse:
  assumes "fs_ok fs'" and "volumes fs' = volumes fs" and "fs_ok fs" and "m fs = (Inl (HTMPFS_error_t c), fs')"
  shows "yields (catch_tail env m) fs (refuse c (view fs FILESYSTEM_CUR_MODIFIABLE_VER))"
  using assms catch_tail_error [of m fs c fs' env] by (simp add: yields_def refuse_def volumes_same)

lemma yields_cong: "m fs = m' fs \<Longrightarrow> yields m' fs x \<Longrightarrow> yields m fs x"
  by (simp add: yields_def)

lemma yieldsI:
  assumes "fs_ok fs" and "m fs = (Inr r, fs')" and "kept {} fs fs'"
    and "\<And>v. v \<noteq> FILESYSTEM_CUR_MODIFIABLE_VER \<Longrightarrow> version_inodes fs' v = version_inodes fs v" and "view fs' FILESYSTEM_CUR_MODIFIABLE_VER = T"
  shows "yields (catch_tail env m) fs (r, T)"
  using catch_tail_Inr [where m = m, OF assms(2), of env] volumes_keptI [OF assms(1,3-5)] kept_ok [OF assms(3)]
  by (simp add: yields_def)

text \<open>A node that keeps its kind, and its bytes if it is a file, looks the same.\<close>

lemma node_same:
  assumes "fs_ok fs" and "fs_ok fs'" and "kind fs' k = kind fs k"
    and "kind fs k = Some False \<Longrightarrow> fs_data fs' k FILESYSTEM_CUR_MODIFIABLE_VER = fs_data fs k FILESYSTEM_CUR_MODIFIABLE_VER"
  shows "node_at fs' FILESYSTEM_CUR_MODIFIABLE_VER k = node_at fs FILESYSTEM_CUR_MODIFIABLE_VER k"
proof (cases "kind fs k = Some True")
  case True
  then show ?thesis using assms(3) node_current(1) [OF assms(1)] node_current(1) [OF assms(2)] by metis
next
  case False
  then show ?thesis using assms(3,4) by (cases "kind fs k") (auto simp: node_at_def)
qed

lemma followed_inode:
  assumes "fs_ok fs" and "follow (child fs FILESYSTEM_CUR_MODIFIABLE_VER) p FILESYSTEM_ROOT_INODE_NUMBER = Some k"
  shows "inode_of fs k \<noteq> None"
  using assms resolve_inode [OF assms(1) _ root_inode [OF assms(1)]] by (simp only: resolve_follow [symmetric]) blast

section \<open>A new node\<close>

lemma make_cases:
  assumes ok: "fs_ok fs" and k: "inode_of fs d \<noteq> None" and name: "storable_name n" and space: "space_ok fs l"
  obtains (bad) "list_ex bad_char n"
    | (under_file) "\<not> list_ex bad_char n" and "kind fs d = Some False"
    | (double) t where "\<not> list_ex bad_char n" and "kind fs d = Some True" and "child fs FILESYSTEM_CUR_MODIFIABLE_VER d n = Some t"
    | (free) path where "\<not> list_ex bad_char n" and "kind fs d = Some True" and "child fs FILESYSTEM_CUR_MODIFIABLE_VER d n = None"
        and "op_ok fs (Make d n b)" and "entries fs FILESYSTEM_CUR_MODIFIABLE_VER d = Some path"
proof (cases "list_ex bad_char n \<or> kind fs d \<noteq> Some True")
  case True
  then show thesis using bad under_file dir_or_file [OF k] by blast
next
  case False
  then obtain path where e: "entries fs FILESYSTEM_CUR_MODIFIABLE_VER d = Some path" using current_entries [OF ok] by blast
  show thesis
  proof (cases "child fs FILESYSTEM_CUR_MODIFIABLE_VER d n")
    case (Some t)
    then show thesis using double False by blast
  next
    case None
    then have "dir_map path n = None" using e by (simp add: child_def)
    moreover have "valid_name n" using False name by (simp add: valid_name_def storable_name_def)
    moreover have "length (inode_pool fs) < inode_pool_max_size" using space by (simp add: space_ok_def)
    ultimately have "op_ok fs (Make d n b)" using e space_dir(1) [OF ok space e] by simp
    then show thesis using free False None e by blast
  qed
qed

lemma made_view:
  assumes ok: "fs_ok fs" and ok': "fs_ok fs'" and d: "resolve fs FILESYSTEM_CUR_MODIFIABLE_VER p FILESYSTEM_ROOT_INODE_NUMBER = Inr d" "kind fs d = Some True"
    and free: "child fs FILESYSTEM_CUR_MODIFIABLE_VER d n = None" and k: "inode_of fs k = None"
    and ch: "child fs' FILESYSTEM_CUR_MODIFIABLE_VER = (child fs FILESYSTEM_CUR_MODIFIABLE_VER)(d := (child fs FILESYSTEM_CUR_MODIFIABLE_VER d)(n \<mapsto> k))"
    and kd: "kind fs' = (kind fs)(k \<mapsto> b)"
    and dt: "\<And>m. m \<noteq> k \<Longrightarrow> m \<noteq> d \<Longrightarrow> fs_data fs' m FILESYSTEM_CUR_MODIFIABLE_VER = fs_data fs m FILESYSTEM_CUR_MODIFIABLE_VER"
    and x: "node_at fs' FILESYSTEM_CUR_MODIFIABLE_VER k = Some x"
  shows "view fs' FILESYSTEM_CUR_MODIFIABLE_VER = (view fs FILESYSTEM_CUR_MODIFIABLE_VER)(p @ [n] \<mapsto> x)"
proof
  fix q
  have ino: "kind fs k = None" using k by (simp add: kind_inode_of)
  then have none: "child fs FILESYSTEM_CUR_MODIFIABLE_VER k m = None" for m using child_kind [of fs FILESYSTEM_CUR_MODIFIABLE_VER k m] by (cases "child fs FILESYSTEM_CUR_MODIFIABLE_VER k m") auto
  have kd': "k \<noteq> d" using ino d(2) by auto
  have f: "follow (child fs FILESYSTEM_CUR_MODIFIABLE_VER) p FILESYSTEM_ROOT_INODE_NUMBER = Some d" using d(1) by (simp only: resolve_follow)
  have "follow (child fs' FILESYSTEM_CUR_MODIFIABLE_VER) q FILESYSTEM_ROOT_INODE_NUMBER = (if q = p @ [n] then Some k else follow (child fs FILESYSTEM_CUR_MODIFIABLE_VER) q FILESYSTEM_ROOT_INODE_NUMBER)"
    by (rule follow_add [OF rooted_child [OF ok] f free none kd']) (simp add: ch)
  moreover have "node_at fs' FILESYSTEM_CUR_MODIFIABLE_VER t = node_at fs FILESYSTEM_CUR_MODIFIABLE_VER t" if "follow (child fs FILESYSTEM_CUR_MODIFIABLE_VER) q FILESYSTEM_ROOT_INODE_NUMBER = Some t" for t
  proof (rule node_same [OF ok ok'])
    have t: "t \<noteq> k" using followed_inode [OF ok that] k by auto
    then show "kind fs' t = kind fs t" by (simp add: kd)
    show "fs_data fs' t FILESYSTEM_CUR_MODIFIABLE_VER = fs_data fs t FILESYSTEM_CUR_MODIFIABLE_VER" if "kind fs t = Some False"
      using dt [OF t] d(2) that by (cases "t = d") auto
  qed
  ultimately show "view fs' FILESYSTEM_CUR_MODIFIABLE_VER q = ((view fs FILESYSTEM_CUR_MODIFIABLE_VER)(p @ [n] \<mapsto> x)) q"
    using x by (simp add: view_follow split: option.splits)
qed

lemma make_yields:
  assumes ok: "fs_ok fs" and d: "resolve fs FILESYSTEM_CUR_MODIFIABLE_VER p FILESYSTEM_ROOT_INODE_NUMBER = Inr d" and name: "storable_name n" and space: "space_ok fs l"
  shows "yields (catch_tail env (make_node d n b f)) fs (add_node p n (if b then Directory else Regular []) (view fs FILESYSTEM_CUR_MODIFIABLE_VER))"
proof -
  have i: "inode_of fs d \<noteq> None" by (rule resolve_inode [OF ok d root_inode [OF ok]])
  have fault: "fault (view fs FILESYSTEM_CUR_MODIFIABLE_VER) [] p = None" using d fault_None [OF ok, of "[]" _ p] by simp
  have T: "view fs FILESYSTEM_CUR_MODIFIABLE_VER p = Some Directory \<longleftrightarrow> kind fs d = Some True" using node_current(1) [OF ok] by (simp add: view_at [OF d])
  note c = child_view(1) [OF ok d, of n]
  have refused: "yields (catch_tail env (make_node d n b f)) fs (refuse e (view fs FILESYSTEM_CUR_MODIFIABLE_VER))"
    if "make_child_dentry_under_parent d n b fs = (Inl (HTMPFS_error_t e), fs)" for e
    by (rule yields_refuse [OF ok refl ok]) (simp add: make_node_def bindx_app that)
  show ?thesis
    using ok i name space
  proof (cases rule: make_cases [where b = b])
    case bad
    then show ?thesis using refused [OF make_child_refused_name [OF bad]] fault by (simp add: add_node_def)
  next
    case under_file
    then show ?thesis using refused [OF make_child_under_file [OF under_file(2,1)]] fault T by (simp add: add_node_def)
  next
    case (double t)
    then show ?thesis
      using refused [OF make_child_refused_double [OF fs_okD(1,4) [OF ok] double(1,3)]] fault T c by (simp add: add_node_def)
  next
    case (free path)
    from make_node_ok [OF ok free(4), of f] obtain k fs' where run: "make_node d n b f fs = (Inr 0, fs')"
      and k: "inode_of fs k = None" and ok': "fs_ok fs'"
      and ch: "child fs' = (child fs)(FILESYSTEM_CUR_MODIFIABLE_VER := (child fs FILESYSTEM_CUR_MODIFIABLE_VER)(d := (child fs FILESYSTEM_CUR_MODIFIABLE_VER d)(n \<mapsto> k)))"
      and kd: "kind fs' = (kind fs)(k \<mapsto> b)" and dk: "fs_data fs' k = [FILESYSTEM_CUR_MODIFIABLE_VER \<mapsto> []]"
      and dt: "\<forall>m v. m \<noteq> k \<and> (m \<noteq> d \<or> v \<noteq> FILESYSTEM_CUR_MODIFIABLE_VER) \<longrightarrow> fs_data fs' m v = fs_data fs m v"
      and vi: "\<forall>v. v \<noteq> FILESYSTEM_CUR_MODIFIABLE_VER \<longrightarrow> version_inodes fs' v = version_inodes fs v"
      by blast
    have x: "node_at fs' FILESYSTEM_CUR_MODIFIABLE_VER k = Some (if b then Directory else Regular [])" by (simp add: node_at_def kd dk)
    have "view fs' FILESYSTEM_CUR_MODIFIABLE_VER = (view fs FILESYSTEM_CUR_MODIFIABLE_VER)(p @ [n] \<mapsto> if b then Directory else Regular [])"
      by (rule made_view [OF ok ok' d free(2,3) k _ kd _ x]) (simp_all add: ch dt)
    from yieldsI [where m = "make_node d n b f", OF ok run kept_make_node [OF ok ok' k dt kd vi] _ this, of env] vi free T c fault
    show ?thesis by (simp add: add_node_def)
  qed
qed

section \<open>From names to handlers\<close>

definition performs :: "int smi_exec \<Rightarrow> inode_smi_t \<Rightarrow> int \<times> volumes \<Rightarrow> bool" where
  "performs m fs x \<longleftrightarrow> (\<exists>fs'. m fs = (Inr (fst x), fs') \<and> fs_ok fs' \<and> volumes fs' = snd x)"

lemma performs_none: "fs_ok fs \<Longrightarrow> m fs = (Inr r, fs) \<Longrightarrow> performs m fs (r, volumes fs)"
  by (simp add: performs_def)

lemma performs_refuse:
  assumes "fs_ok fs" and "m fs = (Inl (HTMPFS_error_t c), fs)"
  shows "performs (catch_tail env m) fs (refuse c (volumes fs))"
  using assms catch_tail_error [of m fs c fs env] by (simp add: performs_def refuse_def)

lemma performs_current:
  assumes "fs_ok fs" and "yields m fs (f (view fs FILESYSTEM_CUR_MODIFIABLE_VER))"
  shows "performs m fs (on_current f (volumes fs))"
  using assms by (auto simp: performs_def yields_def on_current_def volumes_current)

lemma kernel_entry:
  assumes "kernel_path s"
  obtains (root) "s = ''/''" and "components s = []" and "protected (components s) = None"
    | (readonly) r where "protected (components s) = Some r"
        and "\<And>env m fs. catch_tail env (check_rdonly_fs s m) fs = (Inr r, fs)"
    | (plain) p n where "s = path_to_string (p @ [n])" and "components s = p @ [n]" and "protected (components s) = None"
        and "plain_path (p @ [n])" and "storable_name n"
  using assms
proof (cases rule: kernel_path_cases)
  case root
  then show thesis using that(1) by simp
next
  case entry
  have "component ''.snapshot''" by (simp add: component_def)
  then have "components s = [''.snapshot'']" using entry(2) components_path_to_string [of "[''.snapshot'']"] by simp
  moreover have "catch_tail env (check_rdonly_fs s m) fs = (Inr (- int (errno_of HTMPFS_INVALID_DENTRY_NAME)), fs)" for env m fs
    by (rule catch_tail_error) (simp add: check_rdonly_fs_def bindx_app liftx_app entry(1))
  ultimately show thesis using that(2) by simp
next
  case (version v r)
  have "component ''.snapshot''" by (simp add: component_def)
  then have "components s = ''.snapshot'' # v # r"
    using version(3,4) components_path_to_string [of "''.snapshot'' # v # r"] by simp
  then show thesis using that(2) check_rdonly_version [OF version(1,2)] version(2) by simp
next
  case (plain p n)
  have c: "components s = p @ [n]" unfolding plain(1) by (rule components_path_to_string [OF plain_pathD(1) [OF plain(2)]])
  then have "protected (components s) = None" using plain(2) by (cases p) (auto simp: plain_path_def)
  then show thesis using that(3) plain c by blast
qed

lemma performs_at_entry:
  assumes ok: "fs_ok fs" and s: "kernel_path s"
    and root: "s = ''/'' \<Longrightarrow> performs m fs (refuse c (volumes fs))"
    and ro: "\<And>r. protected (components s) = Some r \<Longrightarrow> m fs = (Inr r, fs)"
    and plain: "\<And>p n. s = path_to_string (p @ [n]) \<Longrightarrow> plain_path (p @ [n]) \<Longrightarrow> storable_name n \<Longrightarrow> yields m fs (f p n (view fs FILESYSTEM_CUR_MODIFIABLE_VER))"
  shows "performs m fs (at_entry (components s) c f (volumes fs))"
  using s
proof (cases rule: kernel_entry)
  case root
  then show ?thesis using assms(3) by (simp add: at_entry_def)
next
  case (readonly r)
  then show ?thesis using performs_none [where m = m, OF ok ro] by (simp add: at_entry_def)
next
  case (plain p n)
  have "yields m fs (f p n (view fs FILESYSTEM_CUR_MODIFIABLE_VER))" using plain assms(5) by blast
  then show ?thesis using performs_current [OF ok, of m "f p n"] plain(2,3) by (simp add: at_entry_def)
qed

lemma guarded:
  assumes "kernel_path s" and "protected (components s) = Some r"
  shows "catch_tail env (check_rdonly_fs s m) fs = (Inr r, fs)"
  using assms(1) by (cases rule: kernel_entry) (use assms(2) in auto)

lemma root_open: "check_rdonly_fs ''/'' m = m"
  by (rule check_rdonly_current [OF if_snapshot_root])

section \<open>Making nodes\<close>

text \<open>A handler that makes a node: below a missing parent it stops, else \<open>make_node\<close> runs.\<close>

lemma making_yields:
  assumes ok: "fs_ok fs" and name: "storable_name n" and space: "space_ok fs l"
    and stop: "\<And>c. resolve fs FILESYSTEM_CUR_MODIFIABLE_VER p FILESYSTEM_ROOT_INODE_NUMBER = Inl (HTMPFS_error_t c) \<Longrightarrow> m fs = (Inl (HTMPFS_error_t c), fs)"
    and make: "\<And>d. resolve fs FILESYSTEM_CUR_MODIFIABLE_VER p FILESYSTEM_ROOT_INODE_NUMBER = Inr d \<Longrightarrow> catch_tail env m fs = catch_tail env (make_node d n b f) fs"
  shows "yields (catch_tail env m) fs (add_node p n (if b then Directory else Regular []) (view fs FILESYSTEM_CUR_MODIFIABLE_VER))"
  using ok
proof (cases rule: lookup_current [where p = p])
  case (found k)
  show ?thesis
    by (rule yields_cong [where m = "catch_tail env m" and m' = "catch_tail env (make_node k n b f)", OF make [OF found(2)]])
       (rule make_yields [OF ok found(2) name space])
next
  case (failed c)
  show ?thesis using yields_refuse [where m = m, OF ok refl ok stop [OF failed(2)], of env] failed(1) by (simp add: add_node_def)
qed

lemmas parent_lookup = plain_path_rules(1) component_not_Nil under_snapshot_plain

lemma create_performs:
  assumes ok: "fs_ok fs" and s: "kernel_path s" and space: "space_ok fs l"
  shows "performs (do_create env s mode) fs
    (at_entry (components s) HTMPFS_INVALID_DENTRY_NAME (\<lambda>p n. add_node p n (Regular [])) (volumes fs))"
proof (rule performs_at_entry [OF ok s])
  show "performs (do_create env s mode) fs (refuse HTMPFS_INVALID_DENTRY_NAME (volumes fs))" if "s = ''/''"
    unfolding do_create_def that root_open
    by (rule performs_refuse [OF ok]) (simp add: bindx_app liftx_app root_pop throw_app)
  show "do_create env s mode fs = (Inr r, fs)" if "protected (components s) = Some r" for r
    unfolding do_create_def by (rule guarded [OF s that])
next
  fix p n
  assume s: "s = path_to_string (p @ [n])" and p: "plain_path (p @ [n])" and n: "storable_name n"
  show "yields (do_create env s mode) fs (add_node p n (Regular []) (view fs FILESYSTEM_CUR_MODIFIABLE_VER))"
    unfolding s do_create_def
    by (rule making_yields [where b = False, unfolded if_False, OF ok n space _ do_create_eq [OF ok p, unfolded do_create_def]])
       (simp add: plain_path_rules(3) [OF p] bindx_app liftx_app parent_lookup [OF p] plain_path_rules(2) [OF ok p])
qed

lemma mknod_performs:
  assumes ok: "fs_ok fs" and s: "kernel_path s" and space: "space_ok fs l"
  shows "performs (do_mknod env s mode device) fs
    (at_entry (components s) HTMPFS_INVALID_DENTRY_NAME (\<lambda>p n. add_node p n (Regular [])) (volumes fs))"
proof (rule performs_at_entry [OF ok s])
  show "performs (do_mknod env s mode device) fs (refuse HTMPFS_INVALID_DENTRY_NAME (volumes fs))" if "s = ''/''"
    unfolding do_mknod_def that root_open
    by (rule performs_refuse [OF ok]) (simp add: bindx_app liftx_app root_pop throw_app)
  show "do_mknod env s mode device fs = (Inr r, fs)" if "protected (components s) = Some r" for r
    unfolding do_mknod_def by (rule guarded [OF s that])
next
  fix p n
  assume s: "s = path_to_string (p @ [n])" and p: "plain_path (p @ [n])" and n: "storable_name n"
  show "yields (do_mknod env s mode device) fs (add_node p n (Regular []) (view fs FILESYSTEM_CUR_MODIFIABLE_VER))"
    unfolding s do_mknod_def
    by (rule making_yields [where b = False, unfolded if_False, OF ok n space _ do_mknod_eq [OF ok p, unfolded do_mknod_def]])
       (simp add: plain_path_rules(3) [OF p] bindx_app liftx_app parent_lookup [OF p] plain_path_rules(2) [OF ok p])
qed

lemma volume_entry:
  assumes "kernel_path s" and "length (components s) = 2 \<and> hd (components s) = ''.snapshot''"
  obtains v where "components s = [''.snapshot'', v]" and "s = path_to_string [''.snapshot'', v]" and "component v" and "v \<noteq> FILESYSTEM_CUR_MODIFIABLE_VER"
proof -
  obtain v where v: "components s = [''.snapshot'', v]"
    using assms(2) by (cases "components s"; cases "tl (components s)") auto
  then show thesis using that [of v] assms(1) components_component [of v s] by (auto simp: kernel_path_def)
qed

section \<open>Snapshot volumes\<close>

lemma snapshot_performs:
  assumes ok: "fs_ok fs" and space: "space_ok fs l"
  shows "performs (catch_tail env (bindx (create_snapshot_volume v) (\<lambda>_. ret 0))) fs (take_snapshot v (volumes fs))"
proof (cases "version_inodes fs v")
  case (Some ks)
  then have "take_snapshot v (volumes fs) = refuse HTMPFS_DOUBLE_SNAPSHOT (volumes fs)"
    by (simp add: take_snapshot_def volumes_def)
  then show ?thesis
    using performs_refuse [OF ok, where m = "bindx (create_snapshot_volume v) (\<lambda>_. ret 0)"] create_snapshot_volume_double [OF Some]
    by (simp add: bindx_app)
next
  case None
  obtain ks where cur: "version_inodes fs FILESYSTEM_CUR_MODIFIABLE_VER = Some ks" using ok by (rule current_list)
  then have vc: "v \<noteq> FILESYSTEM_CUR_MODIFIABLE_VER" using None by auto
  have "counters_ok fs" "length (snapshot_version_list fs) + 1 < 2 ^ 64" using space by (auto simp: space_ok_def)
  from create_snapshot_volume_fs_ok [OF ok cur None this] obtain fs' where run: "create_snapshot_volume v fs = (Inr (), fs')"
    and ok': "fs_ok fs'"
    and d: "fs_data fs' = (\<lambda>k. if k \<in> set ks then (fs_data fs k)(v := fs_data fs k FILESYSTEM_CUR_MODIFIABLE_VER) else fs_data fs k)"
    and vi: "version_inodes fs' = (version_inodes fs)(v \<mapsto> ks)" and kd: "kind fs' = kind fs" by blast
  have old: "view fs' w = view fs w" if "w \<noteq> v" for w by (rule view_cong [OF kd]) (simp add: d that)
  have root: "FILESYSTEM_ROOT_INODE_NUMBER \<in> set ks" using tree_ok_root(2) [OF fs_okD(3) [OF ok]] cur by (simp add: in_versions_def)
  have new: "view fs' v = view fs FILESYSTEM_CUR_MODIFIABLE_VER"
  proof
    fix p
    have "node_at fs' v k = node_at fs FILESYSTEM_CUR_MODIFIABLE_VER k" if "resolve fs FILESYSTEM_CUR_MODIFIABLE_VER p FILESYSTEM_ROOT_INODE_NUMBER = Inr k" for k
      using resolve_in_version [OF ok that] root cur by (simp add: node_at_def kd d in_versions_def)
    then show "view fs' v p = view fs FILESYSTEM_CUR_MODIFIABLE_VER p"
      using create_snapshot_resolve [OF ok cur d kd root, of p] by (simp add: view_def split: sum.splits)
  qed
  have "volumes fs' = (volumes fs)(v := volumes fs FILESYSTEM_CUR_MODIFIABLE_VER)"
    using old new vc by (auto simp: volumes_def vi cur fun_eq_iff)
  moreover have "take_snapshot v (volumes fs) = (0, (volumes fs)(v := volumes fs FILESYSTEM_CUR_MODIFIABLE_VER))"
    using None by (simp add: take_snapshot_def volumes_def)
  ultimately show ?thesis
    using ok' catch_tail_Inr [where m = "bindx (create_snapshot_volume v) (\<lambda>_. ret 0)" and s = fs] run
    by (simp add: performs_def bindx_app ret_app)
qed

lemma unsnapshot_performs:
  assumes ok: "fs_ok fs" and space: "space_ok fs l" and vc: "v \<noteq> FILESYSTEM_CUR_MODIFIABLE_VER"
  shows "performs (catch_tail env (bindx (delete_snapshot_volume v) (\<lambda>_. ret 0))) fs (drop_snapshot v (volumes fs))"
proof (cases "version_inodes fs v")
  case None
  then have "drop_snapshot v (volumes fs) = refuse HTMPFS_NO_SUCH_SNAPSHOT (volumes fs)"
    by (simp add: drop_snapshot_def volumes_def)
  then show ?thesis
    using performs_refuse [OF ok, where m = "bindx (delete_snapshot_volume v) (\<lambda>_. ret 0)"] delete_snapshot_volume_missing [OF None]
    by (simp add: bindx_app)
next
  case (Some ks)
  have "length (snapshot_version_list fs) < 2 ^ 64" using space by (auto simp: space_ok_def)
  from delete_snapshot_volume_fs_ok [OF ok Some vc this] obtain fs' where run: "delete_snapshot_volume v fs = (Inr (), fs')"
    and ok': "fs_ok fs'" and d: "\<forall>k w. w \<noteq> v \<longrightarrow> (\<exists>u. u \<noteq> v \<and> u \<in> in_versions fs k) \<longrightarrow> fs_data fs' k w = fs_data fs k w"
    and vi: "version_inodes fs' = (version_inodes fs)(v := None)"
    and kd: "\<forall>k. kind fs' k = (if in_versions fs k = {v} then None else kind fs k)" by blast
  have "version_kept w fs fs'" if "w \<noteq> v" for w
    unfolding version_kept_def
  proof (intro conjI allI impI)
    show "version_inodes fs' w = version_inodes fs w" using that by (simp add: vi)
    fix k
    assume w: "w \<in> in_versions fs k"
    then show "kind fs' k = kind fs k" using that kd by auto
    show "fs_data fs' k w = fs_data fs k w" using that w d by blast
  qed
  then have "volumes fs' = (volumes fs)(v := None)"
    using view_version_kept [OF ok _ ok'] by (auto simp: volumes_def vi fun_eq_iff)
  moreover have "drop_snapshot v (volumes fs) = (0, (volumes fs)(v := None))"
    using Some by (simp add: drop_snapshot_def volumes_def)
  ultimately show ?thesis
    using ok' catch_tail_Inr [where m = "bindx (delete_snapshot_volume v) (\<lambda>_. ret 0)" and s = fs] run
    by (simp add: performs_def bindx_app ret_app)
qed

lemma mkdir_performs:
  assumes ok: "fs_ok fs" and s: "kernel_path s" and space: "space_ok fs l"
  shows "performs (do_mkdir env s mode) fs (make_directory (components s) (volumes fs))"
proof (cases "length (components s) = 2 \<and> hd (components s) = ''.snapshot''")
  case True
  with s obtain v where v: "components s = [''.snapshot'', v]" "s = path_to_string [''.snapshot'', v]" "component v"
    by (rule volume_entry)
  have "performs (do_mkdir env s mode) fs (take_snapshot v (volumes fs))"
    unfolding v(2) using snapshot_performs [OF ok space, of env v] do_mkdir_snapshot [OF v(3), of env mode fs]
    by (simp add: performs_def)
  then show ?thesis using v(1) by (simp add: make_directory_def)
next
  case False
  have "performs (do_mkdir env s mode) fs
      (at_entry (components s) HTMPFS_INVALID_DENTRY_NAME (\<lambda>p n. add_node p n Directory) (volumes fs))"
  proof (rule performs_at_entry [OF ok s])
    show "performs (do_mkdir env s mode) fs (refuse HTMPFS_INVALID_DENTRY_NAME (volumes fs))" if "s = ''/''"
      unfolding do_mkdir_def that
      by (rule performs_refuse [OF ok]) (simp add: bindx_app liftx_app root_pop throw_app)
    show "do_mkdir env s mode fs = (Inr r, fs)" if r: "protected (components s) = Some r" for r
    proof -
      have c: "components s \<noteq> []" using r by auto
      show ?thesis
        unfolding do_mkdir_def
        by (rule trans [OF catch_tail_cong guarded [OF s r]]) (simp add: bindx_app liftx_app entry_pop [OF c] entry_name [OF c] not_volume [OF c False])
    qed
  next
    fix p n
    assume s: "s = path_to_string (p @ [n])" and p: "plain_path (p @ [n])" and n: "storable_name n"
    show "yields (do_mkdir env s mode) fs (add_node p n Directory (view fs FILESYSTEM_CUR_MODIFIABLE_VER))"
      unfolding s do_mkdir_def
      by (rule making_yields [where b = True, unfolded if_True, OF ok n space _ do_mkdir_eq [OF ok p, unfolded do_mkdir_def]])
         (simp add: plain_path_rules(3) [OF p] bindx_app liftx_app parent_lookup [OF p] plain_path_rules(2) [OF ok p])
  qed
  then show ?thesis by (simp only: make_directory_def False if_False)
qed

end
