(* ===== verification/Path_Moves.thy ===== *)
theory Path_Moves
  imports Path_Nodes
begin

text \<open>
  The contract of \<open>Path_Spec\<close> for the handlers that remove or move: \<open>do_unlink\<close>, \<open>do_rmdir\<close>
  and \<open>do_rename\<close>.
\<close>

section \<open>Removing nodes\<close>

lemma fault_append:
  "fault T q (p @ r) = (case fault T q p of Some c \<Rightarrow> Some c | None \<Rightarrow> fault T (q @ p) r)"
  by (induction p arbitrary: q) (auto split: option.splits)

lemma below_child:
  assumes "fs_ok fs" and "resolve fs FILESYSTEM_CUR_MODIFIABLE_VER p FILESYSTEM_ROOT_INODE_NUMBER = Inr k"
  shows "below (view fs FILESYSTEM_CUR_MODIFIABLE_VER) p = dom (child fs FILESYSTEM_CUR_MODIFIABLE_VER k)"
  by (simp add: below_def dom_def child_view(1) [OF assms, symmetric] del: not_None_eq)

lemma removable_below:
  assumes ok: "fs_ok fs" and k: "resolve fs FILESYSTEM_CUR_MODIFIABLE_VER p FILESYSTEM_ROOT_INODE_NUMBER = Inr k"
  shows "removable fs k \<longleftrightarrow> below (view fs FILESYSTEM_CUR_MODIFIABLE_VER) p = {}"
proof -
  have i: "inode_of fs k \<noteq> None" by (rule resolve_inode [OF ok k root_inode [OF ok]])
  show ?thesis
  proof (cases "kind fs k = Some False")
    case True
    then have "child fs FILESYSTEM_CUR_MODIFIABLE_VER k n = None" for n using child_kind [of fs FILESYSTEM_CUR_MODIFIABLE_VER k n] by (cases "child fs FILESYSTEM_CUR_MODIFIABLE_VER k n") auto
    then show ?thesis using True by (simp add: removable_def below_child [OF ok k] dom_def)
  next
    case False
    then have d: "kind fs k = Some True" using dir_or_file [OF i] by simp
    then obtain path where e: "entries fs FILESYSTEM_CUR_MODIFIABLE_VER k = Some path" by (rule current_entries [OF ok])
    have "child fs FILESYSTEM_CUR_MODIFIABLE_VER k = dir_map path" by (rule ext) (simp add: child_def e)
    then have "below (view fs FILESYSTEM_CUR_MODIFIABLE_VER) p = set (names path)" by (simp add: below_child [OF ok k] dir_map_dom)
    then show ?thesis using d e by (simp add: removable_def names_def)
  qed
qed

lemma leaf_child:
  assumes "fs_ok fs" and "removable fs t"
  shows "child fs FILESYSTEM_CUR_MODIFIABLE_VER t n = None"
  by (rule removable_no_child [OF assms(2)])

lemma removed_view:
  assumes ok: "fs_ok fs" and ok': "fs_ok fs'" and d: "resolve fs FILESYSTEM_CUR_MODIFIABLE_VER p FILESYSTEM_ROOT_INODE_NUMBER = Inr d" "child fs FILESYSTEM_CUR_MODIFIABLE_VER d n = Some t"
    and leaf: "removable fs t"
    and ch: "child fs' FILESYSTEM_CUR_MODIFIABLE_VER = (child fs FILESYSTEM_CUR_MODIFIABLE_VER)(d := (child fs FILESYSTEM_CUR_MODIFIABLE_VER d)(n := None))"
    and kd: "\<And>m. m \<noteq> t \<Longrightarrow> kind fs' m = kind fs m"
    and dt: "\<And>m. m \<noteq> t \<Longrightarrow> m \<noteq> d \<Longrightarrow> fs_data fs' m FILESYSTEM_CUR_MODIFIABLE_VER = fs_data fs m FILESYSTEM_CUR_MODIFIABLE_VER"
  shows "view fs' FILESYSTEM_CUR_MODIFIABLE_VER = (view fs FILESYSTEM_CUR_MODIFIABLE_VER)(p @ [n] := None)"
proof
  fix q
  have f: "follow (child fs FILESYSTEM_CUR_MODIFIABLE_VER) p FILESYSTEM_ROOT_INODE_NUMBER = Some d" using d(1) by (simp only: resolve_follow)
  have ft: "follow (child fs FILESYSTEM_CUR_MODIFIABLE_VER) (p @ [n]) FILESYSTEM_ROOT_INODE_NUMBER = Some t" using f d(2) by (simp add: follow_snoc)
  have "follow (child fs' FILESYSTEM_CUR_MODIFIABLE_VER) q FILESYSTEM_ROOT_INODE_NUMBER = (if q = p @ [n] then None else follow (child fs FILESYSTEM_CUR_MODIFIABLE_VER) q FILESYSTEM_ROOT_INODE_NUMBER)"
    by (rule follow_remove [OF rooted_child [OF ok] f d(2) leaf_child [OF ok leaf]]) (simp add: ch)
  moreover have "node_at fs' FILESYSTEM_CUR_MODIFIABLE_VER s = node_at fs FILESYSTEM_CUR_MODIFIABLE_VER s" if "follow (child fs FILESYSTEM_CUR_MODIFIABLE_VER) q FILESYSTEM_ROOT_INODE_NUMBER = Some s" "q \<noteq> p @ [n]" for s
  proof (rule node_same [OF ok ok'])
    have s: "s \<noteq> t" using follow_inj [OF rooted_child [OF ok] that(1), of "p @ [n]"] ft that(2) by auto
    then show "kind fs' s = kind fs s" by (rule kd)
    show "fs_data fs' s FILESYSTEM_CUR_MODIFIABLE_VER = fs_data fs s FILESYSTEM_CUR_MODIFIABLE_VER" if "kind fs s = Some False"
      using dt [OF s] child_kind [OF d(2)] that by (cases "s = d") auto
  qed
  ultimately show "view fs' FILESYSTEM_CUR_MODIFIABLE_VER q = ((view fs FILESYSTEM_CUR_MODIFIABLE_VER)(p @ [n] := None)) q"
    by (simp add: view_follow split: option.splits)
qed

lemma kept_run: "safe D m fs \<Longrightarrow> m fs = (r, fs') \<Longrightarrow> kept D fs fs'"
  by (auto simp: runs_def)

lemma remove_yields:
  assumes ok: "fs_ok fs" and d: "resolve fs FILESYSTEM_CUR_MODIFIABLE_VER p FILESYSTEM_ROOT_INODE_NUMBER = Inr d" and space: "space_ok fs l"
  shows "yields (catch_tail env (bindx (remove_child_dentry_under_parent d n) (\<lambda>_. ret 0))) fs
    (remove_node p n (view fs FILESYSTEM_CUR_MODIFIABLE_VER))"
proof -
  let ?m = "bindx (remove_child_dentry_under_parent d n) (\<lambda>_. ret 0)"
  have i: "inode_of fs d \<noteq> None" by (rule resolve_inode [OF ok d root_inode [OF ok]])
  have fault: "fault (view fs FILESYSTEM_CUR_MODIFIABLE_VER) [] p = None" using d fault_None [OF ok, of "[]" _ p] by simp
  have T: "view fs FILESYSTEM_CUR_MODIFIABLE_VER p = Some Directory \<longleftrightarrow> kind fs d = Some True" using node_current(1) [OF ok] by (simp add: view_at [OF d])
  note c = child_view [OF ok d, of n]
  have refused: "yields (catch_tail env ?m) fs (refuse e (view fs FILESYSTEM_CUR_MODIFIABLE_VER))"
    if "remove_child_dentry_under_parent d n fs = (Inl (HTMPFS_error_t e), fs)" for e
    by (rule yields_refuse [OF ok refl ok]) (simp add: bindx_app that)
  consider (under_file) "kind fs d = Some False" | (none) path where "entries fs FILESYSTEM_CUR_MODIFIABLE_VER d = Some path" "kind fs d = Some True" "child fs FILESYSTEM_CUR_MODIFIABLE_VER d n = None"
    | (some) path t where "entries fs FILESYSTEM_CUR_MODIFIABLE_VER d = Some path" "kind fs d = Some True" "child fs FILESYSTEM_CUR_MODIFIABLE_VER d n = Some t"
    using dir_or_file [OF i] current_entries [OF ok, of d] by (metis not_Some_eq)
  then show ?thesis
  proof cases
    case under_file
    then show ?thesis using refused [OF remove_child_under_file [OF under_file]] fault T by (simp add: remove_node_def fault_append)
  next
    case none
    then show ?thesis
      using refused [OF remove_child_missing [OF ok none(1,3)]] fault T c(1) by (simp add: remove_node_def fault_append)
  next
    case (some path t)
    note t = c(2) [OF some(3)]
    have found: "fault (view fs FILESYSTEM_CUR_MODIFIABLE_VER) [] (p @ [n]) = None" using t fault_None [OF ok, of "[]" _ "p @ [n]"] by simp
    show ?thesis
    proof (cases "removable fs t")
      case False
      then obtain path2 where e: "entries fs FILESYSTEM_CUR_MODIFIABLE_VER t = Some path2" "path2 \<noteq> []"
        using dir_or_file [OF resolve_inode [OF ok t root_inode [OF ok]]] current_entries [OF ok, of t]
        by (auto simp: removable_def)
      show ?thesis
        using refused [OF remove_child_not_empty [OF ok some(3) e]] found False removable_below [OF ok t]
        by (simp add: remove_node_def)
    next
      case True
      obtain ks where cur: "version_inodes fs FILESYSTEM_CUR_MODIFIABLE_VER = Some ks" using ok by (rule current_list)
      have room: "length (snapshot_version_list fs) < 2 ^ 64" using space by (simp add: space_ok_def)
      from remove_child_fs_ok [OF ok some(1,3) True space_dir(2) [OF ok space some(1)] room cur]
      obtain fs' where run: "remove_child_dentry_under_parent d n fs = (Inr (), fs')" and ok': "fs_ok fs'"
        and ch: "child fs' = (child fs)(FILESYSTEM_CUR_MODIFIABLE_VER := (child fs FILESYSTEM_CUR_MODIFIABLE_VER)(d := (child fs FILESYSTEM_CUR_MODIFIABLE_VER d)(n := None)))"
        and dt: "\<forall>m. m \<noteq> d \<and> m \<noteq> t \<longrightarrow> fs_data fs' m = fs_data fs m"
        and kd: "kind fs' = (kind fs)(t := if in_versions fs t = {FILESYSTEM_CUR_MODIFIABLE_VER} then None else kind fs t)"
        and vi: "version_inodes fs' = (version_inodes fs)(FILESYSTEM_CUR_MODIFIABLE_VER \<mapsto> remove1 t ks)" by blast
      have "view fs' FILESYSTEM_CUR_MODIFIABLE_VER = (view fs FILESYSTEM_CUR_MODIFIABLE_VER)(p @ [n] := None)"
        by (rule removed_view [OF ok ok' d some(3) True]) (simp_all add: ch kd dt)
      moreover have "kept {} fs fs'" by (rule kept_run [OF safe_remove_child [OF ok i space] run])
      moreover have "?m fs = (Inr 0, fs')" by (simp add: bindx_app run ret_app)
      ultimately have "yields (catch_tail env ?m) fs (0, (view fs FILESYSTEM_CUR_MODIFIABLE_VER)(p @ [n] := None))"
        by (intro yieldsI [OF ok, where m = ?m]) (simp_all add: vi)
      then show ?thesis using found True removable_below [OF ok t] by (simp add: remove_node_def)
    qed
  qed
qed

lemma removing_yields:
  assumes ok: "fs_ok fs" and space: "space_ok fs l"
    and stop: "\<And>c. resolve fs FILESYSTEM_CUR_MODIFIABLE_VER p FILESYSTEM_ROOT_INODE_NUMBER = Inl (HTMPFS_error_t c) \<Longrightarrow> m fs = (Inl (HTMPFS_error_t c), fs)"
    and rest: "\<And>d. resolve fs FILESYSTEM_CUR_MODIFIABLE_VER p FILESYSTEM_ROOT_INODE_NUMBER = Inr d \<Longrightarrow>
      catch_tail env m fs = catch_tail env (bindx (remove_child_dentry_under_parent d n) (\<lambda>_. ret 0)) fs"
  shows "yields (catch_tail env m) fs (remove_node p n (view fs FILESYSTEM_CUR_MODIFIABLE_VER))"
  using ok
proof (cases rule: lookup_current [where p = p])
  case (found k)
  show ?thesis
    by (rule yields_cong [where m = "catch_tail env m", OF rest [OF found(2)] remove_yields [OF ok found(2) space]])
next
  case (failed c)
  show ?thesis
    using yields_refuse [where m = m, OF ok refl ok stop [OF failed(2)], of env] failed(1)
    by (simp add: remove_node_def fault_append)
qed

lemma unlink_performs:
  assumes ok: "fs_ok fs" and s: "kernel_path s" and space: "space_ok fs l"
  shows "performs (do_unlink env s) fs (at_entry (components s) HTMPFS_CANNOT_REMOVE_ROOT remove_node (volumes fs))"
proof (rule performs_at_entry [OF ok s])
  show "performs (do_unlink env s) fs (refuse HTMPFS_CANNOT_REMOVE_ROOT (volumes fs))" if "s = ''/''"
    unfolding do_unlink_def that root_open
    by (rule performs_refuse [OF ok]) (simp add: bindx_app remove_inode_by_path_def throw_app)
  show "do_unlink env s fs = (Inr r, fs)" if "protected (components s) = Some r" for r
    unfolding do_unlink_def by (rule guarded [OF s that])
next
  fix p n
  assume s: "s = path_to_string (p @ [n])" and p: "plain_path (p @ [n])"
  show "yields (do_unlink env s) fs (remove_node p n (view fs FILESYSTEM_CUR_MODIFIABLE_VER))"
    unfolding s do_unlink_def
    by (rule removing_yields [OF ok space _ do_unlink_eq [OF ok p, unfolded do_unlink_def]])
       (simp add: plain_path_rules(3) [OF p] bindx_app remove_inode_by_path_eq [OF ok plain_pathD(1) [OF p]])
qed

lemma rmdir_performs:
  assumes ok: "fs_ok fs" and s: "kernel_path s" and space: "space_ok fs l"
  shows "performs (do_rmdir env s) fs (remove_directory (components s) (volumes fs))"
proof (cases "components s \<noteq> [] \<and> last (components s) = ''.snapshot''")
  case True
  then have "do_rmdir env s fs = (Inr (- int EROFS), fs)"
    unfolding do_rmdir_def by (intro catch_tail_Inr) (simp add: bindx_app liftx_app entry_pop SNAPSHOT_ENTRY_def ret_app)
  then show ?thesis using performs_none [where m = "do_rmdir env s", OF ok] True by (simp add: remove_directory_def)
next
  case entry: False
  show ?thesis
  proof (cases "length (components s) = 2 \<and> hd (components s) = ''.snapshot''")
    case True
    with s obtain v where v: "components s = [''.snapshot'', v]" "s = path_to_string [''.snapshot'', v]" "component v" "v \<noteq> FILESYSTEM_CUR_MODIFIABLE_VER"
      by (rule volume_entry)
    have vs: "v \<noteq> ''.snapshot''" using entry v(1) by simp
    have "performs (do_rmdir env s) fs (drop_snapshot v (volumes fs))"
      unfolding v(2) using unsnapshot_performs [OF ok space v(4), of env] do_rmdir_snapshot [OF v(3) vs, of env fs]
      by (simp add: performs_def)
    then show ?thesis using v(1) vs by (simp add: remove_directory_def)
  next
    case False
    have "performs (do_rmdir env s) fs (at_entry (components s) HTMPFS_INVALID_DENTRY_NAME remove_node (volumes fs))"
    proof (rule performs_at_entry [OF ok s])
      show "performs (do_rmdir env s) fs (refuse HTMPFS_INVALID_DENTRY_NAME (volumes fs))" if "s = ''/''"
        unfolding do_rmdir_def that
        by (rule performs_refuse [OF ok]) (simp add: bindx_app liftx_app root_pop throw_app)
      show "do_rmdir env s fs = (Inr r, fs)" if r: "protected (components s) = Some r" for r
      proof -
        have c: "components s \<noteq> []" using r by auto
        show ?thesis
          unfolding do_rmdir_def
          by (rule trans [OF catch_tail_cong guarded [OF s r]])
             (use entry c in \<open>simp add: bindx_app liftx_app entry_pop [OF c] entry_name [OF c] not_volume [OF c False] SNAPSHOT_ENTRY_def\<close>)
      qed
    next
      fix p n
      assume s': "s = path_to_string (p @ [n])" and p: "plain_path (p @ [n])"
      have "components s = p @ [n]" unfolding s' by (rule components_path_to_string [OF plain_pathD(1) [OF p]])
      then have n: "n \<noteq> ''.snapshot''" using entry by simp
      show "yields (do_rmdir env s) fs (remove_node p n (view fs FILESYSTEM_CUR_MODIFIABLE_VER))"
        unfolding s' do_rmdir_def
        by (rule removing_yields [OF ok space _ do_rmdir_eq [OF ok p n, unfolded do_rmdir_def]])
           (use n in \<open>simp add: plain_path_rules(3) [OF p] bindx_app liftx_app parent_lookup [OF p] SNAPSHOT_ENTRY_def
              remove_inode_by_path_eq [OF ok plain_pathD(1) [OF p]]\<close>)
    qed
    then show ?thesis by (simp only: remove_directory_def entry False if_False)
  qed
qed

section \<open>Moving nodes\<close>

lemma moved_view:
  assumes ok: "fs_ok fs" and ok': "fs_ok fs'" and d1: "resolve fs FILESYSTEM_CUR_MODIFIABLE_VER p FILESYSTEM_ROOT_INODE_NUMBER = Inr d1" "child fs FILESYSTEM_CUR_MODIFIABLE_VER d1 n = Some t"
    and d2: "resolve fs FILESYSTEM_CUR_MODIFIABLE_VER q FILESYSTEM_ROOT_INODE_NUMBER = Inr d2" "kind fs d2 = Some True"
    and leaf: "\<And>t2. child fs FILESYSTEM_CUR_MODIFIABLE_VER d2 m = Some t2 \<Longrightarrow> removable fs t2"
    and ch: "\<And>k x. child fs' FILESYSTEM_CUR_MODIFIABLE_VER k x = (if k = d1 \<and> x = n then None else if k = d2 \<and> x = m then Some t else child fs FILESYSTEM_CUR_MODIFIABLE_VER k x)"
    and same: "\<And>k. child fs FILESYSTEM_CUR_MODIFIABLE_VER d2 m \<noteq> Some k \<Longrightarrow> kind fs' k = kind fs k"
      "\<And>k. child fs FILESYSTEM_CUR_MODIFIABLE_VER d2 m \<noteq> Some k \<Longrightarrow> k \<noteq> d1 \<Longrightarrow> k \<noteq> d2 \<Longrightarrow> fs_data fs' k = fs_data fs k"
  shows "view fs' FILESYSTEM_CUR_MODIFIABLE_VER = moved (p @ [n]) (q @ [m]) (view fs FILESYSTEM_CUR_MODIFIABLE_VER)"
proof
  fix s
  let ?c = "child fs FILESYSTEM_CUR_MODIFIABLE_VER"
  note c = rooted_child [OF ok, of FILESYSTEM_CUR_MODIFIABLE_VER]
  have f1: "follow ?c p FILESYSTEM_ROOT_INODE_NUMBER = Some d1" and f2: "follow ?c q FILESYSTEM_ROOT_INODE_NUMBER = Some d2" using d1(1) d2(1) by (simp_all only: resolve_follow)
  have mv: "follow (child fs' FILESYSTEM_CUR_MODIFIABLE_VER) s FILESYSTEM_ROOT_INODE_NUMBER = (if prefix (p @ [n]) s then None
      else if prefix (q @ [m]) s then follow ?c (p @ [n] @ drop (Suc (length q)) s) FILESYSTEM_ROOT_INODE_NUMBER else follow ?c s FILESYSTEM_ROOT_INODE_NUMBER)"
    by (rule follow_move [OF c f1 d1(2) f2 leaf_child [OF ok leaf] ch])
  have node: "node_at fs' FILESYSTEM_CUR_MODIFIABLE_VER k = node_at fs FILESYSTEM_CUR_MODIFIABLE_VER k" if "follow ?c r FILESYSTEM_ROOT_INODE_NUMBER = Some k" "r \<noteq> q @ [m]" for r k
  proof (rule node_same [OF ok ok'])
    have k: "?c d2 m \<noteq> Some k" using follow_inj [OF c that(1), of "q @ [m]"] f2 that(2) by (auto simp: follow_snoc)
    then show "kind fs' k = kind fs k" by (rule same(1))
    show "fs_data fs' k FILESYSTEM_CUR_MODIFIABLE_VER = fs_data fs k FILESYSTEM_CUR_MODIFIABLE_VER" if "kind fs k = Some False"
      using same(2) [OF k] that child_kind [OF d1(2)] d2(2) by (cases "k = d1 \<or> k = d2") auto
  qed
  show "view fs' FILESYSTEM_CUR_MODIFIABLE_VER s = moved (p @ [n]) (q @ [m]) (view fs FILESYSTEM_CUR_MODIFIABLE_VER) s"
  proof (cases "prefix (p @ [n]) s")
    case True
    then show ?thesis by (simp add: view_follow mv moved_def)
  next
    case False
    let ?r = "if prefix (q @ [m]) s then p @ [n] @ drop (Suc (length q)) s else s"
    have r: "follow (child fs' FILESYSTEM_CUR_MODIFIABLE_VER) s FILESYSTEM_ROOT_INODE_NUMBER = follow ?c ?r FILESYSTEM_ROOT_INODE_NUMBER" using mv False by simp
    have "?r \<noteq> q @ [m]"
    proof
      assume a: "?r = q @ [m]"
      then have "prefix (q @ [m]) s" by (metis prefix_order.order_refl)
      then have "prefix (p @ [n]) (q @ [m])" using a by (metis append_assoc prefixI)
      then show False using False \<open>prefix (q @ [m]) s\<close> by (metis prefix_order.order_trans)
    qed
    then have "view fs' FILESYSTEM_CUR_MODIFIABLE_VER s = view fs FILESYSTEM_CUR_MODIFIABLE_VER ?r"
      unfolding view_follow r using node [of ?r] by (auto split: option.splits)
    then show ?thesis using False by (simp add: moved_def)
  qed
qed

lemma rename_yields:
  assumes ok: "fs_ok fs" and p: "plain_path (p @ [n])" and q: "plain_path (q @ [m])" and m: "storable_name m"
    and space: "space_ok fs l"
  shows "yields (do_rename env (path_to_string (p @ [n])) (path_to_string (q @ [m]))) fs
    (move_node (p @ [n]) q m (view fs FILESYSTEM_CUR_MODIFIABLE_VER))"
proof -
  let ?ren = "do_rename env (path_to_string (p @ [n])) (path_to_string (q @ [m]))"
  have refused: "yields ?ren fs (refuse c (view fs FILESYSTEM_CUR_MODIFIABLE_VER))" if "?ren fs = catch_tail env (throw (HTMPFS_error_t c)) fs" for c
    by (rule yields_cong [where m = ?ren, OF that yields_refuse [OF ok refl ok]]) (simp add: throw_app)
  show ?thesis
    using ok
  proof (cases rule: lookup_current [where p = "p @ [n]"])
    case (failed c)
    show ?thesis using refused [OF rename_fails(1) [OF ok p q failed(2)]] failed(1) by (simp add: move_node_def)
  next
    case (found t)
    note src = found
    obtain d1 where d1: "resolve fs FILESYSTEM_CUR_MODIFIABLE_VER p FILESYSTEM_ROOT_INODE_NUMBER = Inr d1" "child fs FILESYSTEM_CUR_MODIFIABLE_VER d1 n = Some t" using src(2) by (rule resolve_snocE)
    show ?thesis
      using ok
    proof (cases rule: lookup_current [where p = q])
      case (failed c)
      show ?thesis using refused [OF rename_fails(2) [OF ok p q src(2) failed(2)]] failed(1) src(1) by (simp add: move_node_def)
    next
      case (found d2)
      note d2 = found
      have T: "view fs FILESYSTEM_CUR_MODIFIABLE_VER q = Some Directory \<longleftrightarrow> kind fs d2 = Some True" using node_current(1) [OF ok] d2(3) by simp
      note c2 = child_view [OF ok d2(2), of m]
      have low: "removable fs t2 \<longleftrightarrow> below (view fs FILESYSTEM_CUR_MODIFIABLE_VER) (q @ [m]) = {}" if "child fs FILESYSTEM_CUR_MODIFIABLE_VER d2 m = Some t2" for t2
        by (rule removable_below [OF ok c2(2) [OF that]])
      consider "kind fs d2 = Some False" | t2 where "kind fs d2 = Some True" "child fs FILESYSTEM_CUR_MODIFIABLE_VER d2 m = Some t2" "\<not> removable fs t2"
        | "kind fs d2 = Some True" "\<And>t2. child fs FILESYSTEM_CUR_MODIFIABLE_VER d2 m = Some t2 \<Longrightarrow> removable fs t2"
        using dir_or_file [OF d2(4)] by blast
      then show ?thesis
      proof cases
        case 1
        then show ?thesis
          using refused [OF rename_fails(3) [OF ok p q src(2) d2(2) 1]] src(1) d2(1) T by (simp add: move_node_def)
      next
        case 2
        then show ?thesis
          using refused [OF rename_not_empty [OF ok p q src(2) d2(2) 2]] src(1) d2(1) T low c2(1) by (simp add: move_node_def)
      next
        case 3
        from rename_moves [OF ok p q d1 d2(2) 3 m space, of env]
        obtain fs' where r: "?ren fs = (Inr 0, fs')" and ok': "fs_ok fs'"
          and ch: "\<forall>k x. child fs' FILESYSTEM_CUR_MODIFIABLE_VER k x = (if k = d1 \<and> x = n then None else if k = d2 \<and> x = m then Some t else child fs FILESYSTEM_CUR_MODIFIABLE_VER k x)"
          and k: "\<forall>k v. v \<noteq> FILESYSTEM_CUR_MODIFIABLE_VER \<longrightarrow> fs_data fs' k v = fs_data fs k v"
            "\<forall>k v. v \<noteq> FILESYSTEM_CUR_MODIFIABLE_VER \<and> v \<in> in_versions fs k \<longrightarrow> kind fs' k = kind fs k"
          and vi: "\<forall>v. v \<noteq> FILESYSTEM_CUR_MODIFIABLE_VER \<longrightarrow> version_inodes fs' v = version_inodes fs v"
          and same: "\<forall>k. child fs FILESYSTEM_CUR_MODIFIABLE_VER d2 m \<noteq> Some k \<longrightarrow> kind fs' k = kind fs k \<and> (k \<noteq> d1 \<and> k \<noteq> d2 \<longrightarrow> fs_data fs' k = fs_data fs k)"
          by blast
        have v: "view fs' FILESYSTEM_CUR_MODIFIABLE_VER = moved (p @ [n]) (q @ [m]) (view fs FILESYSTEM_CUR_MODIFIABLE_VER)"
          by (rule moved_view [OF ok ok' d1 d2(2) 3(1)]) (use 3(2) ch same in auto)
        have "volumes fs' = (volumes fs)(FILESYSTEM_CUR_MODIFIABLE_VER \<mapsto> moved (p @ [n]) (q @ [m]) (view fs FILESYSTEM_CUR_MODIFIABLE_VER))"
          by (rule volumes_keptI [OF ok kept_rename [OF ok ok' k(1) vi k(2)] _ v]) (simp add: vi)
        then have "yields ?ren fs (0, moved (p @ [n]) (q @ [m]) (view fs FILESYSTEM_CUR_MODIFIABLE_VER))" using r ok' by (simp add: yields_def)
        moreover have "\<not> (view fs FILESYSTEM_CUR_MODIFIABLE_VER (q @ [m]) \<noteq> None \<and> below (view fs FILESYSTEM_CUR_MODIFIABLE_VER) (q @ [m]) \<noteq> {})"
          using low 3(2) c2(1) by (cases "child fs FILESYSTEM_CUR_MODIFIABLE_VER d2 m") auto
        ultimately show ?thesis using src(1) d2(1) T 3(1) by (simp add: move_node_def del: not_None_eq de_Morgan_conj)
      qed
    qed
  qed
qed

lemma rename_performs:
  assumes ok: "fs_ok fs" and s: "kernel_path s" and s': "kernel_path s'" and space: "space_ok fs l"
  shows "performs (do_rename env s s') fs (move_path (components s) (components s') (volumes fs))"
  using s
proof (cases rule: kernel_entry)
  case (readonly r)
  then have "do_rename env s s' fs = (Inr r, fs)" by (simp add: do_rename_def)
  then show ?thesis using performs_none [where m = "do_rename env s s'", OF ok] readonly(1) by (simp add: move_path_def)
next
  case root
  have open1: "check_rdonly_fs s m = m" for m using root(1) root_open by simp
  have stop: "performs (do_rename env s s') fs (refuse HTMPFS_INVALID_DENTRY_NAME (volumes fs))"
    if "\<And>m. check_rdonly_fs s' m = m"
    unfolding do_rename_def root(1) root_open that
    by (rule performs_refuse [OF ok])
       (simp add: bindx_app liftx_app root_pop throw_app get_inode_id_by_path_locate [OF ok] locate_def)
  show ?thesis
    using s'
  proof (cases rule: kernel_entry)
    case (readonly r)
    then have "do_rename env s s' fs = (Inr r, fs)" by (simp add: do_rename_def open1)
    then show ?thesis using performs_none [where m = "do_rename env s s'", OF ok] readonly(1) root(3) by (simp add: move_path_def)
  next
    case root': root
    have "check_rdonly_fs s' m = m" for m using root'(1) root_open by simp
    from stop [OF this] show ?thesis using root(2,3) root'(2,3) by (simp add: move_path_def)
  next
    case (plain q m)
    have "check_rdonly_fs s' m = m" for m unfolding plain(1) by (rule check_rdonly_current [OF plain_path_snoc [OF plain(4)]])
    from stop [OF this] show ?thesis using root(2,3) plain(2,3) by (simp add: move_path_def)
  qed
next
  case (plain p n)
  have open1: "check_rdonly_fs s m = m" for m unfolding plain(1) by (rule check_rdonly_current [OF plain_path_snoc [OF plain(4)]])
  show ?thesis
    using s'
  proof (cases rule: kernel_entry)
    case (readonly r)
    then have "do_rename env s s' fs = (Inr r, fs)" by (simp add: do_rename_def open1)
    then show ?thesis using performs_none [where m = "do_rename env s s'", OF ok] readonly(1) plain(3) by (simp add: move_path_def)
  next
    case root
    let ?f = "\<lambda>T. case fault T [] (p @ [n]) of Some c \<Rightarrow> refuse c T | None \<Rightarrow> refuse HTMPFS_INVALID_DENTRY_NAME T"
    have open2: "check_rdonly_fs s' m = m" for m using root(1) root_open by simp
    have "yields (do_rename env s s') fs (?f (view fs FILESYSTEM_CUR_MODIFIABLE_VER))"
      using ok
    proof (cases rule: lookup_current [where p = "p @ [n]"])
      case (failed c)
      have "yields (do_rename env s s') fs (refuse c (view fs FILESYSTEM_CUR_MODIFIABLE_VER))"
        unfolding do_rename_def open1 open2 unfolding plain(1)
        by (rule yields_refuse [OF ok refl ok]) (simp add: bindx_app plain_path_parent [OF ok plain(4)] failed(2))
      then show ?thesis using failed(1) by simp
    next
      case (found k)
      have "yields (do_rename env s s') fs (refuse HTMPFS_INVALID_DENTRY_NAME (view fs FILESYSTEM_CUR_MODIFIABLE_VER))"
        unfolding do_rename_def open1 open2 unfolding plain(1) root(1)
        by (rule yields_refuse [OF ok refl ok])
           (simp add: bindx_app liftx_app throw_app plain_path_parent [OF ok plain(4)] found(2) plain_path_pop [OF plain(4)] root_pop)
      then show ?thesis using found(1) by simp
    qed
    from performs_current [where f = ?f, OF ok this] show ?thesis using plain(2,3) root(2) by (simp add: move_path_def)
  next
    case plain': (plain q m)
    have "yields (do_rename env s s') fs (move_node (p @ [n]) q m (view fs FILESYSTEM_CUR_MODIFIABLE_VER))"
      unfolding plain(1) plain'(1) by (rule rename_yields [OF ok plain(4) plain'(4,5) space])
    from performs_current [where f = "move_node (p @ [n]) q m", OF ok this] show ?thesis
      using plain(2,3) plain'(2,3) by (simp add: move_path_def)
  qed
qed

end
