(* ===== verification/Path_Refines.thy ===== *)
theory Path_Refines
  imports Path_Moves
begin

text \<open>
  The contract of \<open>Path_Spec\<close> for the contents of files, for the requests that only look,
  and so for every request and every session.
\<close>

section \<open>The bytes of a file\<close>

definition bytes_set :: "nat \<Rightarrow> data_t \<Rightarrow> inode_smi_t \<Rightarrow> inode_smi_t \<Rightarrow> bool" where
  "bytes_set k c fs fs' \<longleftrightarrow> fs_ok fs' \<and> fs_data fs' = (fs_data fs)(k := (fs_data fs k)(FILESYSTEM_CUR_MODIFIABLE_VER \<mapsto> c)) \<and>
     kind fs' = kind fs \<and> version_inodes fs' = version_inodes fs \<and> child fs' = child fs"

lemma bytes_set_view:
  assumes ok: "fs_ok fs" and k: "resolve fs FILESYSTEM_CUR_MODIFIABLE_VER p FILESYSTEM_ROOT_INODE_NUMBER = Inr k" "kind fs k = Some False" and b: "bytes_set k c fs fs'"
  shows "view fs' FILESYSTEM_CUR_MODIFIABLE_VER = (view fs FILESYSTEM_CUR_MODIFIABLE_VER)(p \<mapsto> Regular c)"
proof
  fix q
  have f: "follow (child fs FILESYSTEM_CUR_MODIFIABLE_VER) p FILESYSTEM_ROOT_INODE_NUMBER = Some k" using k(1) by (simp only: resolve_follow)
  have here: "node_at fs' FILESYSTEM_CUR_MODIFIABLE_VER k = Some (Regular c)" using b k(2) by (simp add: bytes_set_def node_at_def)
  have else: "node_at fs' FILESYSTEM_CUR_MODIFIABLE_VER m = node_at fs FILESYSTEM_CUR_MODIFIABLE_VER m" if "m \<noteq> k" for m using b that by (simp add: bytes_set_def node_at_def)
  have "q = p" if "follow (child fs FILESYSTEM_CUR_MODIFIABLE_VER) q FILESYSTEM_ROOT_INODE_NUMBER = Some k" using follow_inj [OF rooted_child [OF ok] that f] .
  moreover have "child fs' = child fs" using b by (simp add: bytes_set_def)
  ultimately show "view fs' FILESYSTEM_CUR_MODIFIABLE_VER q = ((view fs FILESYSTEM_CUR_MODIFIABLE_VER)(p \<mapsto> Regular c)) q"
    using f here else by (cases "follow (child fs FILESYSTEM_CUR_MODIFIABLE_VER) q FILESYSTEM_ROOT_INODE_NUMBER") (auto simp: view_follow)
qed

lemma bytes_set_kept: "bytes_set k c fs fs' \<Longrightarrow> kept D fs fs'"
  unfolding bytes_set_def by (blast intro: kept_file)

lemma bytes_set_put_stat: "bytes_set k c (put_stat m f fs) fs' \<longleftrightarrow> bytes_set k c fs fs'"
  by (simp add: bytes_set_def)

lemma bytes_yields:
  assumes ok: "fs_ok fs" and k: "resolve fs FILESYSTEM_CUR_MODIFIABLE_VER p FILESYSTEM_ROOT_INODE_NUMBER = Inr k" "kind fs k = Some False"
    and run: "m fs = (Inr r, fs')" and b: "bytes_set k c fs fs'"
  shows "yields (catch_tail env m) fs (r, (view fs FILESYSTEM_CUR_MODIFIABLE_VER)(p \<mapsto> Regular c))"
  by (rule yieldsI [where m = m, OF ok run bytes_set_kept [OF b] _ bytes_set_view [OF ok k b]])
     (use b in \<open>simp add: bytes_set_def\<close>)

lemma truncate_bytes:
  assumes "fs_ok fs" and "kind fs k = Some False" and "file_room fs n" and "fs_data fs k FILESYSTEM_CUR_MODIFIABLE_VER = Some c"
  obtains fs' where "on_inode k (inode_truncate n) fs = (Inr (), fs')" and "bytes_set k (resized n c) fs fs'"
  using truncate_fs_ok [OF assms(1,2,4,3)] by (auto simp: bytes_set_def)

lemma link_bytes:
  assumes "fs_ok fs" and "kind fs k = Some False" and "file_room fs (length t)" and "fs_data fs k FILESYSTEM_CUR_MODIFIABLE_VER = Some []" and "t \<noteq> []"
  obtains fs' where "on_inode k (inode_write t (length t) 0 True False) fs = (Inr (length t), fs')" and "bytes_set k t fs fs'"
proof -
  have "0 < length t" using assms(5) by simp
  with write_resize_fs_ok [OF assms(1,2,4), of 0 "length t" t] assms(3) obtain fs' where
    "on_inode k (inode_write t (length t) 0 True False) fs = (Inr (length t), fs')" and "fs_ok fs'"
    "fs_data fs' = (fs_data fs)(k := (fs_data fs k)(FILESYSTEM_CUR_MODIFIABLE_VER \<mapsto> resized 0 [] @ take (length t) t))"
    "kind fs' = kind fs" "version_inodes fs' = version_inodes fs" "child fs' = child fs" by auto
  then show thesis using that by (simp add: bytes_set_def resized_def)
qed

section \<open>New files with bytes\<close>

text \<open>A child is made, its attributes are set, and bytes are put into it.\<close>

lemma new_file_yields:
  assumes ok: "fs_ok fs" and d: "resolve fs FILESYSTEM_CUR_MODIFIABLE_VER p FILESYSTEM_ROOT_INODE_NUMBER = Inr d" and name: "storable_name n" and space: "space_ok fs l"
    and fill: "\<And>k fs1. fs_ok fs1 \<Longrightarrow> kind fs1 k = Some False \<Longrightarrow> file_room fs1 l \<Longrightarrow> fs_data fs1 k FILESYSTEM_CUR_MODIFIABLE_VER = Some [] \<Longrightarrow>
      \<exists>fs2. g k fs1 = (Inr 0, fs2) \<and> bytes_set k c fs1 fs2"
  shows "yields (catch_tail env (bindx (make_child_dentry_under_parent d n False) (\<lambda>i.
      bindx (get_inode_by_id i) (\<lambda>k. bindx (on_stat k f) (\<lambda>_. g k))))) fs (add_node p n (Regular c) (view fs FILESYSTEM_CUR_MODIFIABLE_VER))"
proof -
  let ?m = "bindx (make_child_dentry_under_parent d n False) (\<lambda>i. bindx (get_inode_by_id i) (\<lambda>k. bindx (on_stat k f) (\<lambda>_. g k)))"
  have i: "inode_of fs d \<noteq> None" by (rule resolve_inode [OF ok d root_inode [OF ok]])
  have fault: "fault (view fs FILESYSTEM_CUR_MODIFIABLE_VER) [] p = None" using d fault_None [OF ok, of "[]" _ p] by simp
  have T: "view fs FILESYSTEM_CUR_MODIFIABLE_VER p = Some Directory \<longleftrightarrow> kind fs d = Some True" using node_current(1) [OF ok] by (simp add: view_at [OF d])
  note c = child_view(1) [OF ok d, of n]
  have refused: "yields (catch_tail env ?m) fs (refuse e (view fs FILESYSTEM_CUR_MODIFIABLE_VER))"
    if "make_child_dentry_under_parent d n False fs = (Inl (HTMPFS_error_t e), fs)" for e
    by (rule yields_refuse [where m = ?m, OF ok refl ok]) (simp add: bindx_app that)
  show ?thesis
    using ok i name space
  proof (cases rule: make_cases [where b = False])
    case bad
    then show ?thesis using refused [OF make_child_refused_name [OF bad]] fault by (simp add: add_node_def)
  next
    case under_file
    then show ?thesis using refused [OF make_child_under_file [OF under_file(2,1)]] fault T by (simp add: add_node_def)
  next
    case (double t)
    then show ?thesis
      using refused [OF make_child_refused_double [OF fs_okD(1,4) [OF ok] double(1,3)]] fault T c by (simp add: add_node_def)
  next
    case (free path)
    obtain k fs1 where run: "make_child_dentry_under_parent d n False fs = (Inr k, fs1)" and kept: "kept {} fs fs1" and ok1: "fs_ok fs1"
      and k: "kind fs1 k = Some False" "inode_of fs1 k \<noteq> None" "file_room fs1 l" "fs_data fs1 k FILESYSTEM_CUR_MODIFIABLE_VER = Some []"
      and new: "inode_of fs k = None" "kind fs1 = (kind fs)(k \<mapsto> False)"
      and ch: "child fs1 = (child fs)(FILESYSTEM_CUR_MODIFIABLE_VER := (child fs FILESYSTEM_CUR_MODIFIABLE_VER)(d := (child fs FILESYSTEM_CUR_MODIFIABLE_VER d)(n \<mapsto> k)))"
      and dt: "\<forall>m v. m \<noteq> k \<and> (m \<noteq> d \<or> v \<noteq> FILESYSTEM_CUR_MODIFIABLE_VER) \<longrightarrow> fs_data fs1 m v = fs_data fs m v"
      and vi: "\<forall>v. v \<noteq> FILESYSTEM_CUR_MODIFIABLE_VER \<longrightarrow> version_inodes fs1 v = version_inodes fs v"
      using made_file_tree [OF ok free(4,5) space] by blast
    have x: "node_at fs1 FILESYSTEM_CUR_MODIFIABLE_VER k = Some (Regular [])" using k by (simp add: node_at_def)
    have v1: "view fs1 FILESYSTEM_CUR_MODIFIABLE_VER = (view fs FILESYSTEM_CUR_MODIFIABLE_VER)(p @ [n] \<mapsto> Regular [])"
      by (rule made_view [OF ok ok1 d free(2,3) new(1) _ new(2) _ x]) (simp_all add: ch dt)
    have found: "resolve fs1 FILESYSTEM_CUR_MODIFIABLE_VER (p @ [n]) FILESYSTEM_ROOT_INODE_NUMBER = Inr k" by (rule make_node_visible [OF d free(3) new(1) ok1 ch new(2)])
    obtain fs2 where g: "g k (put_stat k f fs1) = (Inr 0, fs2)" and b: "bytes_set k c fs1 fs2"
      using fill [of "put_stat k f fs1" k] put_stat_ok [OF ok1] k by (auto simp: bytes_set_put_stat)
    have "?m fs = (Inr 0, fs2)"
      using run get_inode_by_id_eq [OF k(2)] on_stat_eq [OF k(2), of f] g by (simp add: bindx_app)
    moreover have "kept {} fs fs2" by (rule kept_trans [OF kept bytes_set_kept [OF b]])
    moreover have "view fs2 FILESYSTEM_CUR_MODIFIABLE_VER = (view fs FILESYSTEM_CUR_MODIFIABLE_VER)(p @ [n] \<mapsto> Regular c)"
      by (simp add: bytes_set_view [OF ok1 found k(1) b] v1)
    ultimately have "yields (catch_tail env ?m) fs (0, (view fs FILESYSTEM_CUR_MODIFIABLE_VER)(p @ [n] \<mapsto> Regular c))"
      using b vi by (intro yieldsI [where m = ?m, OF ok]) (auto simp: bytes_set_def)
    then show ?thesis using free(1,2) T c fault free(3) by (simp add: add_node_def)
  qed
qed

lemma file_making_yields:
  assumes ok: "fs_ok fs" and name: "storable_name n" and space: "space_ok fs l"
    and stop: "\<And>e. resolve fs FILESYSTEM_CUR_MODIFIABLE_VER p FILESYSTEM_ROOT_INODE_NUMBER = Inl (HTMPFS_error_t e) \<Longrightarrow> m fs = (Inl (HTMPFS_error_t e), fs)"
    and make: "\<And>d. resolve fs FILESYSTEM_CUR_MODIFIABLE_VER p FILESYSTEM_ROOT_INODE_NUMBER = Inr d \<Longrightarrow> m fs = bindx (make_child_dentry_under_parent d n False) (\<lambda>i.
      bindx (get_inode_by_id i) (\<lambda>k. bindx (on_stat k f) (\<lambda>_. g k))) fs"
    and fill: "\<And>k fs1. fs_ok fs1 \<Longrightarrow> kind fs1 k = Some False \<Longrightarrow> file_room fs1 l \<Longrightarrow> fs_data fs1 k FILESYSTEM_CUR_MODIFIABLE_VER = Some [] \<Longrightarrow>
      \<exists>fs2. g k fs1 = (Inr 0, fs2) \<and> bytes_set k c fs1 fs2"
  shows "yields (catch_tail env m) fs (add_node p n (Regular c) (view fs FILESYSTEM_CUR_MODIFIABLE_VER))"
  using ok
proof (cases rule: lookup_current [where p = p])
  case (found k)
  let ?new = "bindx (make_child_dentry_under_parent k n False) (\<lambda>i.
      bindx (get_inode_by_id i) (\<lambda>k. bindx (on_stat k f) (\<lambda>_. g k)))"
  have "m fs = ?new fs" by (rule make [OF found(2)])
  then have "catch_tail env m fs = catch_tail env ?new fs" by (rule catch_tail_cong)
  then show ?thesis by (rule yields_cong) (rule new_file_yields [OF ok found(2) name space fill])
next
  case (failed e)
  show ?thesis
    using yields_refuse [where m = m, OF ok refl ok stop [OF failed(2)], of env] failed(1) by (simp add: add_node_def)
qed

lemma any_guard:
  "protected (components s) = Some r \<Longrightarrow> catch_tail env (check_rdonly_fs s m) fs = (Inr r, fs)"
  "protected (components s) = None \<Longrightarrow> check_rdonly_fs s m = m"
proof -
  show "catch_tail env (check_rdonly_fs s m) fs = (Inr r, fs)" if p: "protected (components s) = Some r"
  proof (cases "components s")
    case (Cons a q)
    then have a: "a = ''.snapshot''" using p by (auto split: if_splits)
    show ?thesis
    proof (cases q)
      case Nil
      have "r = - int (errno_of HTMPFS_INVALID_DENTRY_NAME)" using p Cons a Nil by simp
      moreover have "if_snapshot s [] = Inl (HTMPFS_error_t HTMPFS_INVALID_DENTRY_NAME)"
        using if_snapshot_no_version Cons a Nil by simp
      ultimately show ?thesis
        using catch_tail_error [where m = "check_rdonly_fs s m"] by (simp add: check_rdonly_fs_def bindx_app liftx_app)
    next
      case (Cons v t)
      have "components s = ''.snapshot'' # v # t" using \<open>components s = a # q\<close> a Cons by simp
      moreover from this have "v \<noteq> FILESYSTEM_CUR_MODIFIABLE_VER" "r = - int EROFS" using p by (auto split: if_splits)
      ultimately show ?thesis using check_rdonly_version [OF if_snapshot_version] by simp
    qed
  qed (use p in simp)
  show "check_rdonly_fs s m = m" if p: "protected (components s) = None"
  proof -
    have "\<exists>q. if_snapshot s [] = Inr (FILESYSTEM_CUR_MODIFIABLE_VER, q)"
    proof (cases "components s")
      case Nil
      then show ?thesis by (simp add: if_snapshot_def new_path_t_eq)
    next
      case (Cons a q)
      show ?thesis
      proof (cases "a = ''.snapshot''")
        case True
        then obtain t where "components s = ''.snapshot'' # FILESYSTEM_CUR_MODIFIABLE_VER # t" using p Cons by (auto split: list.splits if_splits)
        then show ?thesis using if_snapshot_version by blast
      next
        case False
        then show ?thesis using if_snapshot_current [of s "[]"] Cons by simp
      qed
    qed
    then show ?thesis using check_rdonly_current by blast
  qed
qed

lemma symlink_performs:
  assumes ok: "fs_ok fs" and s: "kernel_path s" and space: "space_ok fs (length s)"
  shows "performs (do_symlink env path s) fs (link_path path s (volumes fs))"
proof (cases "protected (components path)")
  case (Some r)
  then have "do_symlink env path s fs = (Inr r, fs)" unfolding do_symlink_def by (rule any_guard)
  then show ?thesis using performs_none [where m = "do_symlink env path s", OF ok] Some by (simp add: link_path_def)
next
  case None
  note eq = do_symlink_def any_guard(2) [OF None]
  have "performs (do_symlink env path s) fs
    (at_entry (components s) HTMPFS_INVALID_DENTRY_NAME (\<lambda>p n. add_node p n (Regular s)) (volumes fs))"
  proof (rule performs_at_entry [OF ok s])
    show "performs (do_symlink env path s) fs (refuse HTMPFS_INVALID_DENTRY_NAME (volumes fs))" if "s = ''/''"
      unfolding eq that root_open
      by (rule performs_refuse [OF ok]) (simp add: bindx_app liftx_app root_pop throw_app)
    show "do_symlink env path s fs = (Inr r, fs)" if "protected (components s) = Some r" for r
      unfolding eq by (rule guarded [OF s that])
  next
    fix p n
    assume s': "s = path_to_string (p @ [n])" and p: "plain_path (p @ [n])" and n: "storable_name n"
    have ne: "s \<noteq> []" using s by (auto simp: kernel_path_def)
    show "yields (do_symlink env path s) fs (add_node p n (Regular s) (view fs FILESYSTEM_CUR_MODIFIABLE_VER))"
      unfolding eq
    proof (rule file_making_yields [where f = "\<lambda>s'. s'\<lparr>st_mode := S_IFLNK OR mode_755, st_nlink := 1, st_atim := clock env 0,
          st_ctim := clock env 0, st_mtim := clock env 0, st_size := to_off_t (length s)\<rparr>"
          and g = "\<lambda>k. bindx (on_inode k (inode_write s (length s) 0 True False)) (\<lambda>_. ret 0)", OF ok n space])
      show "\<exists>fs2. bindx (on_inode k (inode_write s (length s) 0 True False)) (\<lambda>_. ret 0) fs1 = (Inr 0, fs2) \<and> bytes_set k s fs1 fs2"
        if "fs_ok fs1" "kind fs1 k = Some False" "file_room fs1 (length s)" "fs_data fs1 k FILESYSTEM_CUR_MODIFIABLE_VER = Some []" for k fs1
        using link_bytes [OF that ne] by (metis bindx_InrI ret_app)
    qed (simp_all add: s' plain_path_rules(3) [OF p] bindx_app liftx_app parent_lookup [OF p] plain_path_rules(2) [OF ok p])
  qed
  then show ?thesis using None by (simp add: link_path_def)
qed

section \<open>Sizes\<close>

lemma root_no_file: "fs_ok fs \<Longrightarrow> locate fs ''/'' = Inr FILESYSTEM_ROOT_INODE_NUMBER \<and> kind fs FILESYSTEM_ROOT_INODE_NUMBER = Some True"
  using tree_ok_root(1) [OF fs_okD(3)] by (simp add: locate_def)

lemma truncate_performs:
  assumes ok: "fs_ok fs" and s: "kernel_path s" and int: "0 \<le> sz" and space: "space_ok fs (nat sz)" and target: "truncate_target fs s"
  shows "performs (do_truncate env s sz) fs
    (at_entry (components s) HTMPFS_INVALID_DENTRY_NAME (\<lambda>p n. truncate_node p n (nat sz)) (volumes fs))"
proof (rule performs_at_entry [OF ok s])
  show "performs (do_truncate env s sz) fs (refuse HTMPFS_INVALID_DENTRY_NAME (volumes fs))" if "s = ''/''"
    using target root_no_file [OF ok] that by (simp add: truncate_target_def)
  show "do_truncate env s sz fs = (Inr r, fs)" if "protected (components s) = Some r" for r
    unfolding do_truncate_def by (rule guarded [OF s that])
next
  fix p n
  assume s: "s = path_to_string (p @ [n])" and p: "plain_path (p @ [n])" and n: "storable_name n"
  let ?cut = "\<lambda>k. bindx (on_inode k (inode_truncate (nat sz))) (\<lambda>_. ret (0 :: int))"
  let ?rest = "\<lambda>found. case found of None \<Rightarrow> throw Undefined_behaviour | Some k \<Rightarrow> ?cut k"
  have nn: "of_off_t sz = nat sz" using int space by (intro of_off_t_nonneg) (simp_all add: space_ok_def nat_less_iff)
  have l: "locate fs s = resolve fs FILESYSTEM_CUR_MODIFIABLE_VER (p @ [n]) FILESYSTEM_ROOT_INODE_NUMBER" unfolding s by (rule plain_path_locate [OF p])
  have cut: "\<exists>fs2. ?cut k fs1 = (Inr 0, fs2) \<and> bytes_set k (resized (nat sz) c) fs1 fs2"
    if "fs_ok fs1" "kind fs1 k = Some False" "file_room fs1 (nat sz)" "fs_data fs1 k FILESYSTEM_CUR_MODIFIABLE_VER = Some c" for fs1 k c
    using truncate_bytes [OF that] by (metis bindx_InrI ret_app)
  have "yields (catch_tail env (bindx (inode_to_truncate env s sz) ?rest)) fs (truncate_node p n (nat sz) (view fs FILESYSTEM_CUR_MODIFIABLE_VER))"
    using ok
  proof (cases rule: lookup_current [where p = "p @ [n]"])
    case (found k)
    then have k: "kind fs k = Some False" using target l by (simp add: truncate_target_def)
    then obtain c where c: "fs_data fs k FILESYSTEM_CUR_MODIFIABLE_VER = Some c" using current_data [OF ok found(4)] by auto
    obtain fs2 where run: "?cut k fs = (Inr 0, fs2)" and b: "bytes_set k (resized (nat sz) c) fs fs2"
      using cut [OF ok k space_file [OF ok space] c] by blast
    have "bindx (inode_to_truncate env s sz) ?rest fs = (Inr 0, fs2)"
      using run found(2) l by (simp add: bindx_app inode_to_truncate_found [OF ok])
    from bytes_yields [where m = "bindx (inode_to_truncate env s sz) ?rest", OF ok found(2) k this b, of env]
    show ?thesis using found k c by (simp add: truncate_node_def resize_node_def node_at_def)
  next
    case (failed e)
    then have e: "e = HTMPFS_NO_SUCH_FILE_OR_DIR" using target l by (simp add: truncate_target_def)
    note new = inode_to_truncate_new [OF ok p, folded s, of env sz] and none = failed(2) [folded l, unfolded e]
    have "yields (catch_tail env (bindx (inode_to_truncate env s sz) ?rest)) fs (add_node p n (Regular (resized (nat sz) [])) (view fs FILESYSTEM_CUR_MODIFIABLE_VER))"
    proof (rule file_making_yields [where f = "\<lambda>s. s\<lparr>st_size := sz, st_nlink := 1, st_atim := clock env 0,
        st_ctim := clock env 0, st_mtim := clock env 0\<rparr>" and g = ?cut, OF ok n space _ _ cut])
      show "bindx (inode_to_truncate env s sz) ?rest fs = (Inl (HTMPFS_error_t e), fs)"
        if "resolve fs FILESYSTEM_CUR_MODIFIABLE_VER p FILESYSTEM_ROOT_INODE_NUMBER = Inl (HTMPFS_error_t e)" for e
        using new [OF none] that by (simp add: bindx_app plain_path_rules(2) [OF ok p])
      show "bindx (inode_to_truncate env s sz) ?rest fs
          = bindx (make_child_dentry_under_parent d n False) (\<lambda>i. bindx (get_inode_by_id i) (\<lambda>k.
            bindx (on_stat k (\<lambda>s. s\<lparr>st_size := sz, st_nlink := 1, st_atim := clock env 0,
              st_ctim := clock env 0, st_mtim := clock env 0\<rparr>)) (\<lambda>_. ?cut k))) fs"
        if d: "resolve fs FILESYSTEM_CUR_MODIFIABLE_VER p FILESYSTEM_ROOT_INODE_NUMBER = Inr d" for d
      proof -
        let ?new = "bindx (make_child_dentry_under_parent d n False) (\<lambda>i. bindx (get_inode_by_id i) (\<lambda>k.
            bindx (on_stat k (\<lambda>s. s\<lparr>st_size := sz, st_nlink := 1, st_atim := clock env 0,
              st_ctim := clock env 0, st_mtim := clock env 0\<rparr>)) (\<lambda>_. ret (Some k))))"
        have "inode_to_truncate env s sz fs = ?new fs"
          using new [OF none] d by (simp add: bindx_app plain_path_rules(2) [OF ok p])
        then have "bindx (inode_to_truncate env s sz) ?rest fs = bindx ?new ?rest fs" by (rule bindx_cong_at)
        then show ?thesis unfolding bindx_assoc bindx_ret option.case .
      qed
    qed
    then show ?thesis using failed(3) by (simp add: truncate_node_def)
  qed
  then show "yields (do_truncate env s sz) fs (truncate_node p n (nat sz) (view fs FILESYSTEM_CUR_MODIFIABLE_VER))"
    unfolding do_truncate_def nn by (simp add: s plain_path_rules(3) [OF p])
qed

lemma fallocate_performs:
  assumes ok: "fs_ok fs" and s: "kernel_path s" and int: "0 \<le> offset" "0 \<le> len" and space: "space_ok fs (nat (offset + len))"
    and is_file: "\<And>k. locate fs s = Inr k \<Longrightarrow> kind fs k = Some False"
  shows "performs (do_fallocate env s mode offset len) fs
    (at_entry (components s) HTMPFS_INVALID_DENTRY_NAME (\<lambda>p n. resize_node (p @ [n]) (nat (offset + len))) (volumes fs))"
proof (rule performs_at_entry [OF ok s])
  show "performs (do_fallocate env s mode offset len) fs (refuse HTMPFS_INVALID_DENTRY_NAME (volumes fs))" if "s = ''/''"
    using is_file [of FILESYSTEM_ROOT_INODE_NUMBER] root_no_file [OF ok] that by simp
  show "do_fallocate env s mode offset len fs = (Inr r, fs)" if "protected (components s) = Some r" for r
    unfolding do_fallocate_def by (rule guarded [OF s that])
next
  fix p n
  assume s: "s = path_to_string (p @ [n])" and p: "plain_path (p @ [n])"
  have l: "locate fs s = resolve fs FILESYSTEM_CUR_MODIFIABLE_VER (p @ [n]) FILESYSTEM_ROOT_INODE_NUMBER" unfolding s by (rule plain_path_locate [OF p])
  have sz: "offset + len < 2 ^ 63" using space int by (simp add: space_ok_def nat_less_iff)
  have sum: "add_off_t offset len = Inr (offset + len)" using int sz by (simp add: add_off_t_def)
  have nn: "of_off_t (offset + len) = nat (offset + len)" using int sz by (intro of_off_t_nonneg) simp_all
  show "yields (do_fallocate env s mode offset len) fs (resize_node (p @ [n]) (nat (offset + len)) (view fs FILESYSTEM_CUR_MODIFIABLE_VER))"
    unfolding do_fallocate_def s plain_path_rules(3) [OF p]
    unfolding s [symmetric]
    using ok
  proof (cases rule: lookup_current [where p = "p @ [n]"])
    case (failed e)
    then have "resize_node (p @ [n]) (nat (offset + len)) (view fs FILESYSTEM_CUR_MODIFIABLE_VER) = refuse e (view fs FILESYSTEM_CUR_MODIFIABLE_VER)" by (simp add: resize_node_def)
    then show "yields (catch_tail env (bindx (inode_by_path s) (\<lambda>k. let cur_time = clock env 0 in
        bindx (on_stat k (\<lambda>s. s\<lparr>st_mode := mode OR S_IFREG, st_nlink := 1, st_ctim := cur_time\<rparr>)) (\<lambda>_.
        bindx (liftx (add_off_t offset len)) (\<lambda>n. bindx (on_stat k (\<lambda>s. s\<lparr>st_size := n\<rparr>)) (\<lambda>_.
        bindx (on_inode k (inode_truncate (of_off_t n))) (\<lambda>_. ret 0))))))) fs
        (resize_node (p @ [n]) (nat (offset + len)) (view fs FILESYSTEM_CUR_MODIFIABLE_VER))"
      using failed(2) l
      by (simp only:) (rule yields_refuse [OF ok refl ok], simp add: bindx_app inode_by_path_eq [OF ok])
  next
    case (found k)
    have k: "kind fs k = Some False" using is_file found(2) l by simp
    then obtain c where c: "fs_data fs k FILESYSTEM_CUR_MODIFIABLE_VER = Some c" using current_data [OF ok found(4)] by auto
    let ?fs1 = "put_stat k (\<lambda>s. s\<lparr>st_size := offset + len\<rparr>) (put_stat k (\<lambda>s. s\<lparr>st_mode := mode OR S_IFREG, st_nlink := 1, st_ctim := clock env 0\<rparr>) fs)"
    have "fs_ok ?fs1" "kind ?fs1 k = Some False" "file_room ?fs1 (nat (offset + len))" "fs_data ?fs1 k FILESYSTEM_CUR_MODIFIABLE_VER = Some c"
      using ok k c space_file [OF ok space] by (simp_all add: put_stat_ok)
    then obtain fs2 where run: "on_inode k (inode_truncate (nat (offset + len))) ?fs1 = (Inr (), fs2)"
      and b: "bytes_set k (resized (nat (offset + len)) c) fs fs2"
      by (rule truncate_bytes) (simp add: bytes_set_put_stat)
    have i: "inode_of (put_stat k (\<lambda>s. s\<lparr>st_mode := mode OR S_IFREG, st_nlink := 1, st_ctim := clock env 0\<rparr>) fs) k \<noteq> None"
      using found(4) by (simp add: inode_of_put_stat)
    have eq: "resize_node (p @ [n]) (nat (offset + len)) (view fs FILESYSTEM_CUR_MODIFIABLE_VER) = (0, (view fs FILESYSTEM_CUR_MODIFIABLE_VER)(p @ [n] \<mapsto> Regular (resized (nat (offset + len)) c)))"
      using found k c by (simp add: resize_node_def node_at_def)
    show "yields (catch_tail env (bindx (inode_by_path s) (\<lambda>k. let cur_time = clock env 0 in
        bindx (on_stat k (\<lambda>s. s\<lparr>st_mode := mode OR S_IFREG, st_nlink := 1, st_ctim := cur_time\<rparr>)) (\<lambda>_.
        bindx (liftx (add_off_t offset len)) (\<lambda>n. bindx (on_stat k (\<lambda>s. s\<lparr>st_size := n\<rparr>)) (\<lambda>_.
        bindx (on_inode k (inode_truncate (of_off_t n))) (\<lambda>_. ret 0))))))) fs
        (resize_node (p @ [n]) (nat (offset + len)) (view fs FILESYSTEM_CUR_MODIFIABLE_VER))"
      unfolding eq
      by (rule bytes_yields [OF ok found(2) k _ b])
         (simp add: bindx_app liftx_app inode_by_path_eq [OF ok] found(2) l sum nn Let_def ret_app run
            on_stat_eq [OF found(4)] on_stat_eq [OF i] del: One_nat_def)
  qed
qed

section \<open>Writing\<close>

lemma do_write_run:
  assumes ok: "fs_ok fs" and l: "locate fs s = Inr k" and c: "fs_data fs k FILESYSTEM_CUR_MODIFIABLE_VER = Some c" and int: "0 \<le> offset" "offset < 2 ^ 63"
    and r: "on_inode k (inode_write src sz (nat offset) (add64 (nat offset) sz > length c) False)
      (put_stat k (\<lambda>s. s\<lparr>st_mtim := clock env 0\<rparr>) fs) = (r, fs')"
  shows "bindx (inode_by_path s) (\<lambda>k.
        bindx (on_inode k (current_data_size FILESYSTEM_CUR_MODIFIABLE_VER)) (\<lambda>current_data_sz.
        bindx (on_stat k (\<lambda>s. s\<lparr>st_mtim := clock env 0\<rparr>)) (\<lambda>_.
        let if_resize = (add64 (of_off_t offset) sz > current_data_sz) in
        bindx (on_inode k (inode_write src sz (of_off_t offset) if_resize False)) (\<lambda>n.
        ret (to_int32 n))))) fs = (map_sum id to_int32 r, fs')"
proof -
  have i: "inode_of fs k \<noteq> None" by (rule locate_inode [OF ok l])
  show ?thesis
    using r by (cases r) (simp_all add: bindx_app inode_by_path_eq [OF ok] l data_size_fs_eq [OF ok c] on_stat_eq [OF i]
      of_off_t_nonneg [OF int] Let_def ret_app)
qed

lemma write_outcome:
  assumes ok: "fs_ok fs" and k: "resolve fs FILESYSTEM_CUR_MODIFIABLE_VER p FILESYSTEM_ROOT_INODE_NUMBER = Inr k" and l: "locate fs s = Inr k"
    and len: "length src < 2 ^ 31" and int: "0 \<le> offset" "offset < 2 ^ 63" and space: "space_ok fs (nat offset + length src)"
    and guard: "check_rdonly_fs s = (\<lambda>m. m)"
  shows "yields (do_write env s src (length src) offset) fs (write_node p src (nat offset) (view fs FILESYSTEM_CUR_MODIFIABLE_VER))"
proof -
  let ?fs1 = "put_stat k (\<lambda>s. s\<lparr>st_mtim := clock env 0\<rparr>) fs"
  have i: "inode_of fs k \<noteq> None" by (rule locate_inode [OF ok l])
  obtain c where c: "fs_data fs k FILESYSTEM_CUR_MODIFIABLE_VER = Some c" using current_data [OF ok i] by auto
  have ok1: "fs_ok ?fs1" using ok by (rule put_stat_ok)
  have found: "fault (view fs FILESYSTEM_CUR_MODIFIABLE_VER) [] p = None" using k fault_None [OF ok, of "[]" _ p] by simp
  note run = do_write_run [OF ok l c int]
  have "nat offset < 2 ^ 63" using int by (simp add: nat_less_iff)
  then have nw: "nat offset + length src < 2 ^ 64" using len by simp
  consider (dir) "kind fs k = Some True" | (empty) "kind fs k = Some False" "src = []" | (regular) "kind fs k = Some False" "src \<noteq> []"
    using dir_or_file [OF i] by blast
  then show ?thesis
  proof cases
    case dir
    then have "view fs FILESYSTEM_CUR_MODIFIABLE_VER p = Some Directory" using node_current(1) [OF ok] by (simp add: view_at [OF k])
    then have eq: "write_node p src (nat offset) (view fs FILESYSTEM_CUR_MODIFIABLE_VER) = refuse HTMPFS_INVALID_WRITE_INVOKE (view fs FILESYSTEM_CUR_MODIFIABLE_VER)"
      using found by (simp add: write_node_def)
    have "kind ?fs1 k = Some True" using dir by simp
    from run [OF write_to_directory [OF this]] show ?thesis
      unfolding do_write_def guard eq by (intro yields_refuse [OF ok1 _ ok]) simp_all
  next
    case empty
    then have "view fs FILESYSTEM_CUR_MODIFIABLE_VER p = Some (Regular c)" using c by (simp add: view_at [OF k] node_at_def)
    then have eq: "write_node p src (nat offset) (view fs FILESYSTEM_CUR_MODIFIABLE_VER) = (0, view fs FILESYSTEM_CUR_MODIFIABLE_VER)"
      using found empty by (simp add: write_node_def)
    have "kind ?fs1 k = Some False" using empty by simp
    from run [where src = src and sz = 0, OF write_nothing [OF this]] empty(2) show ?thesis
      unfolding do_write_def guard eq by (intro yieldsI [OF ok _ kept_put_stat [OF ok]]) (simp_all add: to_int32_def)
  next
    case regular
    then have "view fs FILESYSTEM_CUR_MODIFIABLE_VER p = Some (Regular c)" using c by (simp add: view_at [OF k] node_at_def)
    then have eq: "write_node p src (nat offset) (view fs FILESYSTEM_CUR_MODIFIABLE_VER) = (int (length src), (view fs FILESYSTEM_CUR_MODIFIABLE_VER)(p \<mapsto> Regular (pwrite (nat offset) src c)))"
      using found regular by (simp add: write_node_def)
    have "write_room fs c (nat offset + length src)"
      using space_file [OF ok space] space c unfolding write_room_def space_ok_def by auto
    then have room: "write_room ?fs1 c (nat offset + length src)" by (simp add: write_room_def)
    have "kind ?fs1 k = Some False" "fs_data ?fs1 k FILESYSTEM_CUR_MODIFIABLE_VER = Some c" using regular c by simp_all
    from write_choice [OF ok1 this regular(2) nw room] obtain fs' where
      w: "on_inode k (inode_write src (length src) (nat offset) (add64 (nat offset) (length src) > length c) False) ?fs1 = (Inr (length src), fs')"
      and b: "bytes_set k (pwrite (nat offset) src c) ?fs1 fs'" by (auto simp: bytes_set_def)
    show ?thesis
      unfolding do_write_def guard eq
      by (rule bytes_yields [OF ok k regular(1) _ b [unfolded bytes_set_put_stat]], rule trans [OF run [OF w]])
         (simp add: to_int32_small [OF len])
  qed
qed

lemma write_performs:
  assumes ok: "fs_ok fs" and s: "kernel_path s" and len: "length src < 2 ^ 31" and int: "0 \<le> offset" "offset < 2 ^ 63"
    and space: "space_ok fs (nat offset + length src)"
  shows "performs (do_write env s src (length src) offset) fs
    (at_entry (components s) HTMPFS_INVALID_WRITE_INVOKE (\<lambda>p n. write_node (p @ [n]) src (nat offset)) (volumes fs))"
proof (rule performs_at_entry [OF ok s])
  show "do_write env s src (length src) offset fs = (Inr r, fs)" if "protected (components s) = Some r" for r
    unfolding do_write_def by (rule guarded [OF s that])
  show "performs (do_write env s src (length src) offset) fs (refuse HTMPFS_INVALID_WRITE_INVOKE (volumes fs))" if "s = ''/''"
  proof -
    have "yields (do_write env s src (length src) offset) fs (write_node [] src (nat offset) (view fs FILESYSTEM_CUR_MODIFIABLE_VER))"
      using root_no_file [OF ok] root_open that
      by (intro write_outcome [OF ok _ _ len int space]) (auto simp: fun_eq_iff)
    moreover have "view fs FILESYSTEM_CUR_MODIFIABLE_VER [] = Some Directory"
      using root_no_file [OF ok] node_current(1) [OF ok] by (simp add: view_at)
    ultimately show ?thesis
      by (simp add: write_node_def yields_def performs_def refuse_def volumes_same [OF ok])
  qed
next
  fix p n
  assume s: "s = path_to_string (p @ [n])" and p: "plain_path (p @ [n])"
  have l: "locate fs s = resolve fs FILESYSTEM_CUR_MODIFIABLE_VER (p @ [n]) FILESYSTEM_ROOT_INODE_NUMBER" unfolding s by (rule plain_path_locate [OF p])
  have guard: "check_rdonly_fs s = (\<lambda>m. m)" using plain_path_rules(3) [OF p] by (simp add: s fun_eq_iff)
  show "yields (do_write env s src (length src) offset) fs (write_node (p @ [n]) src (nat offset) (view fs FILESYSTEM_CUR_MODIFIABLE_VER))"
    using ok
  proof (cases rule: lookup_current [where p = "p @ [n]"])
    case (found k)
    then show ?thesis using l by (intro write_outcome [OF ok _ _ len int space guard]) simp_all
  next
    case (failed e)
    then have eq: "write_node (p @ [n]) src (nat offset) (view fs FILESYSTEM_CUR_MODIFIABLE_VER) = refuse e (view fs FILESYSTEM_CUR_MODIFIABLE_VER)" by (simp add: write_node_def)
    show ?thesis
      unfolding do_write_def guard eq
      by (rule yields_refuse [OF ok refl ok]) (simp add: bindx_app inode_by_path_eq [OF ok] failed(2) l)
  qed
qed

end
