(* ===== verification/Path_Answers.thy ===== *)
theory Path_Answers
  imports Path_Refines
begin

text \<open>
  The requests that only look leave every volume as it is and answer from what the volumes
  show; with \<open>Path_Refines\<close>, every request and every session of the kernel keeps the contract
  of \<open>Path_Spec\<close>.
\<close>

section \<open>Nothing changes\<close>

definition unchanged :: "inode_smi_t \<Rightarrow> inode_smi_t \<Rightarrow> bool" where
  "unchanged fs fs' \<longleftrightarrow> fs_ok fs' \<and> volumes fs' = volumes fs"

interpretation look_steps: attribute_steps unchanged
  by unfold_locales (auto simp: unchanged_def put_stat_ok)

lemmas look_serves = look_steps.serves_chmod look_steps.serves_chown look_steps.serves_utimens look_steps.serves_access
  look_steps.serves_open look_steps.serves_read look_steps.serves_readlink look_steps.serves_getattr look_steps.serves_readdir

section \<open>What a path shows\<close>

lemma shown:
  assumes ok: "fs_ok fs" and s: "kernel_path s" and t: "tree_at (volumes fs) s = Some (T, p)" and x: "T p \<noteq> None"
  obtains v k q where "if_snapshot s [] = Inr (v, q)" and "locate fs s = Inr k" and "T = view fs v"
    and "resolve fs v p FILESYSTEM_ROOT_INODE_NUMBER = Inr k" and "T p = node_at fs v k" and "s \<noteq> ''/'' @ SNAPSHOT_ENTRY"
proof -
  have found: "\<exists>k. resolve fs v p FILESYSTEM_ROOT_INODE_NUMBER = Inr k \<and> T p = node_at fs v k" if "T = view fs v" for v
    using x that by (cases "resolve fs v p FILESYSTEM_ROOT_INODE_NUMBER") (simp_all add: view_def)
  show thesis
    using s
  proof (cases rule: kernel_path_cases)
    case root
    have T: "T = view fs FILESYSTEM_CUR_MODIFIABLE_VER" "p = []" using t root volumes_current [OF ok] by (auto simp: tree_at_def)
    then obtain k where k: "resolve fs FILESYSTEM_CUR_MODIFIABLE_VER p FILESYSTEM_ROOT_INODE_NUMBER = Inr k" "T p = node_at fs FILESYSTEM_CUR_MODIFIABLE_VER k" using found by blast
    then have "locate fs s = Inr k" using root_no_file [OF ok] root T(2) by simp
    then show thesis using that [OF _ _ T(1) k] if_snapshot_root root by (simp add: SNAPSHOT_ENTRY_def)
  next
    case entry
    have "components s = [''.snapshot'']" unfolding entry(2) by (rule components_path_to_string) (simp add: component_def)
    then show thesis using t by (simp add: tree_at_def)
  next
    case (version v r)
    have c: "components s = ''.snapshot'' # v # r"
      unfolding version(3) by (rule components_path_to_string) (use version(4) in \<open>simp add: component_def\<close>)
    then have v: "version_inodes fs v \<noteq> None" and T: "T = view fs v" "p = r"
      using t by (auto simp: tree_at_def volumes_def split: if_splits)
    then obtain k where k: "resolve fs v p FILESYSTEM_ROOT_INODE_NUMBER = Inr k" "T p = node_at fs v k" using found by blast
    have "locate fs s = Inr k"
      using version(2,3) v k(1) T(2) c by (simp add: locate_def del: resolve.simps) auto
    moreover have "s \<noteq> ''/'' @ SNAPSHOT_ENTRY"
    proof
      assume "s = ''/'' @ SNAPSHOT_ENTRY"
      then have "components s = [''.snapshot'']" by (simp add: SNAPSHOT_ENTRY_def components_eq)
      then show False using c by simp
    qed
    ultimately show thesis using that [OF version(1) _ T(1) k] by blast
  next
    case (plain q n)
    have c: "components s = q @ [n]" unfolding plain(1) by (rule components_path_to_string [OF plain_pathD(1) [OF plain(2)]])
    then have "place (components s) = Some (FILESYSTEM_CUR_MODIFIABLE_VER, q @ [n])" using plain(2) by (cases q) (auto simp: plain_path_def)
    then have T: "T = view fs FILESYSTEM_CUR_MODIFIABLE_VER" "p = q @ [n]" using t volumes_current [OF ok] by (auto simp: tree_at_def)
    then obtain k where k: "resolve fs FILESYSTEM_CUR_MODIFIABLE_VER p FILESYSTEM_ROOT_INODE_NUMBER = Inr k" "T p = node_at fs FILESYSTEM_CUR_MODIFIABLE_VER k" using found by blast
    have "locate fs s = Inr k" using k(1) T(2) plain_path_locate [OF plain(2)] plain(1) by simp
    moreover have "s \<noteq> ''/'' @ SNAPSHOT_ENTRY"
    proof
      assume "s = ''/'' @ SNAPSHOT_ENTRY"
      then have "components s = [''.snapshot'']" by (simp add: SNAPSHOT_ENTRY_def components_eq)
      then show False using c plain(2) by (cases q) (auto simp: plain_path_def)
    qed
    ultimately show thesis using that [OF _ _ T(1) k] plain_path_snoc [OF plain(2)] plain(1) by blast
  qed
qed

lemma not_shown:
  assumes ok: "fs_ok fs" and s: "kernel_path s" and m: "missing (volumes fs) s = Some c"
  obtains q where "if_snapshot s [] = Inr (FILESYSTEM_CUR_MODIFIABLE_VER, q)" and "locate fs s = Inl (HTMPFS_error_t c)" and "s \<noteq> ''/'' @ SNAPSHOT_ENTRY"
  using s
proof (cases rule: kernel_path_cases)
  case root
  then show thesis using m volumes_current [OF ok] by (simp add: missing_def)
next
  case entry
  have "components s = [''.snapshot'']" unfolding entry(2) by (rule components_path_to_string) (simp add: component_def)
  then show thesis using m by (simp add: missing_def)
next
  case (version v r)
  have "components s = ''.snapshot'' # v # r"
    unfolding version(3) by (rule components_path_to_string) (use version(4) in \<open>simp add: component_def\<close>)
  then show thesis using m version(2) by (simp add: missing_def)
next
  case (plain q n)
  have c: "components s = q @ [n]" unfolding plain(1) by (rule components_path_to_string [OF plain_pathD(1) [OF plain(2)]])
  then have "place (components s) = Some (FILESYSTEM_CUR_MODIFIABLE_VER, q @ [n])" using plain(2) by (cases q) (auto simp: plain_path_def)
  then have f: "fault (view fs FILESYSTEM_CUR_MODIFIABLE_VER) [] (q @ [n]) = Some c" using m volumes_current [OF ok] by (simp add: missing_def)
  have "resolve fs FILESYSTEM_CUR_MODIFIABLE_VER (q @ [n]) FILESYSTEM_ROOT_INODE_NUMBER = Inl (HTMPFS_error_t c)"
    using ok by (cases rule: lookup_current [where p = "q @ [n]"]) (use f in auto)
  then have "locate fs s = Inl (HTMPFS_error_t c)" using plain_path_locate [OF plain(2)] plain(1) by simp
  moreover have "s \<noteq> ''/'' @ SNAPSHOT_ENTRY"
  proof
    assume "s = ''/'' @ SNAPSHOT_ENTRY"
    then have "components s = [''.snapshot'']" by (simp add: SNAPSHOT_ENTRY_def components_eq)
    then show False using c plain(2) by (cases q) (auto simp: plain_path_def)
  qed
  ultimately show thesis using that plain_path_snoc [OF plain(2)] plain(1) by blast
qed

section \<open>The answers\<close>

lemma node_shown:
  "node_of N s = Some x \<longleftrightarrow> (\<exists>T p. tree_at N s = Some (T, p) \<and> T p = Some x)"
  by (auto simp: node_of_def split: option.splits)

lemma getattr_tells:
  assumes ok: "fs_ok fs" and s: "kernel_path s" and run: "with_out stbuf Attr (do_getattr env s) fs = (Inr reply, fs')"
  shows "tells_node (volumes fs) s reply"
  unfolding tells_node_def
proof (intro conjI allI impI)
  fix c
  assume c: "node_of (volumes fs) s = Some (Regular c) \<and> length c < 2 ^ 63"
  then obtain T p where T: "tree_at (volumes fs) s = Some (T, p)" "T p = Some (Regular c)" by (auto simp: node_shown)
  then obtain v k q where k: "if_snapshot s [] = Inr (v, q)" "locate fs s = Inr k" "T p = node_at fs v k" "s \<noteq> ''/'' @ SNAPSHOT_ENTRY"
    using shown [OF ok s T(1)] by blast
  have d: "fs_data fs k v = Some c" using k(3) T(2) by (auto simp: node_at_def split: option.splits if_splits)
  obtain st where st: "stat_of fs k = Some st" using locate_inode [OF ok k(2)] by (auto simp: stat_of_def)
  show "\<exists>st. reply = Attr 0 st \<and> st_size st = int (length c)"
    using run do_getattr_ok [OF ok k(4,1,2) d _ st, of env stbuf] c by (auto simp: with_out_def)
next
  fix e
  assume m: "missing (volumes fs) s = Some e"
  obtain q where k: "if_snapshot s [] = Inr (FILESYSTEM_CUR_MODIFIABLE_VER, q)" "locate fs s = Inl (HTMPFS_error_t e)" "s \<noteq> ''/'' @ SNAPSHOT_ENTRY"
    by (rule not_shown [OF ok s m])
  have "do_getattr env s (fs, stbuf) = (Inr (- int (errno_of e)), (fs, stbuf))"
    unfolding do_getattr_def
    by (rule catch_tail_error) (use k in \<open>simp add: bindx_app liftx_app on_fs_def zoomx_app get_inode_id_by_path_locate [OF ok]\<close>)
  then show "\<exists>st. reply = Attr (- int (errno_of e)) st" using run by (auto simp: with_out_def)
qed

lemma open_tells:
  assumes ok: "fs_ok fs" and s: "kernel_path s" and run: "with_code (do_open env s) fs = (Inr reply, fs')"
  shows "tells_presence (volumes fs) s reply"
  unfolding tells_presence_def
proof (intro conjI allI impI)
  assume "node_of (volumes fs) s \<noteq> None"
  then obtain T p x where T: "tree_at (volumes fs) s = Some (T, p)" "T p = Some x" by (auto simp: node_shown)
  then obtain k where k: "locate fs s = Inr k" "s \<noteq> ''/'' @ SNAPSHOT_ENTRY" using shown [OF ok s T(1)] by blast
  have "do_open env s fs = (Inr 0, fs)"
    unfolding do_open_def
    by (rule catch_tail_Inr) (use k in \<open>simp add: bindx_app get_inode_id_by_path_locate [OF ok] ret_app\<close>)
  then show "reply = Code 0" using run by (simp add: with_code_def bindx_app ret_app)
next
  fix e
  assume m: "missing (volumes fs) s = Some e"
  obtain q where k: "locate fs s = Inl (HTMPFS_error_t e)" "s \<noteq> ''/'' @ SNAPSHOT_ENTRY" by (rule not_shown [OF ok s m])
  have "do_open env s fs = (Inr (- int (errno_of e)), fs)"
    unfolding do_open_def
    by (rule catch_tail_error) (use k in \<open>simp add: bindx_app get_inode_id_by_path_locate [OF ok]\<close>)
  then show "reply = Code (- int (errno_of e))" using run by (simp add: with_code_def bindx_app ret_app)
qed

lemma read_tells:
  assumes ok: "fs_ok fs" and s: "kernel_path s" and int: "0 \<le> offset" "offset < 2 ^ 63"
    and run: "with_data (do_read env s sz offset) fs = (Inr reply, fs')"
  shows "tells_bytes (volumes fs) s sz (nat offset) reply"
  unfolding tells_bytes_def
proof (intro conjI allI impI)
  fix c
  assume c: "node_of (volumes fs) s = Some (Regular c) \<and> nat offset < length c \<and> sz < 2 ^ 31"
  then obtain T p where T: "tree_at (volumes fs) s = Some (T, p)" "T p = Some (Regular c)" by (auto simp: node_shown)
  then obtain v k q where k: "if_snapshot s [] = Inr (v, q)" "locate fs s = Inr k" "T p = node_at fs v k"
    using shown [OF ok s T(1)] by blast
  have d: "fs_data fs k v = Some c" using k(3) T(2) by (auto simp: node_at_def split: option.splits if_splits)
  have "nat offset < 2 ^ 63" using int by (simp add: nat_less_iff)
  then have "nat offset + sz < 2 ^ 64" using c by simp
  from do_read_ok [OF ok k(1,2) d int this, of env] c
  show "reply = Data (int (min sz (length c - nat offset))) (take sz (drop (nat offset) c))"
    using run by (simp add: with_data_def bindx_app ret_app)
next
  fix e
  assume m: "missing (volumes fs) s = Some e"
  obtain q where k: "if_snapshot s [] = Inr (FILESYSTEM_CUR_MODIFIABLE_VER, q)" "locate fs s = Inl (HTMPFS_error_t e)" by (rule not_shown [OF ok s m])
  have "do_read env s sz offset fs = (Inr (- int (errno_of e), []), fs)"
    unfolding do_read_def catch_tail_data_def
    using k by (simp add: catchx_app bindx_app liftx_app inode_by_path_eq [OF ok] catch_tail_def throw_app ret_app)
  then show "reply = Data (- int (errno_of e)) []" using run by (simp add: with_data_def bindx_app ret_app)
qed

lemma below_version:
  assumes ok: "fs_ok fs" and k: "resolve fs v p FILESYSTEM_ROOT_INODE_NUMBER = Inr k"
  shows "below (view fs v) p = dom (child fs v k)"
proof -
  have "view fs v (p @ [n]) \<noteq> None \<longleftrightarrow> child fs v k n \<noteq> None" for n
  proof (cases "child fs v k n")
    case None
    then have "follow (child fs v) (p @ [n]) FILESYSTEM_ROOT_INODE_NUMBER = None" using k by (simp add: follow_snoc resolve_follow del: resolve.simps)
    then show ?thesis using None by (simp add: view_follow)
  next
    case (Some t)
    then have f: "follow (child fs v) (p @ [n]) FILESYSTEM_ROOT_INODE_NUMBER = Some t" using k by (simp add: follow_snoc resolve_follow del: resolve.simps)
    have v: "v \<in> in_versions fs t" by (rule tree_okD(1) [OF fs_okD(3) [OF ok] Some])
    then have i: "inode_of fs t \<noteq> None" by (rule in_versions_inode [OF fs_okD(2) [OF ok]])
    have "fs_data fs t v \<noteq> None"
      using versions_okD(5) [OF fs_okD(2) [OF ok] i] current_data [OF ok i] v by (cases "v = FILESYSTEM_CUR_MODIFIABLE_VER") auto
    then have "node_at fs v t \<noteq> None" using i by (auto simp: node_at_def kind_def)
    then show ?thesis using f Some by (simp add: view_follow)
  qed
  then show ?thesis by (auto simp: below_def dom_def)
qed

lemma readdir_tells:
  assumes ok: "fs_ok fs" and s: "kernel_path s" and run: "with_out [] Names (do_readdir env s) fs = (Inr reply, fs')"
  shows "tells_names (volumes fs) s reply"
  unfolding tells_names_def
proof (intro allI impI)
  fix T p
  assume T: "tree_at (volumes fs) s = Some (T, p) \<and> T p = Some Directory"
  then have "T p \<noteq> None" by simp
  then obtain v k q where k: "if_snapshot s [] = Inr (v, q)" "locate fs s = Inr k" "T = view fs v" "resolve fs v p FILESYSTEM_ROOT_INODE_NUMBER = Inr k"
      "T p = node_at fs v k" "s \<noteq> ''/'' @ SNAPSHOT_ENTRY"
    by (rule shown [OF ok s conjunct1 [OF T]])
  then have kd: "kind fs k = Some True" and d: "fs_data fs k v \<noteq> None"
    using T by (auto simp: node_at_def split: option.splits if_splits)
  then obtain c where "fs_data fs k v = Some c" by auto
  then obtain dl where dl: "entries fs v k = Some dl" using dirs_okE [OF fs_okD(4) [OF ok] kd] by blast
  have "distinct (names dl)" using entries_dir_bytes [OF fs_okD(4) [OF ok] dl] by (simp add: dir_bytes_def)
  moreover have "child fs v k = dir_map dl" by (rule ext) (simp add: child_def dl)
  then have "set (names dl) = below T p" by (simp add: dir_map_dom k(3) below_version [OF ok k(4)])
  ultimately show "\<exists>ns. reply = Names 0 ([''.'', ''..''] @ (if s = ''/'' then [''.snapshot''] else []) @ ns)
      \<and> distinct ns \<and> set ns = below T p"
    using run do_readdir_ok [OF ok k(6,1,2) dl, of env "[]"] by (auto simp: with_out_def SNAPSHOT_ENTRY_def)
qed

section \<open>Every request and every session\<close>

text \<open>What the kernel ensures beyond \<open>request_ok\<close>: whole paths, and writes that fit an \<open>int\<close>.\<close>

fun from_kernel :: "request \<Rightarrow> bool" where
  "from_kernel (Req_getattr path stbuf) = kernel_path path"
| "from_kernel (Req_fgetattr path stbuf) = kernel_path path"
| "from_kernel (Req_open path) = kernel_path path"
| "from_kernel (Req_opendir path) = kernel_path path"
| "from_kernel (Req_read path sz offset) = kernel_path path"
| "from_kernel (Req_readdir path) = kernel_path path"
| "from_kernel (Req_write path src sz offset) = (kernel_path path \<and> sz < 2 ^ 31)"
| "from_kernel (Req_fallocate path mode offset len) = kernel_path path"
| "from_kernel req = True"

definition refines_at :: "env \<Rightarrow> request \<Rightarrow> inode_smi_t \<Rightarrow> bool" where
  "refines_at env req fs \<longleftrightarrow> (\<exists>reply fs'. fuse_ops env req fs = (Inr reply, fs') \<and> fs_ok fs'
     \<and> path_step (volumes fs) req reply (volumes fs'))"

lemma refines_change:
  assumes "performs m fs x" and "fuse_ops env req = with_code m" and "change req (volumes fs) = Some x"
  shows "refines_at env req fs"
  using assms by (cases x) (auto simp: refines_at_def performs_def path_step_def with_code_def bindx_app ret_app)

lemma refines_look:
  assumes "served_by unchanged (fuse_ops env req) fs" and "change req (volumes fs) = None"
    and "\<And>reply fs'. fuse_ops env req fs = (Inr reply, fs') \<Longrightarrow> answer req (volumes fs) reply"
  shows "refines_at env req fs"
  using assms by (auto simp: refines_at_def served_by_def unchanged_def path_step_def)

lemma serves_ret: "fs_ok fs \<Longrightarrow> served_by unchanged (ret r) fs"
  by (auto simp: served_by_def unchanged_def ret_app)

lemma request_refines:
  assumes ok: "fs_ok fs" and g: "request_ok fs req" "from_kernel req" and space: "space_ok fs (amount req)"
  shows "refines_at env req fs"
  using g space
proof (cases req)
  case (Req_getattr path stbuf)
  then show ?thesis
    using g by (intro refines_look) (simp_all add: look_steps.serves_getattr ok getattr_tells)
next
  case (Req_fgetattr path stbuf)
  then show ?thesis
    using g by (intro refines_look) (simp_all add: do_fgetattr_def look_steps.serves_getattr ok getattr_tells)
next
  case (Req_open path)
  then show ?thesis using g by (intro refines_look) (simp_all add: look_steps.serves_open ok open_tells)
next
  case (Req_opendir path)
  then show ?thesis using g by (intro refines_look) (simp_all add: look_steps.serves_open ok open_tells)
next
  case (Req_read path sz offset)
  then show ?thesis using g by (intro refines_look) (simp_all add: look_steps.serves_read ok read_tells)
next
  case (Req_readdir path)
  then show ?thesis using g by (intro refines_look) (simp_all add: look_steps.serves_readdir ok readdir_tells)
next
  case (Req_mknod path mode device)
  then show ?thesis using g space by (intro refines_change [OF mknod_performs [OF ok]]) simp_all
next
  case (Req_create path mode)
  then show ?thesis using g space by (intro refines_change [OF create_performs [OF ok]]) simp_all
next
  case (Req_mkdir path mode)
  then show ?thesis using g space by (intro refines_change [OF mkdir_performs [OF ok]]) simp_all
next
  case (Req_unlink path)
  then show ?thesis using g space by (intro refines_change [OF unlink_performs [OF ok]]) simp_all
next
  case (Req_rmdir path)
  then show ?thesis using g space by (intro refines_change [OF rmdir_performs [OF ok]]) simp_all
next
  case (Req_symlink path target)
  then show ?thesis using g space by (intro refines_change [OF symlink_performs [OF ok]]) simp_all
next
  case (Req_rename path name)
  then show ?thesis using g space by (intro refines_change [OF rename_performs [OF ok]]) simp_all
next
  case (Req_truncate path sz)
  then show ?thesis using g space by (intro refines_change [OF truncate_performs [OF ok]]) simp_all
next
  case (Req_ftruncate path sz)
  then show ?thesis using g space by (intro refines_change [OF truncate_performs [OF ok]]) (simp_all add: do_ftruncate_def)
next
  case (Req_write path src sz offset)
  then show ?thesis using g space by (intro refines_change [OF write_performs [OF ok, of path src offset env]]) simp_all
next
  case (Req_fallocate path mode offset len)
  then have "kind fs k = Some False" if "locate fs path = Inr k" for k using g that by simp
  then show ?thesis using g space Req_fallocate by (intro refines_change [OF fallocate_performs [OF ok]]) simp_all
qed (use ok in \<open>auto intro!: refines_look simp: look_serves serves_ret\<close>)

lemma session_refines:
  "session fs reqs replies fs' \<Longrightarrow> fs_ok fs \<Longrightarrow> \<forall>(env, req)\<in>set reqs. from_kernel req \<Longrightarrow>
   path_steps (volumes fs) (map snd reqs) replies (volumes fs') \<and> fs_ok fs'"
proof (induction rule: session.induct)
  case (session_Nil fs)
  then show ?case by (simp add: path_Nil)
next
  case (session_Cons fs req env reply fs1 reqs replies fs2)
  have "from_kernel req" using session_Cons.prems(2) by simp
  from request_refines [OF session_Cons.prems(1) session_Cons.hyps(1) this session_Cons.hyps(2), of env]
  have step: "fs_ok fs1" "path_step (volumes fs) req reply (volumes fs1)"
    using session_Cons.hyps(3) by (auto simp: refines_at_def)
  then show ?case using session_Cons.IH session_Cons.prems(2) by (auto intro: path_Cons)
qed

text \<open>What the mount program sets up: one volume, with nothing but its root.\<close>

definition empty_volumes :: volumes where
  "empty_volumes = [FILESYSTEM_CUR_MODIFIABLE_VER \<mapsto> [[] \<mapsto> Directory]]"

lemma new_volumes:
  assumes "0 < bs" and "bs < 2 ^ 32"
  shows "volumes (new_inode_smi_t bs) = empty_volumes"
proof -
  let ?fs = "new_inode_smi_t bs"
  have "follow (child ?fs FILESYSTEM_CUR_MODIFIABLE_VER) p FILESYSTEM_ROOT_INODE_NUMBER = (if p = [] then Some FILESYSTEM_ROOT_INODE_NUMBER else None)" for p
    by (cases p) (simp_all add: new_fs_ok(3) [OF assms])
  moreover have "node_at ?fs FILESYSTEM_CUR_MODIFIABLE_VER FILESYSTEM_ROOT_INODE_NUMBER = Some Directory" by (simp add: node_current(1) [OF new_fs_ok(1) [OF assms]] new_fs_views)
  ultimately have "view ?fs FILESYSTEM_CUR_MODIFIABLE_VER = [[] \<mapsto> Directory]" by (simp add: view_follow fun_eq_iff)
  then show ?thesis by (auto simp: volumes_def new_fs_views empty_volumes_def fun_eq_iff)
qed

lemma mounted_volumes: "volumes (mounted env) = empty_volumes"
proof -
  obtain f where "mounted env = put_stat FILESYSTEM_ROOT_INODE_NUMBER f (new_inode_smi_t (512 * 1024))"
    using set_up_root_eq [OF new_fs_ok(1)] by (simp add: mounted_def)
  then show ?thesis using new_volumes [of "512 * 1024"] by simp
qed

end
