(* ===== verification/Path_Shape.thy ===== *)
theory Path_Shape
  imports Path_Answers
begin

text \<open>
  An invariant of the contract, proved on paths alone: the root of every volume is a directory,
  every name on its paths can be written in a path, and the current root has no entry
  \<open>.snapshot\<close>. By the refinement it holds of the file system after every session, so that
  \<open>export_as_filesystem_map\<close> ends and lists exactly the paths of the volume.
\<close>

section \<open>Well-formed volumes\<close>

definition named :: "string \<Rightarrow> string list \<Rightarrow> bool" where
  "named v p \<longleftrightarrow> (\<forall>n\<in>set p. component n) \<and> (v = FILESYSTEM_CUR_MODIFIABLE_VER \<longrightarrow> p = [] \<or> hd p \<noteq> ''.snapshot'')"

definition well_formed :: "string \<Rightarrow> tree \<Rightarrow> bool" where
  "well_formed v T \<longleftrightarrow> T [] = Some Directory \<and> (\<forall>p. T p \<noteq> None \<longrightarrow> named v p)"

definition shaped :: "volumes \<Rightarrow> bool" where
  "shaped N \<longleftrightarrow> (\<forall>v T. N v = Some T \<longrightarrow> component v \<and> well_formed v T)"

lemma well_formedD: "well_formed v T \<Longrightarrow> T p \<noteq> None \<Longrightarrow> named v p"
  unfolding well_formed_def by blast

text \<open>The paths at which a request may make an entry.\<close>

definition entry_ok :: "string \<Rightarrow> string list \<Rightarrow> string \<Rightarrow> bool" where
  "entry_ok v p n \<longleftrightarrow> component n \<and> (v = FILESYSTEM_CUR_MODIFIABLE_VER \<and> p = [] \<longrightarrow> n \<noteq> ''.snapshot'')"

lemma named_entry: "named v p \<Longrightarrow> entry_ok v p n \<Longrightarrow> named v (p @ [n])"
  by (cases p) (auto simp: named_def entry_ok_def)

lemma named_below: "named v p \<Longrightarrow> p \<noteq> [] \<Longrightarrow> \<forall>n\<in>set u. component n \<Longrightarrow> named v (p @ u)"
  by (auto simp: named_def)

lemma add_shaped:
  assumes "well_formed v T" and "entry_ok v p n"
  shows "well_formed v (snd (add_node p n x T))"
proof -
  have "well_formed v (T(p @ [n] \<mapsto> x))" if "T p = Some Directory" "T (p @ [n]) = None"
    using assms(1) named_entry [OF well_formedD [OF assms(1), of p] assms(2)] that by (auto simp: well_formed_def)
  then show ?thesis using assms by (simp add: add_node_def refuse_def split: option.splits)
qed

lemma remove_shaped: "well_formed v T \<Longrightarrow> well_formed v (snd (remove_node p n T))"
  by (simp add: well_formed_def remove_node_def refuse_def split: option.splits)

lemma moved_shaped:
  assumes w: "well_formed v T" and p: "p \<noteq> []" and q: "T q = Some Directory" and e: "entry_ok v q m"
  shows "well_formed v (moved p (q @ [m]) T)"
  unfolding well_formed_def
proof (intro conjI allI impI)
  show "moved p (q @ [m]) T [] = Some Directory" using w p by (simp add: moved_def well_formed_def)
  fix r assume r: "moved p (q @ [m]) T r \<noteq> None"
  show "named v r"
  proof (cases "prefix (q @ [m]) r")
    case True
    then obtain u where u: "r = (q @ [m]) @ u" by (auto simp: prefix_def)
    have "T (p @ u) \<noteq> None" using r True u by (auto simp: moved_def split: if_splits)
    then have "\<forall>n\<in>set u. component n" using well_formedD [OF w, of "p @ u"] by (auto simp: named_def)
    moreover have "named v (q @ [m])" using named_entry [OF well_formedD [OF w, of q] e] q by simp
    ultimately show ?thesis using named_below [of v "q @ [m]" u] u by simp
  next
    case False
    then have "T r \<noteq> None" using r by (auto simp: moved_def split: if_splits)
    then show ?thesis by (rule well_formedD [OF w])
  qed
qed

lemma move_shaped: "well_formed v T \<Longrightarrow> p \<noteq> [] \<Longrightarrow> entry_ok v q m \<Longrightarrow> well_formed v (snd (move_node p q m T))"
  by (simp add: move_node_def refuse_def moved_shaped split: option.splits)

lemma bytes_shaped: "well_formed v T \<Longrightarrow> T p = Some (Regular c) \<Longrightarrow> well_formed v (T(p \<mapsto> Regular c'))"
  by (auto simp: well_formed_def)

lemma write_shaped: "well_formed v T \<Longrightarrow> well_formed v (snd (write_node p src offset T))"
  by (simp add: write_node_def refuse_def bytes_shaped split: option.splits node.splits)

lemma resize_shaped: "well_formed v T \<Longrightarrow> well_formed v (snd (resize_node p sz T))"
  by (simp add: resize_node_def refuse_def bytes_shaped split: option.splits node.splits)

lemma truncate_shaped: "well_formed v T \<Longrightarrow> entry_ok v p n \<Longrightarrow> well_formed v (snd (truncate_node p n sz T))"
  by (simp add: truncate_node_def add_shaped resize_shaped)

section \<open>Requests and sessions\<close>

lemma current_shaped: "shaped N \<Longrightarrow> (\<And>T. well_formed FILESYSTEM_CUR_MODIFIABLE_VER T \<Longrightarrow> well_formed FILESYSTEM_CUR_MODIFIABLE_VER (snd (f T))) \<Longrightarrow> shaped (snd (on_current f N))"
  by (auto simp: shaped_def on_current_def split: option.splits)

lemma unprotected_entry:
  assumes "protected p = None" and "p \<noteq> []" and "\<forall>n\<in>set p. component n"
  shows "entry_ok FILESYSTEM_CUR_MODIFIABLE_VER (butlast p) (last p)"
  using assms by (cases p) (auto simp: entry_ok_def split: if_splits list.splits)

lemma entry_shaped:
  assumes "shaped N" and "\<And>q n T. well_formed FILESYSTEM_CUR_MODIFIABLE_VER T \<Longrightarrow> entry_ok FILESYSTEM_CUR_MODIFIABLE_VER q n \<Longrightarrow> well_formed FILESYSTEM_CUR_MODIFIABLE_VER (snd (f q n T))"
  shows "shaped (snd (at_entry (components s) c f N))"
  using assms unprotected_entry [of "components s"] components_component [of _ s]
  by (auto simp: at_entry_def refuse_def intro!: current_shaped split: option.splits)

lemma volume_shaped:
  "shaped N \<Longrightarrow> component v \<Longrightarrow> shaped (snd (take_snapshot v N))"
  "shaped N \<Longrightarrow> shaped (snd (drop_snapshot v N))"
  by (auto simp: shaped_def take_snapshot_def drop_snapshot_def refuse_def well_formed_def named_def split: if_splits)

lemma move_path_shaped:
  assumes "shaped N"
  shows "shaped (snd (move_path (components s) (components s') N))"
proof -
  let ?p = "components s" and ?q = "components s'"
  have "shaped (snd (on_current (\<lambda>T. if ?q = [] then (case fault T [] ?p of
      Some c \<Rightarrow> refuse c T | None \<Rightarrow> refuse HTMPFS_INVALID_DENTRY_NAME T) else move_node ?p (butlast ?q) (last ?q) T) N))"
    if "?p \<noteq> []" "protected ?q = None"
    using assms that unprotected_entry [of ?q] components_component [of _ s']
    by (intro current_shaped) (simp_all add: move_shaped refuse_def split: option.splits)
  then show ?thesis using assms by (simp add: move_path_def refuse_def split: option.splits)
qed

lemmas node_shaped = add_shaped remove_shaped write_shaped resize_shaped truncate_shaped

lemma directory_shaped:
  assumes "shaped N"
  shows "shaped (snd (make_directory (components s) N))" and "shaped (snd (remove_directory (components s) N))"
proof -
  have "component (last (components s))" if "length (components s) = 2"
    using that components_component [of "last (components s)" s] by (cases "components s") auto
  then show "shaped (snd (make_directory (components s) N))"
    using assms by (simp add: make_directory_def volume_shaped entry_shaped node_shaped)
  have "shaped (snd (at_entry (components s) HTMPFS_INVALID_DENTRY_NAME remove_node N))"
    using assms by (rule entry_shaped) (rule remove_shaped)
  then show "shaped (snd (remove_directory (components s) N))"
    using assms by (simp only: remove_directory_def snd_conv volume_shaped split: if_split) simp
qed

lemma link_shaped: "shaped N \<Longrightarrow> shaped (snd (link_path s s' N))"
  by (simp add: link_path_def entry_shaped node_shaped split: option.splits)

lemma change_shaped: "change req N = Some x \<Longrightarrow> shaped N \<Longrightarrow> shaped (snd x)"
  by (cases req) (auto simp: directory_shaped link_shaped entry_shaped node_shaped move_path_shaped)

lemma path_step_shaped: "path_step N req reply N' \<Longrightarrow> shaped N \<Longrightarrow> shaped N'"
  using change_shaped [of req N] by (auto simp: path_step_def split: option.splits)

lemma path_steps_shaped: "path_steps N reqs replies N' \<Longrightarrow> shaped N \<Longrightarrow> shaped N'"
  by (induction rule: path_steps.induct) (auto dest: path_step_shaped)

lemma empty_shaped: "shaped empty_volumes"
  by (simp add: shaped_def empty_volumes_def well_formed_def named_def component_def FILESYSTEM_CUR_MODIFIABLE_VER_def)

section \<open>The export of a well-formed volume\<close>

lemma volume_exported:
  assumes ok: "fs_ok fs" and s: "shaped (volumes fs)" and T: "volumes fs v = Some T"
  shows "exportable fs v" and "leads fs v p \<longleftrightarrow> T p \<noteq> None"
proof -
  have view: "T = view fs v" "version_inodes fs v \<noteq> None" using T by (auto simp: volumes_def split: if_splits)
  have w: "component v" "well_formed v T" using s T by (auto simp: shaped_def)
  have "node_at fs v FILESYSTEM_ROOT_INODE_NUMBER = Some Directory" using w(2) view(1) by (simp add: well_formed_def view_def)
  then have "fs_data fs FILESYSTEM_ROOT_INODE_NUMBER v \<noteq> None" by (auto simp: node_at_def split: option.splits)
  then have root: "v \<in> in_versions fs FILESYSTEM_ROOT_INODE_NUMBER"
    using versions_okD(5) [OF fs_okD(2) [OF ok] root_inode [OF ok]] tree_ok_root(2) [OF fs_okD(3) [OF ok]] by (cases "v = FILESYSTEM_CUR_MODIFIABLE_VER") auto
  have there: "T p \<noteq> None" if r: "resolve fs v p FILESYSTEM_ROOT_INODE_NUMBER = Inr k" for p k
  proof -
    have ino: "inode_of fs k \<noteq> None" using resolve_inode [OF ok r root_inode [OF ok]] .
    have "v \<in> in_versions fs k" using resolve_in_version [OF ok r root] .
    then have "fs_data fs k v \<noteq> None"
      using versions_okD(5) [OF fs_okD(2) [OF ok] ino] current_data [OF ok ino] by (cases "v = FILESYSTEM_CUR_MODIFIABLE_VER") simp_all
    then show ?thesis using ino r by (auto simp: view(1) view_def node_at_def kind_def split: option.splits)
  qed
  show "leads fs v p \<longleftrightarrow> T p \<noteq> None"
    using there by (auto simp: leads_def view(1) view_def split: sum.splits)
  have names: "named v p" if "resolve fs v p FILESYSTEM_ROOT_INODE_NUMBER = Inr k" for p k using well_formedD [OF w(2) there [OF that]] .
  have "child fs v FILESYSTEM_ROOT_INODE_NUMBER ''.snapshot'' = None" if "v = FILESYSTEM_CUR_MODIFIABLE_VER"
  proof (rule ccontr)
    assume "\<not> ?thesis"
    then obtain t where "resolve fs v [''.snapshot''] FILESYSTEM_ROOT_INODE_NUMBER = Inr t" by (auto simp: resolve_follow simp del: resolve.simps)
    from names [OF this] that show False by (simp add: named_def)
  qed
  then show "exportable fs v"
    using root w(1) names unfolding exportable_def listable_def named_def component_def by blast
qed

end
