(* ===== verification/Fuse_Properties.thy ===== *)
theory Fuse_Properties
  imports Example_Requests Debug_Output Path_Shape
begin

text \<open>
  The properties of the request handlers, of the bitmap, of the block device and of the
  error reports: what a request does to the tree, which requests a snapshot survives, and
  the cases in which a handler does not do what it is for.
\<close>

section \<open>Requests and sessions\<close>

text \<open>
  C1. The file system is a map from paths. A request of the kernel returns the number, and
  leaves the volumes, that a specification on paths alone computes from the volumes before:
  creating, removing, moving, linking, writing and resizing with every error in its place,
  snapshots taken and dropped, and reads, listings and lookups answered from the map.
\<close>

theorem requests_refine_paths:
  assumes "fs_ok fs" and "request_ok fs req" and "from_kernel req" and "space_ok fs (amount req)"
  shows "\<exists>reply fs'. fuse_ops env req fs = (Inr reply, fs') \<and> fs_ok fs' \<and> path_step (volumes fs) req reply (volumes fs')"
  using request_refines [OF assms, of env] by (simp add: refines_at_def)

theorem requests_refine_paths_witness:
  "\<exists>fs'. fuse_ops demo_env (Req_rename ''/a'' ''/b'') demo_fs = (Inr (Code 0), fs')
     \<and> (\<exists>T. volumes fs' FILESYSTEM_CUR_MODIFIABLE_VER = Some T \<and> T [''b''] = Some (Regular ''hello'') \<and> T [''a''] = None)"
proof -
  let ?T = "view demo_fs FILESYSTEM_CUR_MODIFIABLE_VER"
  have r: "resolve demo_fs FILESYSTEM_CUR_MODIFIABLE_VER [''b''] FILESYSTEM_ROOT_INODE_NUMBER = Inl (HTMPFS_error_t HTMPFS_NO_SUCH_FILE_OR_DIR)"
    by (simp add: FILESYSTEM_ROOT_INODE_NUMBER_def demo_fs_views demo_fs_data demo_child)
  have T: "?T [] = Some Directory" "?T [''a''] = Some (Regular ''hello'')" "?T [''b''] = None"
    by (simp_all add: view_def demo_resolve r node_at_def demo_fs_views demo_fs_data del: resolve.simps)
  have c: "components ''a'' = [''a'']" "components ''b'' = [''b'']" by (simp_all add: components_eq)
  have "change (Req_rename ''/a'' ''/b'') (volumes demo_fs)
      = Some (0, (volumes demo_fs)(FILESYSTEM_CUR_MODIFIABLE_VER \<mapsto> moved [''a''] [''b''] ?T))"
    by (simp add: c move_path_def on_current_def volumes_current [OF demo_fs_ok] move_node_def T)
  moreover obtain reply fs' where "fuse_ops demo_env (Req_rename ''/a'' ''/b'') demo_fs = (Inr reply, fs')"
      "path_step (volumes demo_fs) (Req_rename ''/a'' ''/b'') reply (volumes fs')"
    using requests_refine_paths [OF demo_fs_ok, of "Req_rename ''/a'' ''/b''" demo_env] demo_space(1) [of 0] demo_kernel_path
    by auto
  ultimately show ?thesis by (auto simp: path_step_def moved_def T)
qed



text \<open>
  C8. After every session, from the mount on, of requests as the kernel passes them (the guards
  of C2), the invariant holds and every volume, the current one or a snapshot, is well formed:
  its root is a directory, every name on its paths is non-empty and without a slash, the current
  root has no entry \<open>.snapshot\<close>, and \<open>export_as_filesystem_map\<close> ends
  and lists exactly the paths of the volume, each once.
\<close>

theorem volumes_well_formed:
  assumes "session (mounted env) reqs replies fs" and "\<forall>(env, req)\<in>set reqs. from_kernel req"
    and "volumes fs v = Some T"
  shows "fs_ok fs \<and> T [] = Some Directory \<and> (\<forall>p n. T p \<noteq> None \<and> n \<in> set p \<longrightarrow> n \<noteq> [] \<and> slash \<notin> set n) \<and>
    (v = FILESYSTEM_CUR_MODIFIABLE_VER \<longrightarrow> T [''.snapshot''] = None) \<and>
    (\<exists>paths. export_as_filesystem_map (length (inode_pool fs)) v fs = (Inr (Some paths), fs) \<and> distinct paths \<and>
       set paths = {path_to_string p | p. p \<noteq> [] \<and> T p \<noteq> None})"
proof -
  have s: "path_steps empty_volumes (map snd reqs) replies (volumes fs)" and ok: "fs_ok fs"
    using session_refines [OF assms(1) mounted_ok assms(2)] by (simp_all add: mounted_volumes)
  have sh: "shaped (volumes fs)" using s empty_shaped by (rule path_steps_shaped)
  then have w: "well_formed v T" using assms(3) by (simp add: shaped_def)
  then have "T [] = Some Directory" by (simp add: well_formed_def)
  moreover have "n \<noteq> [] \<and> slash \<notin> set n" if "T p \<noteq> None" "n \<in> set p" for p n
    using well_formedD [OF w that(1)] that(2) by (simp add: named_def component_def)
  moreover have "T [''.snapshot''] = None" if "v = FILESYSTEM_CUR_MODIFIABLE_VER"
    using well_formedD [OF w, of "[''.snapshot'']"] that by (cases "T [''.snapshot'']") (simp_all add: named_def)
  moreover have "\<exists>paths. export_as_filesystem_map (length (inode_pool fs)) v fs = (Inr (Some paths), fs) \<and> distinct paths \<and>
      set paths = {path_to_string p | p. p \<noteq> [] \<and> T p \<noteq> None}"
    using export_ok [OF ok volume_exported(1) [OF ok sh assms(3)] order_refl] unfolding volume_exported(2) [OF ok sh assms(3)] .
  ultimately show ?thesis using ok by blast
qed

theorem volumes_well_formed_witness:
  "\<exists>reply fs T. session (mounted demo_env) [(demo_env, Req_mkdir ''/a'' 493)] [reply] fs
     \<and> volumes fs FILESYSTEM_CUR_MODIFIABLE_VER = Some T \<and> (\<exists>paths. export_as_filesystem_map (length (inode_pool fs)) FILESYSTEM_CUR_MODIFIABLE_VER fs = (Inr (Some paths), fs))"
proof -
  obtain reply fs where s: "session (mounted demo_env) [(demo_env, Req_mkdir ''/a'' 493)] [reply] fs"
    using session_snoc [OF session_Nil mounted_ok, of demo_env "Req_mkdir ''/a'' 493" demo_env] demo_kernel_path(1) mounted_space by force
  have v: "volumes fs FILESYSTEM_CUR_MODIFIABLE_VER = Some (view fs FILESYSTEM_CUR_MODIFIABLE_VER)"
    by (rule volumes_current [OF kept_ok [OF session_kept [OF s mounted_ok]]])
  from volumes_well_formed [OF s _ v] s v show ?thesis by fastforce
qed

text \<open>
  C3. After a request to create the directory \<open>/.snapshot/v\<close> has returned 0,
  whatever requests are served except the removal of that directory, a read of the path under
  \<open>/.snapshot/v\<close> returns the bytes that the path held when the snapshot was made.
\<close>

theorem snapshot_seen_by_requests:
  assumes "fs_ok fs" and "space_ok fs 0" and "component v"
    and "do_mkdir env (path_to_string [''.snapshot'', v]) mode fs = (Inr 0, fs1)"
    and "session fs1 reqs replies fs2" and "\<forall>(env, req)\<in>set reqs. v \<notin> deleted req"
    and "plain_path p" and "p \<noteq> []" and "get_inode_id_by_path (path_to_string p) fs = (Inr k, fs)" and "fs_data fs k FILESYSTEM_CUR_MODIFIABLE_VER = Some c"
    and "0 \<le> offset" and "offset < 2 ^ 63" and "nat offset + n < 2 ^ 64" and "n < 2 ^ 31" and "nat offset < length c"
  shows "fst (do_read env' (make_path_with_version (path_to_string p) v) n offset fs2)
     = Inr (int (min n (length c - nat offset)), take n (drop (nat offset) c))"
proof -
  note made = mkdir_snapshot_made [OF assms(1-4)]
  have r: "resolve fs FILESYSTEM_CUR_MODIFIABLE_VER p FILESYSTEM_ROOT_INODE_NUMBER = Inr k"
    using assms(9) plain_path_parent [OF assms(1,7)] by simp
  then have "FILESYSTEM_CUR_MODIFIABLE_VER \<in> in_versions fs k"
    using resolve_in_version [OF assms(1)] tree_ok_root(2) [OF fs_okD(3) [OF assms(1)]] by blast
  with snapshot_later [OF assms(1) made(2,3) steps_Nil] r assms(10)
  have "fs_ok fs1" "version_inodes fs1 v \<noteq> None" "resolve fs1 v p FILESYSTEM_ROOT_INODE_NUMBER = Inr k" "fs_data fs1 k v = Some c"
    by simp_all
  then show ?thesis
    using session_read [of fs1 reqs replies fs2 v p k c offset n env'] assms(3,5,6,8,11-15) made(1) plain_pathD(1) [OF assms(7)]
    by blast
qed

theorem snapshot_seen_by_requests_witness:
  "\<exists>fs2 reply. session demo_snap [(demo_env, Req_write ''/a'' ''XX'' 2 0)] [reply] fs2 \<and>
    fst (do_read demo_env ''/.snapshot/v1/a'' 9 1 fs2) = Inr (4, ''ello'')"
proof -
  have v: "component ''v1''" by (simp add: component_def)
  have mk: "do_mkdir demo_env (path_to_string [''.snapshot'', ''v1'']) 493 demo_fs = (Inr 0, demo_snap)"
    unfolding do_mkdir_snapshot [OF v] by (rule catch_tail_Inr) (simp add: bindx_app demo_create ret_app)
  obtain reply fs2 where s: "session demo_snap [(demo_env, Req_write ''/a'' ''XX'' 2 0)] [reply] fs2"
    using demo_session by blast
  have k: "get_inode_id_by_path (path_to_string [''a'']) demo_fs = (Inr 1, demo_fs)"
    using plain_path_parent [OF demo_fs_ok demo_plain(1)] demo_resolve(2) by simp
  have "fst (do_read demo_env (make_path_with_version (path_to_string [''a'']) ''v1'') 9 1 fs2) = Inr (4, ''ello'')"
    using snapshot_seen_by_requests [OF demo_fs_ok demo_space(1) v mk s _ demo_plain(1) _ k, of "''hello''" 1 9 demo_env]
    by (simp add: demo_fs_data)
  then show ?thesis using s by (auto simp: make_path_with_version_def FILESYSTEM_CUR_MODIFIABLE_VER_def)
qed

text \<open>
  C4. A request whose arguments are in order and for which the pools have room is answered: the
  handler gives a reply, reaches no undefined behaviour and lets no exception out, the invariant
  holds afterwards, and every snapshot except a removed one keeps its bytes. In order means
  (\<open>request_ok\<close>) that a path at which an entry is made, removed or renamed or a
  file truncated is absolute and normalised, has names below 128 bytes and is not below
  \<open>/.snapshot/current\<close>; that a path to truncate is that of a file or of no entry,
  and the path of \<open>fallocate\<close> not that of a directory; and that sizes and offsets
  are in range. The paths of the other requests are arbitrary strings.
\<close>

theorem requests_are_served:
  assumes "fs_ok fs" and "request_ok fs req" and "space_ok fs (amount req)"
  shows "\<exists>reply fs'. fuse_ops env req fs = (Inr reply, fs') \<and> fs_ok fs' \<and>
    (\<forall>v. v \<noteq> FILESYSTEM_CUR_MODIFIABLE_VER \<and> v \<notin> deleted req \<and> version_inodes fs v \<noteq> None \<longrightarrow> version_kept v fs fs')"
  using request_is_served [OF assms, of env] by (auto simp: served_by_def kept_def)

theorem requests_are_served_witness:
  "\<exists>reply fs'. fuse_ops demo_env (Req_rename ''/a'' ''/b'') demo_snap = (Inr reply, fs') \<and> fs_ok fs'"
  using requests_are_served [OF demo_snap_facts(1), of "Req_rename ''/a'' ''/b''" demo_env] demo_space(2) demo_kernel_path
  by auto


text \<open>
  C22. A request that would change an object, or make, remove, link or rename an entry, at a
  path below \<open>/.snapshot/v\<close> for a version other than the current one, as its first
  or its second path, changes nothing and is answered with EROFS; with two paths of which the
  first is \<open>/.snapshot\<close> itself the answer is EINVAL. Only \<open>mkdir\<close> and
  \<open>rmdir\<close> of \<open>/.snapshot/v\<close> are left out: they make and delete a
  snapshot.
\<close>

theorem snapshot_paths_read_only:
  assumes "path \<in> set (checked_paths req)" and "if_snapshot path [] = Inr (v, q)" and "v \<noteq> FILESYSTEM_CUR_MODIFIABLE_VER"
  shows "fuse_ops env req fs
     = (Inr (Code (- int (if components (hd (checked_paths req)) = [''.snapshot''] then EINVAL else EROFS))), fs)"
  using request_rdonly [OF assms, of env fs] by (simp add: refusal_def)

theorem snapshot_paths_read_only_witness:
  "fuse_ops demo_env (Req_rename ''/a'' ''/.snapshot/v1/a'') demo_snap = (Inr (Code (- 30)), demo_snap)"
  using snapshot_paths_read_only [of "''/.snapshot/v1/a''" "Req_rename ''/a'' ''/.snapshot/v1/a''" "''v1''" "''/a''" demo_env demo_snap]
  by (simp add: if_snapshot_def components_eq new_path_t_eq FILESYSTEM_CUR_MODIFIABLE_VER_def EROFS_def)

section \<open>Files and directories through requests\<close>

text \<open>
  C19. Creating a file at a free name of a directory returns 0, the path then leads to a new
  empty file, and its attributes are the mode that was asked for, the caller's identity, one
  link and size 0.
\<close>

theorem file_created:
  assumes "fs_ok fs" and "plain_path (p @ [n])"
    and "resolve fs FILESYSTEM_CUR_MODIFIABLE_VER p FILESYSTEM_ROOT_INODE_NUMBER = Inr d" and "op_ok fs (Make d n False)"
  shows "\<exists>k fs'. do_create env (path_to_string (p @ [n])) mode fs = (Inr 0, fs') \<and> fs_ok fs'
     \<and> resolve fs' FILESYSTEM_CUR_MODIFIABLE_VER (p @ [n]) FILESYSTEM_ROOT_INODE_NUMBER = Inr k \<and> fs_data fs' k FILESYSTEM_CUR_MODIFIABLE_VER = Some []
     \<and> do_getattr env' (path_to_string (p @ [n])) (fs', out)
       = (Inr 0, (fs', zero_stat\<lparr>st_ino := k, st_nlink := 1, st_mode := mode, st_uid := the_uid env, st_gid := the_gid env,
           st_size := 0, st_atim := clock env 0, st_mtim := clock env 0, st_ctim := clock env 0\<rparr>))"
  using assms by (rule create_getattr)

theorem file_created_witness:
  "\<exists>k fs'. do_create demo_env ''/b'' 420 demo_fs = (Inr 0, fs') \<and> fs_data fs' k FILESYSTEM_CUR_MODIFIABLE_VER = Some []"
proof -
  have p: "plain_path ([] @ [''b''])" using demo_plain(2) by simp
  from file_created [OF demo_fs_ok p demo_resolve(1) demo_make, of demo_env 420 demo_env zero_stat] show ?thesis by auto
qed

text \<open>
  C20. Bytes written to a file at an offset are the bytes that a read at the offset returns; the
  file is the old one with these bytes laid over it, a gap filled with zeros, and no other file
  and no snapshot changes.
\<close>

theorem file_written_through_requests:
  assumes "fs_ok fs" and "plain_path (p @ [n])"
    and "resolve fs FILESYSTEM_CUR_MODIFIABLE_VER (p @ [n]) FILESYSTEM_ROOT_INODE_NUMBER = Inr k" and "kind fs k = Some False" and "fs_data fs k FILESYSTEM_CUR_MODIFIABLE_VER = Some c" and "src \<noteq> []"
    and "0 \<le> offset" and "offset < 2 ^ 63" and "nat offset + length src < 2 ^ 64" and "length src < 2 ^ 31"
    and "write_room fs c (nat offset + length src)"
  shows "\<exists>fs'. do_write env (path_to_string (p @ [n])) src (length src) offset fs = (Inr (int (length src)), fs') \<and> fs_ok fs'
     \<and> fs_data fs' k FILESYSTEM_CUR_MODIFIABLE_VER = Some (pwrite (nat offset) src c)
     \<and> (\<forall>m v. m \<noteq> k \<or> v \<noteq> FILESYSTEM_CUR_MODIFIABLE_VER \<longrightarrow> fs_data fs' m v = fs_data fs m v)
     \<and> fst (do_read env' (path_to_string (p @ [n])) (length src) offset fs') = Inr (int (length src), src)"
  using assms by (rule write_read)

theorem file_written_through_requests_witness:
  "\<exists>fs'. do_write demo_env ''/a'' ''pXY'' 3 3 demo_fs = (Inr 3, fs') \<and> fs_data fs' 1 FILESYSTEM_CUR_MODIFIABLE_VER = Some ''helpXY''"
proof -
  have p: "plain_path ([] @ [''a''])" "resolve demo_fs FILESYSTEM_CUR_MODIFIABLE_VER ([] @ [''a'']) FILESYSTEM_ROOT_INODE_NUMBER = Inr 1"
    using demo_plain(1) demo_resolve(2) by simp_all
  have k: "kind demo_fs 1 = Some False" "fs_data demo_fs 1 FILESYSTEM_CUR_MODIFIABLE_VER = Some ''hello''" by (simp_all add: demo_fs_views demo_fs_data)
  have room: "write_room demo_fs ''hello'' (nat 3 + length ''pXY'')" using demo_rooms(4) [of 6] by simp
  from file_written_through_requests [OF demo_fs_ok p k _ _ _ _ _ room, of demo_env demo_env]
  obtain fs' where "do_write demo_env (path_to_string ([] @ [''a''])) ''pXY'' (length ''pXY'') 3 demo_fs = (Inr (int (length ''pXY'')), fs')"
    and "fs_data fs' 1 FILESYSTEM_CUR_MODIFIABLE_VER = Some (pwrite (nat 3) ''pXY'' ''hello'')" by auto
  then show ?thesis by (intro exI [of _ fs']) (simp add: pwrite_def resized_def numeral_3_eq_3)
qed

text \<open>
  C21. Listing a directory gives \<open>.\<close> and \<open>..\<close>, for the root also
  \<open>.snapshot\<close>, and then each entry of the directory in that version once; listing
  \<open>/.snapshot\<close> gives the versions. Nothing changes.
\<close>

theorem directory_listed:
  assumes "fs_ok fs" and "path \<noteq> ''/.snapshot''" and "if_snapshot path [] = Inr (v, q)"
    and "get_inode_id_by_path path fs = (Inr k, fs)" and "entries fs v k = Some dl"
  shows "do_readdir env path (fs, out)
       = (Inr 0, (fs, out @ [''.'', ''..''] @ (if path = ''/'' then [''.snapshot''] else []) @ names dl))
     \<and> distinct (names dl) \<and> set (names dl) = dom (child fs v k)
     \<and> do_readdir env ''/.snapshot'' (fs, out)
       = (Inr 0, (fs, out @ [''.'', ''..''] @ map (\<lambda>i. c_str (fst i)) (snapshot_version_list fs)))"
proof -
  have l: "locate fs path = Inr k" using assms(4) get_inode_id_by_path_locate [OF assms(1)] by simp
  have ne: "path \<noteq> ''/'' @ SNAPSHOT_ENTRY" using assms(2) by (simp add: SNAPSHOT_ENTRY_def)
  have "distinct (names dl)" using entries_dir_bytes [OF fs_okD(4) [OF assms(1)] assms(5)] by (simp add: dir_bytes_def)
  moreover have "child fs v k = dir_map dl" by (rule ext) (simp add: child_def assms(5))
  then have "set (names dl) = dom (child fs v k)" by (simp add: dir_map_dom)
  ultimately show ?thesis
    using do_readdir_ok [OF assms(1) ne assms(3) l assms(5), of env out] do_readdir_snapshots [of env fs out]
    by (simp add: SNAPSHOT_ENTRY_def)
qed

theorem directory_listed_witness:
  "do_readdir demo_env ''/'' (demo_fs, []) = (Inr 0, (demo_fs, [''.'', ''..'', ''.snapshot'', ''a'']))"
proof -
  have "get_inode_id_by_path ''/'' demo_fs = (Inr 0, demo_fs)"
    by (simp add: get_inode_id_by_path_locate [OF demo_fs_ok] locate_def FILESYSTEM_ROOT_INODE_NUMBER_def components_eq demo_resolve(1) [simplified])
  from directory_listed [OF demo_fs_ok _ if_snapshot_root this, of demo_entries demo_env "[]"]
  show ?thesis by (simp add: demo_entries) (simp add: demo_entries_def names_def)
qed

section \<open>Requests that do something else\<close>

text \<open>
  C32. A new symbolic link holds the path at which it is made, whatever the content asked for,
  as long as that content is not a path under a snapshot.
\<close>

theorem symlink_holds_its_own_path:
  assumes "fs_ok fs" and "plain_path (p @ [n])" and "if_snapshot content [] = Inr (FILESYSTEM_CUR_MODIFIABLE_VER, q)"
    and "resolve fs FILESYSTEM_CUR_MODIFIABLE_VER p FILESYSTEM_ROOT_INODE_NUMBER = Inr d" and "op_ok fs (Make d n False)"
    and "space_ok fs (length (path_to_string (p @ [n])))"
  shows "\<exists>k fs'. do_symlink env content (path_to_string (p @ [n])) fs = (Inr 0, fs') \<and> fs_ok fs'
     \<and> fs_data fs' k FILESYSTEM_CUR_MODIFIABLE_VER = Some (path_to_string (p @ [n])) \<and> child fs' FILESYSTEM_CUR_MODIFIABLE_VER d n = Some k"
  using assms by (rule symlink_self)

theorem symlink_holds_its_own_path_witness:
  "\<exists>k fs'. do_symlink demo_env ''../target'' ''/b'' demo_fs = (Inr 0, fs') \<and> fs_data fs' k FILESYSTEM_CUR_MODIFIABLE_VER = Some ''/b''"
proof -
  have p: "plain_path ([] @ [''b''])" using demo_plain(2) by simp
  have t: "if_snapshot ''../target'' [] = Inr (FILESYSTEM_CUR_MODIFIABLE_VER, ''../target'')" by (rule if_snapshot_current) (simp_all add: components_eq)
  from symlink_holds_its_own_path [OF demo_fs_ok p t demo_resolve(1) demo_make, of demo_env] demo_space(1) [of 2]
  show ?thesis by (auto simp: numeral_2_eq_2)
qed

text \<open>
  C33. Renaming \<open>/.snapshot/current\<close> reports an error only after the root directory
  has been entered under the new name, so the tree has a cycle afterwards.
\<close>

theorem current_version_renamed:
  assumes "fs_ok fs" and "plain_path (p @ [n])" and "storable_name n" and "resolve fs FILESYSTEM_CUR_MODIFIABLE_VER p FILESYSTEM_ROOT_INODE_NUMBER = Inr d"
    and "entries fs FILESYSTEM_CUR_MODIFIABLE_VER d = Some path" and "dir_map path n = None" and "dir_room fs (Suc (length path))"
  shows "\<exists>fs'. do_rename env ''/.snapshot/current'' (path_to_string (p @ [n])) fs
       = (Inr (- int (errno_of HTMPFS_INVALID_DENTRY_NAME)), fs')
     \<and> child fs' FILESYSTEM_CUR_MODIFIABLE_VER d n = Some FILESYSTEM_ROOT_INODE_NUMBER \<and> \<not> fs_ok fs'"
  using assms by (rule rename_current)

theorem current_version_renamed_witness:
  "\<exists>fs'. do_rename demo_env ''/.snapshot/current'' ''/b'' demo_fs = (Inr (- 22), fs') \<and> \<not> fs_ok fs'"
proof -
  have p: "plain_path ([] @ [''b''])" using demo_plain(2) by simp
  have e: "entries demo_fs FILESYSTEM_CUR_MODIFIABLE_VER 0 = Some demo_entries" by (simp add: demo_entries)
  from current_version_renamed [OF demo_fs_ok p demo_storable(2) demo_resolve(1) e, of demo_env] demo_rooms(1)
  show ?thesis by (auto simp: demo_dir_map errno_of_eq switch_cases_def EINVAL_def numeral_2_eq_2)
qed

text \<open>
  C34. Truncating a path whose lookup fails with another error than a missing entry, such as a
  path through a file, reaches undefined behaviour: the handler goes on with a pointer that was
  never set.
\<close>

theorem truncate_through_file:
  assumes "fs_ok fs" and "plain_path (p @ [n])"
    and "resolve fs FILESYSTEM_CUR_MODIFIABLE_VER (p @ [n]) FILESYSTEM_ROOT_INODE_NUMBER = Inl (HTMPFS_error_t c)" and "c \<noteq> HTMPFS_NO_SUCH_FILE_OR_DIR"
  shows "do_truncate env (path_to_string (p @ [n])) sz fs = (Inl Undefined_behaviour, fs)"
  using assms by (rule truncate_undefined)

theorem truncate_through_file_witness:
  "do_truncate demo_env ''/a/b'' 0 demo_fs = (Inl Undefined_behaviour, demo_fs)"
proof -
  have p: "plain_path ([''a''] @ [''b''])" using demo_plain(3) by simp
  from truncate_through_file [OF demo_fs_ok p, of HTMPFS_NOT_A_DIRECTORY demo_env 0] demo_resolve(3)
  show ?thesis by (simp del: resolve.simps)
qed

section \<open>Bitmaps and block devices\<close>

text \<open>
  C37. Setting a bit of a bitmap makes that bit read as what was set and leaves every other bit
  as it was; the inodes and the versions of the file system are not touched.
\<close>

theorem bits_set_and_read:
  assumes "bitmap_ok bm fs" and "l < bitmap_length bm" and "m < bitmap_length bm"
  shows "\<exists>fs'. set_bit_in_map bm l b fs = (Inr (), fs') \<and> bitmap_ok bm fs'
    \<and> get_bit_in_map bm m fs' = (if m = l then Inr (b \<noteq> 0) else fst (get_bit_in_map bm m fs), fs')
    \<and> inode_pool fs' = inode_pool fs \<and> snapshot_version_list fs' = snapshot_version_list fs"
proof -
  obtain fs' where s: "set_bit_in_map bm l b fs = (Inr (), fs')" and ok': "bitmap_ok bm fs'"
    and b: "bitmap_bits bm fs' = (bitmap_bits bm fs)[l := b \<noteq> 0]"
    and same: "inode_pool fs' = inode_pool fs" "snapshot_version_list fs' = snapshot_version_list fs"
    using set_bit_ok [OF assms(1,2)] by blast
  from get_bit_ok [OF ok' assms(3)] get_bit_ok [OF assms(1,3)] assms(2)
  have "get_bit_in_map bm m fs' = (if m = l then Inr (b \<noteq> 0) else fst (get_bit_in_map bm m fs), fs')"
    by (cases "m = l") (simp_all add: b)
  then show ?thesis using s ok' same by blast
qed

theorem bits_set_and_read_witness:
  "\<exists>fs'. set_bit_in_map demo_bitmap 1 1 demo_fs = (Inr (), fs') \<and> get_bit_in_map demo_bitmap 1 fs' = (Inr True, fs')"
  using bits_set_and_read [OF demo_bitmap_ok, of 1 1 1] by (auto simp: demo_bitmap_length)

text \<open>
  C38. A block written to a device is read back, and the other blocks of the device keep their
  bytes. A block beyond the first one after the end is refused as outside the device, but the
  first block after the end passes the check and fails as a short read.
\<close>

theorem device_blocks:
  assumes "blockized_ok os disk pos (io, w)" and "length old < 2 ^ 63"
  shows "(num < io_block_count io \<and> other < io_block_count io \<and> length buf = io_block_size io \<longrightarrow>
      (\<exists>w' w''. write_block os heap buf num (io, w) = (Inr (), (io, w')) \<and> blockized_ok os disk pos (io, w')
        \<and> read_block os old other (io, w') = (Inr (if other = num then buf
            else take (io_block_size io) (drop (other * io_block_size io) (disk w))), (io, w''))))
    \<and> (io_block_count io \<le> num \<longrightarrow> (\<exists>w'. read_block os old num (io, w) = (Inl (HTMPFS_error_t
        (if num = io_block_count io then HTMPFS_BLOCK_SHORT_OPS else HTMPFS_MEET_DEVICE_BOUNDARY)), (io, w'))))"
  using written_block_read [OF assms(1) _ _ _ assms(2)] read_block_boundary [OF assms(1)] by blast

theorem device_blocks_witness:
  "(\<exists>w' w''. write_block ram_disk (\<lambda>_. NUL) ''XY'' 1 (demo_device, (''aabbcc'', 0)) = (Inr (), (demo_device, w'))
    \<and> read_block ram_disk [] 1 (demo_device, w') = (Inr ''XY'', (demo_device, w''))) \<and>
   (\<exists>w'. read_block ram_disk [] 3 (demo_device, (''aabbcc'', 0)) = (Inl (HTMPFS_error_t HTMPFS_BLOCK_SHORT_OPS), (demo_device, w')))"
  using device_blocks [OF demo_device_ok, of "[]" 1 1 "''XY''" "\<lambda>_. NUL"] device_blocks [OF demo_device_ok, of "[]" 3]
  by (simp add: demo_device_def) blast

section \<open>Error reports\<close>

text \<open>
  C39. In a debug build an error that is thrown prints the place, the time and the first 64
  stack frames, each with the first line of what \<open>addr2line\<close> says of its file and
  address that does not begin with two question marks, and the message of the exception. The
  address given to \<open>addr2line\<close> is the offset followed by the absolute address; the
  message always shows the text of error number 0; and after the first error the line numbers of
  the following ones come out in base 16.
\<close>

theorem errors_reported:
  assumes "\<forall>fr\<in>set (take 64 frames). frame_ok fr \<and> answered popen says fr" and "\<not> disable_output flags"
    and "0 \<le> ns" and "ctime (ns div 1000000000) = Some now"
  shows "throw_htmpfs_error flags popen strerror ctime ns True (map symbol_text frames) file_name line function_name 2 (err_value e) msg c
     = (Inr (new_error (err_value e) msg), c\<lparr>cerr_text := cerr_text c
          @ newline # ''From '' @ file_name @ '':'' @ digits (if cerr_hex c then 16 else 10) line @ '': '' @ function_name @ '': ''
          @ (if is_time_enabled flags then newline # now else []) @ ''Obtained stack frame(s):'' @ [newline]
          @ concat (map (\<lambda>fr. CHR 0x09 # symbol_text fr
              @ (if is_addr2line_available flags then '' '' @ shown (says fr) else []) @ [newline]) (take 64 frames))
          @ [newline, newline]
          @ ''HTMPFS Error thrown'' @ [newline]
          @ ''HTMPFS error: 0x'' @ digits 16 (err_value e) @ '' ('' @ what (new_error (err_value e) msg) @ '')'' @ [newline]
          @ ''System error: '' @ strerror 0 @ [newline] @ ''User specified information: '' @ msg @ [newline],
        cerr_hex := True\<rparr>)"
  by (simp add: throw_htmpfs_error_def bindx_app function_info_eq [OF assms(2)]
      obtain_stack_frame_eq [where ctime = ctime and ns = ns, OF assms] construct_error_eq [OF assms(2)] frame_line_def [abs_def])

theorem errors_reported_witness:
  "\<exists>c. throw_htmpfs_error \<lparr>is_addr2line_available = True, is_time_enabled = True, disable_output = False\<rparr>
      (\<lambda>cmd. if cmd = ''addr2line a -f -p -e ./htmpfs 1f0x5'' then Some (''?? ??:0'' @ newline # ''get at a.cpp:3'' @ [newline]) else None)
      (\<lambda>n. ''ok'') (\<lambda>t. if t = 2 then Some ''Thu Jan  1 00:00:02 1970'' else None) 2500000000 True
      [''./htmpfs(get+1f) [0x5]''] ''a.cpp'' 30 ''get'' 2 (err_value HTMPFS_SUCCESSFUL) ''none''
      \<lparr>cout_text = [], cerr_text = [], cerr_hex = True\<rparr> = (Inr (new_error 0 ''none''), c)
    \<and> take 109 (cerr_text c) = newline # ''From a.cpp:1E: get: '' @ newline # ''Thu Jan  1 00:00:02 1970''
        @ ''Obtained stack frame(s):'' @ newline # CHR 0x09 # ''./htmpfs(get+1f) [0x5] get at a.cpp:3''"
  (is "\<exists>c. throw_htmpfs_error ?flags ?popen _ ?ctime _ _ _ _ _ _ _ _ _ ?c = _ \<and> _")
proof -
  let ?frame = "(''./htmpfs'', ''get'', ''1f'', ''0x5'')"
  let ?says = "\<lambda>_. [''?? ??:0'', ''get at a.cpp:3'']"
  have fr: "\<forall>fr\<in>set (take 64 [?frame]). frame_ok fr \<and> answered ?popen ?says fr" by simp
  from errors_reported [OF fr, of ?flags 2500000000 ?ctime "''Thu Jan  1 00:00:02 1970''" "\<lambda>n. ''ok''" "''a.cpp''" 30 "''get''"
      HTMPFS_SUCCESSFUL "''none''" ?c]
  show ?thesis by (simp add: digits.simps digit_def shown_def)
qed

end
