(* ===== verification/Spec2Isabelle.thy ===== *)
theory Spec2Isabelle
  imports Block_Properties Fuse_Properties
begin

text \<open>
  htmpfs, a file system in memory with snapshots: a model of the C++ program under
  \<open>src/src\<close> and the theorems that make it correct.

  The program. A file system object (\<open>inode_smi_t\<close>) keeps a pool of reference-counted blocks,
  a pool of inodes and a list of versions; the version \<open>current\<close> is the one that changes, the
  others are snapshots. An inode (\<open>inode_t\<close>) has a list of blocks per version. Creating a
  snapshot shares the blocks and marks them frozen, and writing copies a frozen block first.
  A directory is an inode whose bytes are a table of names and inode numbers
  (\<open>directory_resolver_t\<close>). Paths are split at slashes (\<open>path_t\<close>), and \<open>/.snapshot/v/...\<close> is a
  path in the version \<open>v\<close>. \<open>fuse.cpp\<close> answers the requests of the kernel with these operations,
  and \<open>mount.htmpfs.cpp\<close> sets the object up and hands the handlers to libfuse. Beside them are
  a bitmap over blocks, access to a block device, and the error and trace output.

  The model. C++ statements are state transformers with exceptions (\<open>Prelude\<close>): an exception
  keeps the changes made before it, \<open>catchx\<close> is \<open>catch\<close>, and undefined behaviour is an outcome
  of its own that no handler catches (\<open>exc\<close> in \<open>Errors\<close>). A \<open>uint64_t\<close> is a natural number below
  \<open>2 ^ 64\<close> with the wrap-around of sums and products written out (\<open>add64\<close>, \<open>mul64\<close>), the
  conversions to \<open>int\<close> and \<open>off_t\<close> are functions, and the byte of a bitmap is an 8-bit word. A
  \<open>std::map\<close> is a list ordered by its keys (\<open>Std_Map\<close>). Pointers to inodes and buffers are their
  numbers, and a number that is no longer in its pool is a dangling pointer.

  Theories and code, from the bottom:
    \<open>Errors\<close> (\<open>htmpfs_error.h\<close>, \<open>error.cpp\<close>), \<open>Buffer_T\<close> (\<open>buffer_t.cpp\<close>), \<open>Path_T\<close> (\<open>path_t.cpp\<close>,
    \<open>if_snapshot\<close>), \<open>Dentry_Format\<close> and \<open>Directory_Resolver\<close> (\<open>directory_resolver.cpp\<close>),
    \<open>Buffer_Pool\<close> (the pool functions of \<open>htmpfs.cpp\<close>), \<open>Inode\<close> (\<open>inode_t\<close>), \<open>Smi\<close>
    (\<open>inode_smi_t\<close>), \<open>Fuse\<close> (\<open>fuse.cpp\<close>), \<open>Mount\<close> (\<open>mount.htmpfs.cpp\<close>), \<open>Bitmap_T\<close>, \<open>Ll_Io\<close>,
    \<open>Debug_Text\<close> and \<open>Debug_Output\<close> (\<open>debug.cpp\<close>, \<open>debug.h\<close>) hold the definitions, one for each
    function of the source and under its name.
    \<open>Chunks\<close>, \<open>Ownership\<close>, \<open>Inode_Truncate\<close>, \<open>Inode_Rw\<close>, \<open>Inode_Spec\<close> and \<open>Inode_Volumes\<close> prove
    that an inode implements one byte string per version: \<open>inode_ok\<close> is its invariant,
    \<open>version_data\<close> the abstraction, \<open>inode_step\<close> what an operation leaves alone.
    \<open>Smi_Storage\<close>, \<open>Smi_Versions\<close>, \<open>Smi_Tree\<close>, \<open>Smi_Children\<close> and \<open>Smi_Removal\<close> lift this to the
    file system: \<open>fs_data\<close> (the bytes of an inode in a version), \<open>child\<close> (the entries), \<open>kind\<close>,
    \<open>links\<close>, \<open>version_inodes\<close>, and the invariant \<open>fs_ok\<close> = storage, versions and tree.
    \<open>Smi_Reach\<close> has guarded operations as a step relation and what they keep of a snapshot;
    \<open>Fs_Map\<close> is the export of a version's paths.
    \<open>Fuse_Files\<close>, \<open>Fuse_Tree\<close>, \<open>Fuse_Rename\<close>, \<open>Fuse_Replace\<close> and \<open>Fuse_Effects\<close> prove what the
    handlers do when they succeed. \<open>Runs\<close>, \<open>Fuse_Safety\<close>, \<open>Fuse_Readers\<close>, \<open>Fuse_Writers\<close>,
    \<open>Fuse_Contents\<close> and \<open>Fuse_Requests\<close> prove that every request within the guards
    below is answered, and keeps the invariant and the snapshots; \<open>session\<close> is a sequence of answered requests.
    \<open>Path_Map\<close> is the file system as its users see it, a map from paths to directories and bytes
    for each volume (\<open>volumes\<close>), and \<open>Path_Spec\<close> says on that map alone what each request does
    and answers (\<open>change\<close>, \<open>answer\<close>, \<open>path_step\<close>). \<open>Path_Nodes\<close>, \<open>Path_Moves\<close>, \<open>Path_Refines\<close> and
    \<open>Path_Answers\<close> prove that the handlers refine it, request by request (C1) and for every
    session from the mount on (C2). \<open>Path_Shape\<close> proves on the contract alone that every name of
    a volume can be written in a path, which the refinement carries over to the file system, so
    that its volumes can be exported (C8).
    \<open>Example_States\<close> and \<open>Example_Requests\<close> are concrete states; \<open>Block_Properties\<close>,
    \<open>Fuse_Properties\<close> and this theory state the properties, numbered by importance.

  Interfaces. \<open>keyed_store\<close> (\<open>Std_Map\<close>) is what the pools need of a map, \<open>byte_file\<close>
  (\<open>Directory_Resolver\<close>) what a directory needs of the inode that stores it, \<open>stable_steps\<close>
  (\<open>Runs\<close>) what makes a composition of steps safe, and \<open>attribute_steps\<close> (\<open>Fuse_Safety\<close>) what a
  relation between states needs for the requests that only look; each is interpreted on the
  model, the last two for the snapshots that are kept and for the volumes that do not change.

  Guards. \<open>op_ok\<close> says when an operation of the object succeeds: the name is free, the target
  is a file, and the pools have room (\<open>dir_room\<close>, \<open>file_room\<close>, \<open>counters_ok\<close>). \<open>space_ok\<close> is the
  same for requests, \<open>request_ok\<close> what is asked of the arguments, and \<open>kernel_path\<close> of paths:
  absolute, normalised, names shorter than 128 bytes, and not below \<open>/.snapshot/current\<close>;
  \<open>from_kernel\<close> asks the same of the paths of requests that are safe on any string.
  Names of 128 bytes and paths below \<open>/.snapshot/current\<close> are left out because the code fails
  on them, as C31 and C33 show; \<open>truncate_target\<close> leaves out the case of C34.

  Bounds and fuel. Every loop is structural or has a measure, except the recursion of
  \<open>export_as_filesystem_map\<close>: its fuel bounds the depth, and the number of inodes is enough
  (C14). The search for a free number ends within twice the size of the pool
  (\<open>free_number_found\<close>).

  Parameters. The clock, the caller's identity and \<open>errno\<close> (\<open>env\<close>), the calls of the operating
  system on a device (\<open>os\<close>, with \<open>block_device\<close> as the documented behaviour), \<open>popen\<close>, \<open>system\<close>,
  \<open>strerror\<close>, \<open>ctime\<close> and the frames of a trace, the standard library's string hash, and libfuse's
  \<open>fuse_opt_parse\<close> and \<open>fuse_main\<close>.

  Not modelled: \<open>get_current_time\<close>, which only calls the C library; the text that the handlers
  print on \<open>stderr\<close>; the thread of libfuse (the program asks for a single one); the iterators of \<open>directory_resolver_t\<close> and the smart pointer, which have no behaviour
  of their own; \<open>load_from_disk\<close>, \<open>sync\<close> and \<open>integrity_check_and_fix\<close>, declared without a body.
  The model is the build without debug output, except for \<open>Debug_Text\<close> and \<open>Debug_Output\<close>.
\<close>

section \<open>Snapshots\<close>

text \<open>
  C5. After a snapshot volume has been created, any sequence of file system operations except
  the deletion of that volume leaves every path under it as it was: looking up a path in the
  version gives the inode, or the error, that the path gave in the current version when the
  snapshot was taken.
\<close>

theorem snapshot_paths_isolated:
  assumes "fs_ok fs" and "op_ok fs (Snapshot v)" and "create_snapshot_volume v fs = (Inr (), fs1)"
    and "fs_steps fs1 ops fs2" and "Unsnapshot v \<notin> set ops"
    and "component v" and "\<forall>n\<in>set p. component n" and "p = [] \<or> hd p \<noteq> ''.snapshot''"
  shows "fst (get_inode_id_by_path (make_path_with_version (path_to_string p) v) fs2)
       = fst (get_inode_id_by_path (path_to_string p) fs)"
proof -
  note later = snapshot_later [OF assms(1-5)]
  have "v \<noteq> FILESYSTEM_CUR_MODIFIABLE_VER" using assms(1,2) by (auto elim: current_list)
  then show ?thesis
    using later(1-3) assms(1) locate_version [OF assms(6) _ assms(7) later(2)] locate_current [OF assms(7,8)]
    by (simp add: get_inode_id_by_path_eq fs_okD)
qed

theorem snapshot_paths_isolated_witness:
  "fst (get_inode_id_by_path ''/.snapshot/v1/a'' demo_later) = Inr 1"
proof -
  have c: "component ''v1''" "\<forall>n\<in>set [''a'']. component n" by (simp_all add: component_def)
  have "fst (get_inode_id_by_path ''/a'' demo_fs) = Inr 1"
    using locate_current [OF c(2), of demo_fs] demo_fs_ok
    by (simp add: get_inode_id_by_path_eq fs_okD demo_child demo_fs_views demo_fs_data FILESYSTEM_ROOT_INODE_NUMBER_def)
  then show ?thesis
    using snapshot_paths_isolated [OF demo_fs_ok demo_guards(1) demo_create demo_later_steps _ c]
    by (simp add: make_path_with_version_def FILESYSTEM_CUR_MODIFIABLE_VER_def)
qed

text \<open>
  C6. The bytes that a file or directory held when a snapshot was taken can be read through the
  snapshot after any later operations except the deletion of that volume, even when the file has
  been overwritten, truncated or removed from the current version.
\<close>

theorem snapshot_reads_isolated:
  assumes "fs_ok fs" and "op_ok fs (Snapshot v)" and "create_snapshot_volume v fs = (Inr (), fs1)"
    and "fs_steps fs1 ops fs2" and "Unsnapshot v \<notin> set ops"
    and "\<forall>n\<in>set p. component n" and "p = [] \<or> hd p \<noteq> ''.snapshot''"
    and "get_inode_id_by_path (path_to_string p) fs = (Inr k, fs)" and "fs_data fs k FILESYSTEM_CUR_MODIFIABLE_VER = Some c"
    and "offset + len < 2 ^ 64" and "offset < length c"
  shows "on_inode k (inode_read v len offset) fs2 = (Inr (take len (drop offset c)), fs2)"
proof -
  note later = snapshot_later [OF assms(1-5)]
  have "resolve fs FILESYSTEM_CUR_MODIFIABLE_VER p FILESYSTEM_ROOT_INODE_NUMBER = Inr k"
    using assms(1,8) locate_current [OF assms(6,7)] by (simp add: get_inode_id_by_path_eq fs_okD)
  then have "FILESYSTEM_CUR_MODIFIABLE_VER \<in> in_versions fs k"
    using resolve_in_version [OF assms(1)] tree_ok_root(2) [OF fs_okD(3) [OF assms(1)]] by blast
  then show ?thesis using read_fs_eq [OF later(1) _ assms(10)] later(4) assms(9,11) by simp
qed

theorem snapshot_reads_isolated_witness:
  "on_inode 1 (inode_read ''v1'' 9 1) demo_later = (Inr ''ello'', demo_later)"
proof -
  have c: "\<forall>n\<in>set [''a'']. component n" by (simp add: component_def)
  have "get_inode_id_by_path ''/a'' demo_fs = (Inr 1, demo_fs)"
    using locate_current [OF c, of demo_fs] demo_fs_ok
    by (simp add: get_inode_id_by_path_eq fs_okD demo_child demo_fs_views demo_fs_data FILESYSTEM_ROOT_INODE_NUMBER_def)
  then show ?thesis
    using snapshot_reads_isolated [OF demo_fs_ok demo_guards(1) demo_create demo_later_steps _ c, of 1 "''hello''" 1 9]
    by (simp add: demo_fs_data)
qed

text \<open>
  C17. Creating a snapshot volume gives every inode of the current version a version with the
  current bytes, changes no other version and no directory entry, and keeps the file system's
  invariant.
\<close>

theorem snapshot_created:
  assumes "fs_ok fs" and "op_ok fs (Snapshot v)" and "version_inodes fs FILESYSTEM_CUR_MODIFIABLE_VER = Some ks"
  shows "\<exists>fs'. create_snapshot_volume v fs = (Inr (), fs') \<and> fs_ok fs'
    \<and> fs_data fs' = (\<lambda>k. if k \<in> set ks then (fs_data fs k)(v := fs_data fs k FILESYSTEM_CUR_MODIFIABLE_VER) else fs_data fs k)
    \<and> version_inodes fs' = (version_inodes fs)(v \<mapsto> ks) \<and> kind fs' = kind fs"
  using create_snapshot_volume_fs_ok [OF assms(1,3), of v] assms(2) by auto

theorem snapshot_created_witness:
  "\<exists>fs'. create_snapshot_volume ''v1'' demo_fs = (Inr (), fs') \<and> fs_data fs' 1 ''v1'' = Some ''hello''"
  using snapshot_created [OF demo_fs_ok demo_guards(1,4)] by (auto simp: demo_fs_data)

text \<open>
  C18. Deleting a snapshot volume removes the version everywhere, drops the inodes that only it
  contained, and leaves the data of every other version as it was.
\<close>

theorem snapshot_deleted:
  assumes "fs_ok fs" and "op_ok fs (Unsnapshot v)"
  shows "\<exists>fs'. delete_snapshot_volume v fs = (Inr (), fs') \<and> fs_ok fs'
    \<and> version_inodes fs' = (version_inodes fs)(v := None) \<and> (\<forall>k. fs_data fs' k v = None)
    \<and> (\<forall>k w. w \<noteq> v \<and> in_versions fs k - {v} \<noteq> {} \<longrightarrow> fs_data fs' k w = fs_data fs k w)
    \<and> (\<forall>k. kind fs' k = (if in_versions fs k = {v} then None else kind fs k))"
proof -
  obtain ks where "version_inodes fs v = Some ks" using assms(2) by auto
  from delete_snapshot_volume_fs_ok [OF assms(1) this] assms(2) obtain fs' where
    "delete_snapshot_volume v fs = (Inr (), fs')" "fs_ok fs'" "\<forall>k. fs_data fs' k v = None"
    "\<forall>k w. w \<noteq> v \<longrightarrow> (\<exists>u. u \<noteq> v \<and> u \<in> in_versions fs k) \<longrightarrow> fs_data fs' k w = fs_data fs k w"
    "version_inodes fs' = (version_inodes fs)(v := None)"
    "\<forall>k. kind fs' k = (if in_versions fs k = {v} then None else kind fs k)" by auto
  then show ?thesis by (intro exI [of _ fs']) blast
qed

theorem snapshot_deleted_witness:
  "\<exists>fs'. delete_snapshot_volume ''v1'' demo_snap = (Inr (), fs') \<and> version_inodes fs' ''v1'' = None
    \<and> fs_data fs' 1 FILESYSTEM_CUR_MODIFIABLE_VER = Some ''hello''"
proof -
  have "op_ok demo_snap (Unsnapshot ''v1'')" by (simp add: demo_snap_facts(5) demo_snap_pool FILESYSTEM_CUR_MODIFIABLE_VER_def)
  moreover have "FILESYSTEM_CUR_MODIFIABLE_VER \<in> in_versions demo_snap 1 - {''v1''}"
    by (simp add: in_versions_def demo_snap_facts(5) demo_fs_views FILESYSTEM_CUR_MODIFIABLE_VER_def)
  moreover have "fs_data demo_snap 1 FILESYSTEM_CUR_MODIFIABLE_VER = Some ''hello''" by (simp add: demo_snap_facts(4) demo_fs_data FILESYSTEM_CUR_MODIFIABLE_VER_def)
  moreover have "FILESYSTEM_CUR_MODIFIABLE_VER \<noteq> ''v1''" by (simp add: FILESYSTEM_CUR_MODIFIABLE_VER_def)
  ultimately show ?thesis using snapshot_deleted [OF demo_snap_facts(1), of "''v1''"] by fastforce
qed

section \<open>The invariant\<close>

text \<open>
  C7. Every state that guarded operations reach from a fresh file system satisfies the
  invariant: the blocks of different inodes are disjoint and live, the version lists and link
  counts agree, and every directory of every version is well formed, with each inode under at
  most one name.
\<close>

theorem reachable_states_ok:
  assumes "0 < bs" and "bs < 2 ^ 32" and "fs_steps (new_inode_smi_t bs) ops fs"
  shows "fs_ok fs"
  using assms(3) new_fs_ok(1) [OF assms(1,2)] by (rule fs_steps_ok)

theorem reachable_states_ok_witness: "fs_ok demo_first"
  using reachable_states_ok [OF _ _ demo_first_steps] by simp

text \<open>
  C9. In a state that satisfies the invariant, every operation whose arguments are in order (a
  free valid name, an existing empty target, room in the pools, a version that exists or is
  free) returns without an error and keeps the invariant.
\<close>

theorem operations_succeed:
  assumes "fs_ok fs" and "op_ok fs op"
  shows "\<exists>fs'. run_op op fs = (Inr (), fs') \<and> fs_ok fs'"
  using run_op_ok [OF assms] by blast

theorem operations_succeed_witness: "\<exists>fs'. run_op (Remove 0 ''a'') demo_snap = (Inr (), fs') \<and> fs_ok fs'"
  using operations_succeed [OF demo_snap_facts(1) demo_snap_remove] .

text \<open>The link count of an inode is the number of versions that contain it; an inode without a version is gone.\<close>

lemma link_counts_count_versions:
  assumes "0 < bs" and "bs < 2 ^ 32" and "fs_steps (new_inode_smi_t bs) ops fs"
    and "count_link_for_inode k fs = (Inr n, fs)"
  shows "n = card (in_versions fs k) \<and> 0 < n"
proof -
  have "fs_ok fs" using assms(3) new_fs_ok(1) [OF assms(1,2)] by (rule fs_steps_ok)
  moreover have "links fs k = Some n"
    using assms(4) by (auto simp: count_link_for_inode_def links_def exec_simps split: option.splits)
  ultimately show ?thesis using versions_okD(3,4) [OF fs_okD(2)] by blast
qed

text \<open>
  C24. In every reachable state no buffer belongs to two inodes, in whatever versions, and every
  buffer that a version of an inode refers to is in the pool with a positive link count.
\<close>

theorem inodes_do_not_share_blocks:
  assumes "0 < bs" and "bs < 2 ^ 32" and "fs_steps (new_inode_smi_t bs) ops fs"
    and "inode_of fs k = Some i" and "j \<in> blocks_of i"
  shows "live (buffer_pool fs) j \<and> (\<forall>m i'. inode_of fs m = Some i' \<and> m \<noteq> k \<longrightarrow> j \<notin> blocks_of i')"
proof -
  have ok: "storage_ok fs" using fs_steps_ok [OF assms(3) new_fs_ok(1) [OF assms(1,2)]] by (rule fs_okD(1))
  have "j \<notin> blocks_of i'" if "inode_of fs m = Some i'" "m \<noteq> k" for m i'
    using storage_ok_disjoint [OF ok assms(4) that(1)] that(2) assms(5) by blast
  then show ?thesis using inode_ok_live [OF storage_okD(1) [OF ok assms(4)] assms(5)] by blast
qed

theorem inodes_do_not_share_blocks_witness:
  "\<exists>i j. inode_of demo_first 0 = Some i \<and> j \<in> blocks_of i \<and> live (buffer_pool demo_first) j"
proof -
  obtain i where i: "inode_of demo_first 0 = Some i" "blocks_of i \<noteq> {}" using demo_first_root by blast
  then obtain j where j: "j \<in> blocks_of i" by blast
  from inodes_do_not_share_blocks [OF _ _ demo_first_steps i(1) j] i(1) j show ?thesis by auto
qed

section \<open>Paths, files and directories\<close>

text \<open>
  C13. Looking up a path never changes the file system and is the walk through the directory
  maps: it fails with the error of the first component that is missing, not a directory, or not
  in the version; an empty path and a bare version name the root.
\<close>

theorem path_lookup:
  assumes "fs_ok fs"
  shows "get_inode_id_by_path path fs = (locate fs path, fs)"
  using assms by (simp add: get_inode_id_by_path_eq fs_okD)

theorem path_lookup_witness:
  "get_inode_id_by_path ''/a/b'' demo_fs = (Inl (HTMPFS_error_t HTMPFS_NOT_A_DIRECTORY), demo_fs)"
proof -
  have c: "\<forall>n\<in>set [''a'', ''b'']. component n" by (simp add: component_def)
  show ?thesis
    using path_lookup [OF demo_fs_ok, of "''/a/b''"] locate_current [OF c, of demo_fs]
    by (simp add: demo_child demo_fs_views demo_fs_data FILESYSTEM_ROOT_INODE_NUMBER_def)
qed

text \<open>
  C14. The export of a version's file system map ends and lists every path of the version
  exactly once, when the names can be written as paths (none is empty or has a slash, and the
  current root has no \<open>.snapshot\<close>); a depth of recursion as large as the number of
  inodes is enough. An entry of the empty name in the root, or in any directory that is reached
  by non-empty names, makes the recursion endless: no depth is enough.
\<close>

theorem file_system_map_complete:
  assumes "fs_ok fs"
  shows "(exportable fs v \<and> length (inode_pool fs) \<le> fuel \<longrightarrow>
      (\<exists>paths. export_as_filesystem_map fuel v fs = (Inr (Some paths), fs) \<and> distinct paths \<and>
        set paths = {path_to_string p | p. p \<noteq> [] \<and> (\<exists>k. resolve fs v p FILESYSTEM_ROOT_INODE_NUMBER = Inr k)})) \<and>
    (listable fs v \<and> resolve fs v p FILESYSTEM_ROOT_INODE_NUMBER = Inr d \<and> [] \<notin> set p \<and> child fs v d [] \<noteq> None \<longrightarrow>
      export_as_filesystem_map fuel v fs = (Inr None, fs))"
  using export_ok [OF assms, of v fuel, unfolded leads_def] export_diverges [OF assms, of v p d fuel] by blast

theorem file_system_map_complete_witness:
  "(\<exists>paths. export_as_filesystem_map 2 FILESYSTEM_CUR_MODIFIABLE_VER demo_fs = (Inr (Some paths), demo_fs) \<and> ''/a'' \<in> set paths) \<and>
   (\<exists>k fs'. make_child_dentry_under_parent 0 '''' True demo_fs = (Inr k, fs') \<and> export_as_filesystem_map 1000 FILESYSTEM_CUR_MODIFIABLE_VER fs' = (Inr None, fs'))"
proof
  have "path_to_string [''a''] = ''/a'' \<and> resolve demo_fs FILESYSTEM_CUR_MODIFIABLE_VER [''a''] FILESYSTEM_ROOT_INODE_NUMBER = Inr 1"
    by (simp add: FILESYSTEM_ROOT_INODE_NUMBER_def demo_fs_views demo_fs_data demo_child)
  then have "''/a'' \<in> {path_to_string p | p. p \<noteq> [] \<and> (\<exists>k. resolve demo_fs FILESYSTEM_CUR_MODIFIABLE_VER p FILESYSTEM_ROOT_INODE_NUMBER = Inr k)}"
    by (intro CollectI exI [of _ "[''a'']"]) (simp del: resolve.simps path_to_string.simps)
  then show "\<exists>paths. export_as_filesystem_map 2 FILESYSTEM_CUR_MODIFIABLE_VER demo_fs = (Inr (Some paths), demo_fs) \<and> ''/a'' \<in> set paths"
    using file_system_map_complete [OF demo_fs_ok, where v = FILESYSTEM_CUR_MODIFIABLE_VER and fuel = 2, THEN conjunct1] demo_exportable demo_fs_pool(5) by fastforce
  obtain k fs' where m: "make_child_dentry_under_parent 0 '''' True demo_fs = (Inr k, fs')" and ok: "fs_ok fs'"
    and x: "listable fs' FILESYSTEM_CUR_MODIFIABLE_VER" and c: "child fs' FILESYSTEM_CUR_MODIFIABLE_VER FILESYSTEM_ROOT_INODE_NUMBER '''' \<noteq> None"
    using demo_empty_name by blast
  have "export_as_filesystem_map 1000 FILESYSTEM_CUR_MODIFIABLE_VER fs' = (Inr None, fs')"
    using file_system_map_complete [OF ok, where v = FILESYSTEM_CUR_MODIFIABLE_VER and p = "[]" and d = FILESYSTEM_ROOT_INODE_NUMBER and fuel = 1000, THEN conjunct2] x c by simp
  with m show "\<exists>k fs'. make_child_dentry_under_parent 0 '''' True demo_fs = (Inr k, fs') \<and> export_as_filesystem_map 1000 FILESYSTEM_CUR_MODIFIABLE_VER fs' = (Inr None, fs')"
    by blast
qed

text \<open>
  C15. Making a child adds one edge to the current version of the parent, to a fresh inode of
  the requested kind without data, and puts the inode in the current version's list; all other
  data of all versions, other directories included, stay as they are.
\<close>

theorem child_made:
  assumes "fs_ok fs" and "entries fs FILESYSTEM_CUR_MODIFIABLE_VER p = Some path" and "valid_name name" and "child fs FILESYSTEM_CUR_MODIFIABLE_VER p name = None"
    and "dir_room fs (Suc (length path))" and "length (inode_pool fs) < inode_pool_max_size"
    and "version_inodes fs FILESYSTEM_CUR_MODIFIABLE_VER = Some ks"
  shows "\<exists>k fs'. make_child_dentry_under_parent p name d fs = (Inr k, fs') \<and> inode_of fs k = None \<and> fs_ok fs'
    \<and> child fs' = (child fs)(FILESYSTEM_CUR_MODIFIABLE_VER := (child fs FILESYSTEM_CUR_MODIFIABLE_VER)(p := (child fs FILESYSTEM_CUR_MODIFIABLE_VER p)(name \<mapsto> k)))
    \<and> kind fs' = (kind fs)(k \<mapsto> d) \<and> fs_data fs' k = [FILESYSTEM_CUR_MODIFIABLE_VER \<mapsto> []]
    \<and> (\<forall>m v. m \<noteq> k \<and> (m \<noteq> p \<or> v \<noteq> FILESYSTEM_CUR_MODIFIABLE_VER) \<longrightarrow> fs_data fs' m v = fs_data fs m v)
    \<and> version_inodes fs' = (version_inodes fs)(FILESYSTEM_CUR_MODIFIABLE_VER \<mapsto> ks @ [k])"
  using make_child_fs_ok [OF assms, of d] by blast

theorem child_made_witness:
  "\<exists>k fs'. make_child_dentry_under_parent 0 ''b'' True demo_fs = (Inr k, fs') \<and> fs_ok fs'
    \<and> child fs' FILESYSTEM_CUR_MODIFIABLE_VER 0 ''b'' = Some k \<and> child fs' FILESYSTEM_CUR_MODIFIABLE_VER 0 ''a'' = Some 1 \<and> kind fs' k = Some True"
proof -
  have e: "entries demo_fs FILESYSTEM_CUR_MODIFIABLE_VER 0 = Some demo_entries" by (simp add: demo_entries)
  have n: "valid_name ''b''" by (simp add: valid_name_def bad_char_def signed_char_def)
  have f: "child demo_fs FILESYSTEM_CUR_MODIFIABLE_VER 0 ''b'' = None" by (simp add: demo_child)
  have r: "dir_room demo_fs (Suc (length demo_entries))" "length (inode_pool demo_fs) < inode_pool_max_size"
    by (simp_all add: dir_room_def demo_fs_views demo_fs_pool demo_dir_map block_count_def
        buffer_pool_max_size_def inode_pool_max_size_def)
  from child_made [OF demo_fs_ok e n f r demo_guards(4), of True] demo_child show ?thesis by fastforce
qed

text \<open>
  C35. A name with a slash or a character outside 0x1F to 0x7E is refused (the character 0x1F,
  which is not printable, passes the test), so is a name that is taken; removing a name that the
  directory does not have or a directory with entries fails; a snapshot name that is taken and
  the deletion of an unknown volume are refused. Each with its error, and none changes the file
  system.
\<close>

theorem refusals_change_nothing:
  assumes "fs_ok fs" and "entries fs FILESYSTEM_CUR_MODIFIABLE_VER p = Some path"
  shows "((\<exists>c\<in>set name. c = CHR ''/'' \<or> of_char c < (0x1F :: nat) \<or> of_char c > (0x7E :: nat)) \<longrightarrow>
      make_child_dentry_under_parent p name d fs = (Inl (HTMPFS_error_t HTMPFS_INVALID_DENTRY_NAME), fs)) \<and>
    ((\<forall>c\<in>set name. c \<noteq> CHR ''/'' \<and> of_char c \<ge> (0x1F :: nat) \<and> of_char c \<le> (0x7E :: nat)) \<and> child fs FILESYSTEM_CUR_MODIFIABLE_VER p name \<noteq> None \<longrightarrow>
      make_child_dentry_under_parent p name d fs = (Inl (HTMPFS_error_t HTMPFS_DOUBLE_MKPATHNAME), fs)) \<and>
    (child fs FILESYSTEM_CUR_MODIFIABLE_VER p name = None \<longrightarrow>
      remove_child_dentry_under_parent p name fs = (Inl (HTMPFS_error_t HTMPFS_NO_SUCH_FILE_OR_DIR), fs)) \<and>
    (child fs FILESYSTEM_CUR_MODIFIABLE_VER p name = Some t \<and> entries fs FILESYSTEM_CUR_MODIFIABLE_VER t = Some sub \<and> sub \<noteq> [] \<longrightarrow>
      remove_child_dentry_under_parent p name fs = (Inl (HTMPFS_error_t HTMPFS_DIR_NOT_EMPTY), fs)) \<and>
    (version_inodes fs v \<noteq> None \<longrightarrow>
      create_snapshot_volume v fs = (Inl (HTMPFS_error_t HTMPFS_DOUBLE_SNAPSHOT), fs)) \<and>
    (version_inodes fs v = None \<longrightarrow>
      delete_snapshot_volume v fs = (Inl (HTMPFS_error_t HTMPFS_NO_SUCH_SNAPSHOT), fs))"
proof -
  note child = make_child_refused_name make_child_refused_double [OF fs_okD(1,4)]
  note volume = create_snapshot_volume_double delete_snapshot_volume_missing
  have bad: "bad_char c \<longleftrightarrow> c = CHR ''/'' \<or> of_char c < (0x1F :: nat) \<or> of_char c > (0x7E :: nat)" for c
  proof -
    obtain n :: nat where "of_char c = n" "n < 256" using nat_of_char_less_256 [of c] by blast
    then show ?thesis by (auto simp: bad_char_def signed_char_def Let_def)
  qed
  have "list_ex bad_char name \<longleftrightarrow> (\<exists>c\<in>set name. c = CHR ''/'' \<or> of_char c < (0x1F :: nat) \<or> of_char c > (0x7E :: nat))"
    by (simp add: list_ex_iff bad)
  then show ?thesis using assms(1) child remove_child_missing [OF assms] remove_child_not_empty [OF assms(1)] volume by auto
qed

theorem refusals_change_nothing_witness:
  "make_child_dentry_under_parent 0 ''a'' True demo_fs = (Inl (HTMPFS_error_t HTMPFS_DOUBLE_MKPATHNAME), demo_fs) \<and>
   remove_child_dentry_under_parent 0 ''b'' demo_fs = (Inl (HTMPFS_error_t HTMPFS_NO_SUCH_FILE_OR_DIR), demo_fs) \<and>
   create_snapshot_volume ''current'' demo_fs = (Inl (HTMPFS_error_t HTMPFS_DOUBLE_SNAPSHOT), demo_fs)"
proof -
  have e: "entries demo_fs FILESYSTEM_CUR_MODIFIABLE_VER 0 = Some demo_entries" by (simp add: demo_entries)
  note refused = refusals_change_nothing [OF demo_fs_ok e]
  show ?thesis
    using refused [of "''a''" True 0 "[]" "''current''"] refused [of "''b''" True 0 "[]" "''current''"] demo_guards(4)
    by (simp add: demo_child bad_char_def signed_char_def FILESYSTEM_CUR_MODIFIABLE_VER_def)
qed

text \<open>
  C16. Removing a file or an empty directory deletes the one edge from the current version of
  the parent; the inode disappears when no snapshot contains it and keeps all its snapshot data
  otherwise.
\<close>

theorem child_removed:
  assumes "fs_ok fs" and "op_ok fs (Remove p name)" and "child fs FILESYSTEM_CUR_MODIFIABLE_VER p name = Some t"
  shows "\<exists>fs'. remove_child_dentry_under_parent p name fs = (Inr (), fs') \<and> fs_ok fs'
    \<and> child fs' = (child fs)(FILESYSTEM_CUR_MODIFIABLE_VER := (child fs FILESYSTEM_CUR_MODIFIABLE_VER)(p := (child fs FILESYSTEM_CUR_MODIFIABLE_VER p)(name := None)))
    \<and> (\<forall>m v. v \<noteq> FILESYSTEM_CUR_MODIFIABLE_VER \<longrightarrow> fs_data fs' m v = fs_data fs m v)
    \<and> kind fs' = (kind fs)(t := if in_versions fs t = {FILESYSTEM_CUR_MODIFIABLE_VER} then None else kind fs t)"
proof -
  obtain path where e: "entries fs FILESYSTEM_CUR_MODIFIABLE_VER p = Some path" "removable fs t" "dir_room fs (length path)"
    "length (snapshot_version_list fs) < 2 ^ 64"
    using assms(2,3) by (auto simp: child_def split: option.splits)
  obtain ks where "version_inodes fs FILESYSTEM_CUR_MODIFIABLE_VER = Some ks" using assms(1) by (rule current_list)
  from remove_child_fs_ok [OF assms(1) e(1) assms(3) e(2-4) this] show ?thesis by blast
qed

theorem child_removed_witness:
  "\<exists>fs'. remove_child_dentry_under_parent 0 ''a'' demo_snap = (Inr (), fs') \<and> child fs' FILESYSTEM_CUR_MODIFIABLE_VER 0 ''a'' = None
    \<and> fs_data fs' 1 ''v1'' = Some ''hello''"
proof -
  have "child demo_snap FILESYSTEM_CUR_MODIFIABLE_VER 0 ''a'' = Some 1" by (simp add: child_def demo_snap_entries demo_dir_map)
  moreover have "''v1'' \<noteq> FILESYSTEM_CUR_MODIFIABLE_VER" "fs_data demo_snap 1 ''v1'' = Some ''hello''"
    by (simp_all add: demo_snap_facts(4) demo_fs_data FILESYSTEM_CUR_MODIFIABLE_VER_def)
  ultimately show ?thesis using child_removed [OF demo_snap_facts(1) demo_snap_remove] by fastforce
qed

text \<open>
  C23. What is written to a file at an offset is read back from that offset, and the file then
  ends after the written bytes, its first bytes being the old ones; no other file, directory or
  version changes.
\<close>

theorem file_written_and_read:
  assumes "fs_ok fs" and "op_ok fs (Write k src offset)" and "fs_data fs k FILESYSTEM_CUR_MODIFIABLE_VER = Some c"
  shows "\<exists>fs'. on_inode k (inode_write src (length src) offset True False) fs = (Inr (length src), fs') \<and> fs_ok fs'
    \<and> on_inode k (inode_read FILESYSTEM_CUR_MODIFIABLE_VER (length src) offset) fs' = (Inr src, fs')
    \<and> fs_data fs' = (fs_data fs)(k := (fs_data fs k)(FILESYSTEM_CUR_MODIFIABLE_VER \<mapsto> resized offset c @ src)) \<and> child fs' = child fs"
proof -
  have k: "kind fs k = Some False" and room: "file_room fs (offset + length src)" and src: "0 < length src"
    using assms(2) by (simp_all add: is_file_def)
  obtain fs' where run: "on_inode k (inode_write src (length src) offset True False) fs = (Inr (length src), fs')"
    and ok: "fs_ok fs'" and ch: "child fs' = child fs"
    and d: "fs_data fs' = (fs_data fs)(k := (fs_data fs k)(FILESYSTEM_CUR_MODIFIABLE_VER \<mapsto> resized offset c @ src))"
    using write_resize_fs_ok [OF assms(1) k assms(3) room src order_refl] by auto
  have "offset + length src < 2 ^ 64" using room by (simp add: file_room_def)
  then have "on_inode k (inode_read FILESYSTEM_CUR_MODIFIABLE_VER (length src) offset) fs' = (Inr (take (length src) (drop offset (resized offset c @ src))), fs')"
    using d src by (intro read_fs_eq [OF ok] disjI1) simp_all
  moreover have "take (length src) (drop offset (resized offset c @ src)) = src" by (simp add: resized_def)
  ultimately show ?thesis using run ok ch d by auto
qed

theorem file_written_and_read_witness:
  "\<exists>fs'. on_inode 1 (inode_write ''bye'' 3 2 True False) demo_snap = (Inr 3, fs')
    \<and> on_inode 1 (inode_read FILESYSTEM_CUR_MODIFIABLE_VER 3 2) fs' = (Inr ''bye'', fs') \<and> fs_data fs' 1 ''v1'' = Some ''hello''"
proof -
  have d: "fs_data demo_snap 1 FILESYSTEM_CUR_MODIFIABLE_VER = Some ''hello''" "fs_data demo_snap 1 ''v1'' = Some ''hello''" "''v1'' \<noteq> FILESYSTEM_CUR_MODIFIABLE_VER"
    by (simp_all add: demo_snap_facts(4) demo_fs_data FILESYSTEM_CUR_MODIFIABLE_VER_def)
  have g: "op_ok demo_snap (Write 1 ''bye'' 2)"
    using d(1) by (simp add: is_file_def file_room_def demo_snap_facts(2,3) demo_fs_views demo_snap_pool
        block_count_def buffer_pool_max_size_def)
  from file_written_and_read [OF demo_snap_facts(1) g d(1)] obtain fs' where
    r: "on_inode 1 (inode_write ''bye'' (length ''bye'') 2 True False) demo_snap = (Inr (length ''bye''), fs')"
      "on_inode 1 (inode_read FILESYSTEM_CUR_MODIFIABLE_VER (length ''bye'') 2) fs' = (Inr ''bye'', fs')"
    and f: "fs_data fs' = (fs_data demo_snap)(1 := (fs_data demo_snap 1)(FILESYSTEM_CUR_MODIFIABLE_VER \<mapsto> resized 2 ''hello'' @ ''bye''))"
    by blast
  have n: "length ''bye'' = 3" by simp
  have "fs_data fs' 1 ''v1'' = Some ''hello''" unfolding f using d(2,3) by simp
  then show ?thesis using r [unfolded n] by blast
qed

end
